(* ===== verification/Tk_Prelude.thy ===== *)
theory Tk_Prelude
  imports Main "HOL-Library.Word"
begin

section \<open>Shared vocabulary of the tubekit development\<close>

text \<open>
  The types, the C++ exceptions as values, unsigned 64-bit arithmetic on \<open>nat\<close>, and the generic
  list facts that the component theories share. Bytes are \<open>8 word\<close>; sizes (\<open>uint64_t\<close>,
  \<open>size_t\<close>) are \<open>nat\<close> with the wrap-around of subtraction and addition written out by
  \<open>usub64\<close> and \<open>uadd64\<close>, so that an underflow or an overflow of the source is visible in
  the model and every theorem that excludes one has to say why.
\<close>

type_synonym byte = "8 word"
type_synonym bytes = "8 word list"
type_synonym u32 = "32 word"
type_synonym u64 = "64 word"

text \<open>The C++ exceptions that the modelled code throws, and a computation that may throw.\<close>

datatype exn =
    Runtime_error string
  | Logic_error string
  | Out_of_range
  | Length_error

type_synonym 'a res = "exn + 'a"

named_theorems tk_list_simps \<open>facts on slices of lists\<close>
named_theorems tk_arith \<open>facts on unsigned 64-bit arithmetic\<close>

subsection \<open>Computations that may throw and keep their state\<close>

text \<open>
  A method that throws leaves the fields it has already written as they are, so a computation over
  a state \<open>'s\<close> yields its outcome and the state in both cases. \<open>bindS\<close> is the
  sequencing of the source: an exception skips the rest of the method and keeps the state.
\<close>

fun bindS :: "'a res \<times> 's \<Rightarrow> ('a \<Rightarrow> 's \<Rightarrow> 'b res \<times> 's) \<Rightarrow> 'b res \<times> 's" where
  "bindS (Inl e, s) f = (Inl e, s)"
| "bindS (Inr a, s) f = f a s"

lemma bindS_cong [fundef_cong]:
  "r = r' \<Longrightarrow> (\<And>a s. r' = (Inr a, s) \<Longrightarrow> f a s = g a s) \<Longrightarrow> bindS r f = bindS r' g"
  by (cases r'; cases "fst r'") auto

subsection \<open>Unsigned 64-bit arithmetic\<close>

abbreviation u64_limit :: nat where
  "u64_limit \<equiv> 18446744073709551616"

text \<open>No object is larger than \<open>PTRDIFF_MAX\<close>, so lengths of byte ranges stay below this.\<close>

abbreviation object_limit :: nat where
  "object_limit \<equiv> 9223372036854775808"

definition usub64 :: "nat \<Rightarrow> nat \<Rightarrow> nat" where
  "usub64 a b = (if b \<le> a then a - b else u64_limit + a - b)"

definition uadd64 :: "nat \<Rightarrow> nat \<Rightarrow> nat" where
  "uadd64 a b = (a + b) mod u64_limit"

lemma usub64_le [simp, tk_arith]: "b \<le> a \<Longrightarrow> usub64 a b = a - b"
  by (simp add: usub64_def)

lemma usub64_wraps: "a < b \<Longrightarrow> b \<le> u64_limit \<Longrightarrow> usub64 a b = u64_limit - (b - a)"
  by (simp add: usub64_def)

lemma uadd64_small [simp, tk_arith]: "a + b < u64_limit \<Longrightarrow> uadd64 a b = a + b"
  by (simp add: uadd64_def)

lemma uadd64_bound: "uadd64 a b < u64_limit"
  by (simp add: uadd64_def)

subsection \<open>Slices of a block of memory\<close>

text \<open>
  \<open>seg i j xs\<close> is the range \<open>[i, j)\<close> of a block, \<open>store_at i ys xs\<close> the block
  after \<open>memcpy\<close> (or \<open>memmove\<close>) wrote \<open>ys\<close> at offset \<open>i\<close>.
\<close>

definition seg :: "nat \<Rightarrow> nat \<Rightarrow> 'a list \<Rightarrow> 'a list" where
  "seg i j xs = take (j - i) (drop i xs)"

definition store_at :: "nat \<Rightarrow> 'a list \<Rightarrow> 'a list \<Rightarrow> 'a list" where
  "store_at i ys xs = take i xs @ ys @ drop (i + length ys) xs"

lemma length_seg [simp]: "j \<le> length xs \<Longrightarrow> length (seg i j xs) = j - i"
  by (auto simp: seg_def min_def)

lemma seg_empty [simp]: "seg i i xs = []"
  by (simp add: seg_def)

lemma seg_whole [simp]: "length xs = n \<Longrightarrow> seg 0 n xs = xs"
  by (simp add: seg_def)

lemma seg_append_left: "j \<le> length xs \<Longrightarrow> seg i j (xs @ ys) = seg i j xs"
  by (cases "i \<le> length xs") (auto simp: seg_def)

lemma drop_seg: "drop k (seg i j xs) = seg (i + k) j xs"
  by (simp add: seg_def drop_take add.commute)

lemma take_seg: "i + k \<le> j \<Longrightarrow> take k (seg i j xs) = seg i (i + k) xs"
  by (simp add: seg_def min_def)

lemma length_store_at [simp]:
  "i + length ys \<le> length xs \<Longrightarrow> length (store_at i ys xs) = length xs"
  by (simp add: store_at_def)

lemma seg_store_at_snoc:
  assumes "i \<le> j" "j + length ys \<le> length xs"
  shows "seg i (j + length ys) (store_at j ys xs) = seg i j xs @ ys"
proof -
  have "drop i (store_at j ys xs) = seg i j xs @ ys @ drop (j + length ys) xs"
    using assms by (simp add: store_at_def seg_def drop_take min_def)
  moreover have "length (seg i j xs) = j - i"
    using assms by simp
  ultimately show ?thesis
    using assms(1) by (simp add: seg_def [of i "j + length ys"])
qed

lemma seg_store_at_front:
  assumes "length ys \<le> length xs"
  shows "seg 0 (length ys) (store_at 0 ys xs) = ys"
  by (simp add: seg_def store_at_def)

lemmas seg_facts [tk_list_simps] =
  seg_append_left drop_seg take_seg seg_store_at_snoc seg_store_at_front

subsection \<open>The present elements of a list of pointers\<close>

fun somes :: "'a option list \<Rightarrow> 'a list" where
  "somes [] = []"
| "somes (None # xs) = somes xs"
| "somes (Some x # xs) = x # somes xs"

lemma somes_append [simp]: "somes (xs @ ys) = somes xs @ somes ys"
  by (induction xs rule: somes.induct) auto

end
