(* ===== verification/Tk_Buffer.thy ===== *)
theory Tk_Buffer
  imports Tk_Prelude
begin

section \<open>The growable byte buffer (external/tubekit-buffer)\<close>

text \<open>
  \<open>tubekit::buffer::buffer\<close> is the FIFO every connection uses between a socket and the
  application. The pointers \<open>m_read_ptr\<close> and \<open>m_write_ptr\<close> are offsets into the block
  \<open>m_buffer\<close> (\<open>None\<close> is \<open>nullptr\<close>, where both offsets are 0). Memory comes from a
  parameter \<open>heap\<close>: \<open>heap n\<close> is the block \<open>malloc(n)\<close> returns, with whatever bytes
  it holds, or \<open>None\<close> when the allocation fails. Each method locks \<open>m_mutex\<close> for its
  whole body, so a method is one atomic step.

  The theory shows that the three offsets stay ordered and within the limit, that the buffer is a
  bounded FIFO of bytes whose capacity is exactly \<open>m_limit_max\<close>, and that a rejected write
  leaves the readable bytes as they were.
\<close>

type_synonym heap = "nat \<Rightarrow> bytes option"

record buffer =
  m_limit_max :: nat
  m_size :: nat
  m_read_ptr :: nat
  m_write_ptr :: nat
  m_buffer :: "bytes option"

definition buffer_new :: buffer where
  "buffer_new = \<lparr>m_limit_max = 1024, m_size = 0, m_read_ptr = 0, m_write_ptr = 0, m_buffer = None\<rparr>"

definition mem :: "buffer \<Rightarrow> bytes" where
  "mem b = (case m_buffer b of None \<Rightarrow> [] | Some m \<Rightarrow> m)"

definition check_init :: "heap \<Rightarrow> buffer \<Rightarrow> unit res \<times> buffer" where
  "check_init heap b =
     (if m_buffer b = None \<and> m_write_ptr b = 0 \<and> m_read_ptr b = 0
      then (case heap 1024 of
              None \<Rightarrow> (Inl (Runtime_error ''buffer::buffer malloc failed''), b)
            | Some blk \<Rightarrow>
                (Inr (), b\<lparr>m_buffer := Some blk, m_size := 1024, m_read_ptr := 0, m_write_ptr := 0\<rparr>))
      else (Inr (), b))"

definition get_readable_size :: "heap \<Rightarrow> buffer \<Rightarrow> nat res \<times> buffer" where
  "get_readable_size heap b =
     bindS (check_init heap b) (\<lambda>_ b. (Inr (usub64 (m_write_ptr b) (m_read_ptr b)), b))"

definition after_size :: "heap \<Rightarrow> buffer \<Rightarrow> nat res \<times> buffer" where
  "after_size heap b =
     bindS (check_init heap b) (\<lambda>_ b. (Inr (usub64 (m_size b) (m_write_ptr b)), b))"

text \<open>
  \<open>read\<close> returns the bytes it copied to \<open>dest\<close>; the number the C++ method returns is
  their count.
\<close>

definition buffer_read :: "heap \<Rightarrow> bool \<Rightarrow> nat \<Rightarrow> buffer \<Rightarrow> bytes res \<times> buffer" where
  "buffer_read heap dest_null sz b =
     bindS (check_init heap b) (\<lambda>_ b.
       if dest_null \<or> sz = 0
       then (Inl (Runtime_error ''dest == nullptr || size == 0''), b)
       else bindS (get_readable_size heap b) (\<lambda>can_readable b.
         if sz \<le> can_readable
         then (Inr (take sz (drop (m_read_ptr b) (mem b))),
               b\<lparr>m_read_ptr := m_read_ptr b + sz\<rparr>)
         else (Inr (take can_readable (drop (m_read_ptr b) (mem b))),
               b\<lparr>m_read_ptr := m_read_ptr b + can_readable\<rparr>)))"

text \<open>
  A source argument is the pair of a pointer and a size: \<open>None\<close> is \<open>nullptr\<close>,
  \<open>Some xs\<close> the \<open>length xs\<close> bytes at the pointer.
\<close>

definition check_and_write :: "heap \<Rightarrow> bytes \<Rightarrow> buffer \<Rightarrow> bool res \<times> buffer" where
  "check_and_write heap source b =
     bindS (check_init heap b) (\<lambda>_ b.
       bindS (after_size heap b) (\<lambda>m_after_size b.
         if length source \<le> m_after_size
         then (Inr True,
               b\<lparr>m_buffer := Some (store_at (m_write_ptr b) source (mem b)),
                 m_write_ptr := m_write_ptr b + length source\<rparr>)
         else (Inr False, b)))"

definition move_to_before :: "heap \<Rightarrow> buffer \<Rightarrow> unit res \<times> buffer" where
  "move_to_before heap b =
     bindS (check_init heap b) (\<lambda>_ b.
       bindS (get_readable_size heap b) (\<lambda>readable b.
         (Inr (),
          b\<lparr>m_buffer := Some (store_at 0 (take readable (drop (m_read_ptr b) (mem b))) (mem b)),
            m_write_ptr := readable, m_read_ptr := 0\<rparr>)))"

text \<open>
  \<open>realloc\<close> keeps the common prefix of the old and the new block; the new tail is fresh
  memory.
\<close>

definition realloc :: "heap \<Rightarrow> bytes \<Rightarrow> nat \<Rightarrow> bytes option" where
  "realloc heap old n =
     (if n \<le> length old then Some (take n old)
      else map_option (\<lambda>ext. old @ ext) (heap (n - length old)))"

definition buffer_grow :: "heap \<Rightarrow> bytes \<Rightarrow> buffer \<Rightarrow> unit res \<times> buffer" where
  "buffer_grow heap source b =
     bindS (after_size heap b) (\<lambda>after b.
       let should_add_size = usub64 (length source) after in
       if m_limit_max b < uadd64 should_add_size (m_size b)
       then (Inl (Runtime_error ''should_add_size + m_size > m_limit_max''), b)
       else (case realloc heap (mem b) (uadd64 (m_size b) should_add_size) of
               None \<Rightarrow> (Inl (Runtime_error ''realloc error''), b)
             | Some new_buffer \<Rightarrow>
                 (Inr (), b\<lparr>m_buffer := Some new_buffer,
                            m_size := uadd64 (m_size b) should_add_size\<rparr>)))"

definition buffer_write :: "heap \<Rightarrow> bytes option \<Rightarrow> buffer \<Rightarrow> nat res \<times> buffer" where
  "buffer_write heap source b =
     bindS (check_init heap b) (\<lambda>_ b.
       case source of
         None \<Rightarrow> (Inl (Runtime_error ''dest == nullptr || size == 0''), b)
       | Some src \<Rightarrow>
           if src = [] then (Inl (Runtime_error ''dest == nullptr || size == 0''), b)
           else bindS (check_and_write heap src b) (\<lambda>done b.
             if done then (Inr (length src), b)
             else bindS (move_to_before heap b) (\<lambda>_ b.
               bindS (check_and_write heap src b) (\<lambda>done b.
                 if done then (Inr (length src), b)
                 else bindS (buffer_grow heap src b) (\<lambda>_ b.
                   bindS (check_and_write heap src b) (\<lambda>_ b. (Inr (length src), b)))))))"

definition can_readable_size :: "heap \<Rightarrow> buffer \<Rightarrow> nat res \<times> buffer" where
  "can_readable_size heap b =
     bindS (check_init heap b) (\<lambda>_ b. get_readable_size heap b)"

definition set_limit_max :: "nat \<Rightarrow> buffer \<Rightarrow> buffer" where
  "set_limit_max limit_max b =
     (if limit_max < m_limit_max b then b
      else b\<lparr>m_limit_max := (if limit_max < 1024 then 1024 else limit_max)\<rparr>)"

definition get_limit_max :: "buffer \<Rightarrow> nat" where
  "get_limit_max b = m_limit_max b"

definition buffer_clear :: "buffer \<Rightarrow> buffer" where
  "buffer_clear b =
     b\<lparr>m_buffer := None, m_read_ptr := 0, m_write_ptr := 0, m_size := 0, m_limit_max := 1024\<rparr>"

definition force_get_read_ptr :: "heap \<Rightarrow> buffer \<Rightarrow> bytes res \<times> buffer" where
  "force_get_read_ptr heap b =
     bindS (check_init heap b) (\<lambda>_ b. (Inr (drop (m_read_ptr b) (mem b)), b))"

definition copy_all :: "heap \<Rightarrow> bool \<Rightarrow> nat \<Rightarrow> buffer \<Rightarrow> bytes res \<times> buffer" where
  "copy_all heap out_null out_len b =
     (if out_null then (Inr [], b)
      else bindS (check_init heap b) (\<lambda>_ b.
        bindS (get_readable_size heap b) (\<lambda>all_bytes b.
          if out_len < all_bytes then (Inr [], b)
          else bindS (force_get_read_ptr heap b) (\<lambda>p b. (Inr (take all_bytes p), b)))))"

definition read_ptr_move_n :: "heap \<Rightarrow> nat \<Rightarrow> buffer \<Rightarrow> bool res \<times> buffer" where
  "read_ptr_move_n heap n b =
     (if n = 0 then (Inr True, b)
      else bindS (check_init heap b) (\<lambda>_ b.
        bindS (get_readable_size heap b) (\<lambda>all_bytes b.
          if all_bytes < n then (Inr False, b)
          else (Inr True, b\<lparr>m_read_ptr := m_read_ptr b + n\<rparr>))))"

definition blank_space :: "heap \<Rightarrow> buffer \<Rightarrow> nat res \<times> buffer" where
  "blank_space heap b =
     bindS (check_init heap b) (\<lambda>_ b.
       bindS (after_size heap b) (\<lambda>u_after_size b.
         (Inr (uadd64 u_after_size (usub64 (m_limit_max b) (m_size b))), b)))"

subsection \<open>Invariant and abstraction\<close>

definition buffer_inv :: "buffer \<Rightarrow> bool" where
  "buffer_inv b \<longleftrightarrow>
     1024 \<le> m_limit_max b \<and> m_limit_max b < object_limit \<and> m_size b \<le> m_limit_max b \<and>
     m_read_ptr b \<le> m_write_ptr b \<and> m_write_ptr b \<le> m_size b \<and> length (mem b) = m_size b \<and>
     (m_buffer b = None \<longrightarrow> m_size b = 0)"

definition content :: "buffer \<Rightarrow> bytes" where
  "content b = seg (m_read_ptr b) (m_write_ptr b) (mem b)"

definition heap_total :: "heap \<Rightarrow> bool" where
  "heap_total heap \<longleftrightarrow> (\<forall>n. \<exists>blk. heap n = Some blk \<and> length blk = n)"

definition zero_heap :: heap where
  "zero_heap n = Some (replicate n 0)"

lemma heap_total_zero_heap [simp]: "heap_total zero_heap"
  by (simp add: heap_total_def zero_heap_def)

lemma mem_simps [simp]:
  "m_buffer b = Some m \<Longrightarrow> mem b = m"
  "mem (b\<lparr>m_buffer := Some m\<rparr>) = m"
  "mem (b\<lparr>m_size := n\<rparr>) = mem b"
  "mem (b\<lparr>m_read_ptr := n\<rparr>) = mem b"
  "mem (b\<lparr>m_write_ptr := n\<rparr>) = mem b"
  "mem (b\<lparr>m_limit_max := n\<rparr>) = mem b"
  by (simp_all add: mem_def)

lemma buffer_inv_new [simp]: "buffer_inv buffer_new"
  by (simp add: buffer_inv_def buffer_new_def mem_def)

lemma content_new [simp]: "content buffer_new = []"
  by (simp add: content_def buffer_new_def)

lemma limit_new [simp]: "m_limit_max buffer_new = 1024"
  by (simp add: buffer_new_def)

lemma length_content: "buffer_inv b \<Longrightarrow> length (content b) = m_write_ptr b - m_read_ptr b"
  by (simp add: buffer_inv_def content_def)

lemma content_le_limit: "buffer_inv b \<Longrightarrow> length (content b) \<le> m_limit_max b"
  by (auto simp: length_content buffer_inv_def)

text \<open>
  After \<open>check_init\<close> the block exists. \<open>ready\<close> is the invariant of a buffer whose block
  exists; every later \<open>check_init\<close> of the same method is then a no-op.
\<close>

definition ready :: "buffer \<Rightarrow> bool" where
  "ready b \<longleftrightarrow> buffer_inv b \<and> m_buffer b \<noteq> None"

lemma ready_inv [simp, intro]: "ready b \<Longrightarrow> buffer_inv b"
  by (simp add: ready_def)

lemma check_init_ready [simp]: "ready b \<Longrightarrow> check_init heap b = (Inr (), b)"
  by (auto simp: check_init_def ready_def)

lemma check_init_total:
  assumes "heap_total heap" "buffer_inv b"
  obtains b' where "check_init heap b = (Inr (), b')" "ready b'"
    "content b' = content b" "m_limit_max b' = m_limit_max b"
proof (cases "m_buffer b")
  case None
  obtain blk where blk: "heap 1024 = Some blk" "length blk = 1024"
    using assms(1) by (auto simp: heap_total_def)
  let ?b = "b\<lparr>m_buffer := Some blk, m_size := 1024, m_read_ptr := 0, m_write_ptr := 0\<rparr>"
  have "check_init heap b = (Inr (), ?b)"
    using None blk(1) assms(2) by (simp add: check_init_def buffer_inv_def)
  moreover have "ready ?b"
    using assms(2) blk(2) by (simp add: ready_def buffer_inv_def mem_def)
  moreover have "content ?b = content b"
    using None assms(2) by (simp add: content_def buffer_inv_def seg_def)
  ultimately show ?thesis by (intro that [of ?b]) simp_all
next
  case (Some m)
  then have "ready b" using assms(2) by (simp add: ready_def)
  then show ?thesis by (intro that [of b]) simp_all
qed

lemma readable_size_ready:
  "ready b \<Longrightarrow> get_readable_size heap b = (Inr (length (content b)), b)"
  by (simp add: get_readable_size_def length_content) (simp add: ready_def buffer_inv_def)

lemma after_size_ready: "ready b \<Longrightarrow> after_size heap b = (Inr (m_size b - m_write_ptr b), b)"
  by (simp add: after_size_def) (simp add: ready_def buffer_inv_def)

lemma take_drop_content:
  "n \<le> length (content b) \<Longrightarrow> buffer_inv b \<Longrightarrow>
     take n (drop (m_read_ptr b) (mem b)) = take n (content b)"
  by (simp add: length_content) (simp add: content_def seg_def)

lemma advance_read:
  assumes "ready b" "n \<le> length (content b)"
  shows "ready (b\<lparr>m_read_ptr := m_read_ptr b + n\<rparr>)"
    and "content (b\<lparr>m_read_ptr := m_read_ptr b + n\<rparr>) = drop n (content b)"
proof -
  have "m_read_ptr b + n \<le> m_write_ptr b"
    using assms by (auto simp: length_content ready_def buffer_inv_def)
  then show "ready (b\<lparr>m_read_ptr := m_read_ptr b + n\<rparr>)"
    using assms(1) by (auto simp: ready_def buffer_inv_def)
  show "content (b\<lparr>m_read_ptr := m_read_ptr b + n\<rparr>) = drop n (content b)"
    by (simp add: content_def drop_seg)
qed

subsection \<open>The steps of a write\<close>

lemma check_and_write_fits:
  assumes "ready b" "length src \<le> m_size b - m_write_ptr b"
  obtains b' where "check_and_write heap src b = (Inr True, b')" "ready b'"
    "content b' = content b @ src" "m_limit_max b' = m_limit_max b"
proof -
  let ?b = "b\<lparr>m_buffer := Some (store_at (m_write_ptr b) src (mem b)),
              m_write_ptr := m_write_ptr b + length src\<rparr>"
  have fits: "m_write_ptr b + length src \<le> length (mem b)" "m_read_ptr b \<le> m_write_ptr b"
    using assms by (auto simp: ready_def buffer_inv_def)
  have "check_and_write heap src b = (Inr True, ?b)"
    using assms by (simp add: check_and_write_def after_size_ready)
  moreover have "ready ?b"
    using assms fits by (auto simp: ready_def buffer_inv_def)
  moreover have "content ?b = content b @ src"
    using fits by (simp add: content_def seg_store_at_snoc)
  ultimately show ?thesis by (intro that [of ?b]) simp_all
qed

lemma check_and_write_full:
  "ready b \<Longrightarrow> m_size b - m_write_ptr b < length src \<Longrightarrow>
     check_and_write heap src b = (Inr False, b)"
  by (simp add: check_and_write_def after_size_ready)

lemma move_to_before_ready:
  assumes "ready b"
  obtains b' where "move_to_before heap b = (Inr (), b')" "ready b'"
    "content b' = content b" "m_limit_max b' = m_limit_max b" "m_size b' = m_size b"
    "m_read_ptr b' = 0" "m_write_ptr b' = length (content b)"
proof -
  let ?c = "content b"
  let ?b = "b\<lparr>m_buffer := Some (store_at 0 ?c (mem b)), m_write_ptr := length ?c, m_read_ptr := 0\<rparr>"
  have len: "length ?c \<le> length (mem b)"
    using assms by (auto simp: length_content ready_def buffer_inv_def)
  have "move_to_before heap b = (Inr (), ?b)"
    using assms by (simp add: move_to_before_def readable_size_ready take_drop_content)
  moreover have "ready ?b"
    using assms len by (auto simp: ready_def buffer_inv_def)
  moreover have "content ?b = content b"
    using seg_store_at_front [OF len] by (simp add: content_def)
  ultimately show ?thesis by (intro that [of ?b]) simp_all
qed

lemma buffer_grow_eq:
  assumes b: "ready b" "m_read_ptr b = 0"
    and src: "m_size b - m_write_ptr b < length src" "length src < object_limit"
  shows "buffer_grow heap src b =
    (let n = length (content b) + length src in
     if m_limit_max b < n then (Inl (Runtime_error ''should_add_size + m_size > m_limit_max''), b)
     else (case heap (n - m_size b) of
             None \<Rightarrow> (Inl (Runtime_error ''realloc error''), b)
           | Some ext \<Rightarrow> (Inr (), b\<lparr>m_buffer := Some (mem b @ ext), m_size := n\<rparr>)))"
proof -
  let ?n = "length (content b) + length src"
  have w: "m_write_ptr b = length (content b)" "m_write_ptr b \<le> m_size b" "m_size b < ?n"
    "length (mem b) = m_size b" "length (content b) \<le> object_limit"
    using b src by (auto simp: length_content ready_def buffer_inv_def)
  let ?add = "length src - (m_size b - m_write_ptr b)"
  have add: "usub64 (length src) (m_size b - m_write_ptr b) = ?add"
      "uadd64 ?add (m_size b) = ?n" "uadd64 (m_size b) ?add = ?n"
    using w src by (simp_all add: uadd64_def)
  have realloc: "realloc heap (mem b) ?n = map_option (\<lambda>ext. mem b @ ext) (heap (?n - m_size b))"
    using w by (simp add: realloc_def)
  show ?thesis
    unfolding buffer_grow_def after_size_ready [OF b(1)] bindS.simps Let_def add realloc
    by (cases "heap (?n - m_size b)") simp_all
qed

lemma buffer_grown:
  assumes b: "ready b" "m_read_ptr b = 0"
    and n: "n = length (content b) + length src" "m_size b < n" "n \<le> m_limit_max b"
    and ext: "length ext = n - m_size b"
  shows "ready (b\<lparr>m_buffer := Some (mem b @ ext), m_size := n\<rparr>)"
    "content (b\<lparr>m_buffer := Some (mem b @ ext), m_size := n\<rparr>) = content b"
    "length src \<le> n - m_write_ptr b"
proof -
  have w: "m_write_ptr b = length (content b)" "m_write_ptr b \<le> m_size b" "length (mem b) = m_size b"
    using b by (auto simp: length_content ready_def buffer_inv_def)
  then show "ready (b\<lparr>m_buffer := Some (mem b @ ext), m_size := n\<rparr>)"
    using b n ext by (auto simp: ready_def buffer_inv_def)
  show "content (b\<lparr>m_buffer := Some (mem b @ ext), m_size := n\<rparr>) = content b"
    using w by (simp add: content_def seg_append_left)
  show "length src \<le> n - m_write_ptr b" using w n by simp
qed

lemma not_fitting_size:
  assumes "ready b" "m_read_ptr b = 0" "m_size b - m_write_ptr b < length src"
  shows "m_size b < length (content b) + length src"
  using assms by (auto simp: length_content ready_def buffer_inv_def)

lemma buffer_grow_ok:
  assumes heap: "heap_total heap" and b: "ready b" "m_read_ptr b = 0"
    and src: "m_size b - m_write_ptr b < length src" "length src < object_limit"
    and limit: "length (content b) + length src \<le> m_limit_max b"
  obtains b' where "buffer_grow heap src b = (Inr (), b')" "ready b'" "content b' = content b"
    "m_limit_max b' = m_limit_max b" "length src \<le> m_size b' - m_write_ptr b'"
proof -
  let ?n = "length (content b) + length src"
  obtain ext where ext: "heap (?n - m_size b) = Some ext" "length ext = ?n - m_size b"
    using heap by (auto simp: heap_total_def)
  note grown = buffer_grown [OF b refl not_fitting_size [OF b src(1)] limit ext(2)]
  have "buffer_grow heap src b = (Inr (), b\<lparr>m_buffer := Some (mem b @ ext), m_size := ?n\<rparr>)"
    using limit ext(1) by (simp add: buffer_grow_eq [OF b src])
  from that [OF this grown(1,2)] grown(3) show ?thesis by simp
qed

lemma buffer_grow_limit:
  assumes b: "ready b" "m_read_ptr b = 0"
    and src: "m_size b - m_write_ptr b < length src" "length src < object_limit"
    and limit: "m_limit_max b < length (content b) + length src"
  shows "buffer_grow heap src b =
           (Inl (Runtime_error ''should_add_size + m_size > m_limit_max''), b)"
  using limit by (simp add: buffer_grow_eq [OF b src])

subsection \<open>The operations on an initialised or fresh buffer\<close>

text \<open>
  The three laws below are the contract of the component: a write is accepted exactly when it fits
  under \<open>m_limit_max\<close> together with the bytes still readable, a rejected write changes no
  readable byte, and a read takes a prefix.
\<close>

lemma buffer_write_ok:
  assumes heap: "heap_total heap" and inv: "buffer_inv b" and src: "src \<noteq> []"
    and limit: "length (content b) + length src \<le> m_limit_max b"
  obtains b' where "buffer_write heap (Some src) b = (Inr (length src), b')" "buffer_inv b'"
    "content b' = content b @ src" "m_limit_max b' = m_limit_max b"
proof -
  obtain b1 where b1: "check_init heap b = (Inr (), b1)" "ready b1"
      "content b1 = content b" "m_limit_max b1 = m_limit_max b"
    using check_init_total [OF heap inv] .
  show ?thesis
  proof (cases "length src \<le> m_size b1 - m_write_ptr b1")
    case True
    then obtain b2 where "check_and_write heap src b1 = (Inr True, b2)" "ready b2"
        "content b2 = content b1 @ src" "m_limit_max b2 = m_limit_max b1"
      using check_and_write_fits [OF b1(2)] by blast
    with b1 src show ?thesis by (intro that [of b2]) (auto simp: buffer_write_def)
  next
    case F1: False
    obtain b2 where b2: "move_to_before heap b1 = (Inr (), b2)" "ready b2"
        "content b2 = content b1" "m_limit_max b2 = m_limit_max b1" "m_read_ptr b2 = 0"
      using move_to_before_ready [OF b1(2)] .
    show ?thesis
    proof (cases "length src \<le> m_size b2 - m_write_ptr b2")
      case True
      then obtain b3 where "check_and_write heap src b2 = (Inr True, b3)" "ready b3"
          "content b3 = content b2 @ src" "m_limit_max b3 = m_limit_max b2"
        using check_and_write_fits [OF b2(2)] by blast
      with b1 b2 src F1 show ?thesis
        by (intro that [of b3]) (auto simp: buffer_write_def check_and_write_full)
    next
      case F2: False
      have len: "length src < object_limit"
        using limit inv by (auto simp: buffer_inv_def)
      have "length (content b2) + length src \<le> m_limit_max b2"
        using limit b1 b2 by simp
      then obtain b3 where b3: "buffer_grow heap src b2 = (Inr (), b3)" "ready b3"
          "content b3 = content b2" "m_limit_max b3 = m_limit_max b2"
          "length src \<le> m_size b3 - m_write_ptr b3"
        using F2 len buffer_grow_ok [OF heap b2(2,5)] by (metis not_le)
      obtain b4 where "check_and_write heap src b3 = (Inr True, b4)" "ready b4"
          "content b4 = content b3 @ src" "m_limit_max b4 = m_limit_max b3"
        using check_and_write_fits [OF b3(2,5)] .
      with b1 b2 b3 src F1 F2 show ?thesis
        by (intro that [of b4]) (auto simp: buffer_write_def check_and_write_full)
    qed
  qed
qed

lemma buffer_write_rejected:
  assumes heap: "heap_total heap" and inv: "buffer_inv b" and src: "src \<noteq> []"
    and limit: "m_limit_max b < length (content b) + length src"
    and small: "length src < object_limit"
  obtains b' where
    "buffer_write heap (Some src) b =
       (Inl (Runtime_error ''should_add_size + m_size > m_limit_max''), b')"
    "buffer_inv b'" "content b' = content b" "m_limit_max b' = m_limit_max b"
proof -
  obtain b1 where b1: "check_init heap b = (Inr (), b1)" "ready b1"
      "content b1 = content b" "m_limit_max b1 = m_limit_max b"
    using check_init_total [OF heap inv] .
  obtain b2 where b2: "move_to_before heap b1 = (Inr (), b2)" "ready b2"
      "content b2 = content b1" "m_limit_max b2 = m_limit_max b1" "m_size b2 = m_size b1"
      "m_read_ptr b2 = 0" "m_write_ptr b2 = length (content b1)"
    using move_to_before_ready [OF b1(2)] .
  have full: "m_size b1 - m_write_ptr b1 < length src" "m_size b2 - m_write_ptr b2 < length src"
    using b1 b2 limit length_content [OF ready_inv [OF b1(2)]]
    by (auto simp: ready_def buffer_inv_def)
  have "buffer_grow heap src b2 =
          (Inl (Runtime_error ''should_add_size + m_size > m_limit_max''), b2)"
    using buffer_grow_limit [OF b2(2,6) full(2) small] limit b1 b2 by simp
  with b1 b2 full src show ?thesis
    by (intro that [of b2]) (auto simp: buffer_write_def check_and_write_full)
qed

lemma buffer_read_ok:
  assumes heap: "heap_total heap" and inv: "buffer_inv b" and n: "0 < n"
  obtains b' where "buffer_read heap False n b = (Inr (take n (content b)), b')" "buffer_inv b'"
    "content b' = drop n (content b)" "m_limit_max b' = m_limit_max b"
proof -
  obtain b1 where b1: "check_init heap b = (Inr (), b1)" "ready b1"
      "content b1 = content b" "m_limit_max b1 = m_limit_max b"
    using check_init_total [OF heap inv] .
  let ?k = "min n (length (content b1))"
  let ?b = "b1\<lparr>m_read_ptr := m_read_ptr b1 + ?k\<rparr>"
  have "buffer_read heap False n b = (Inr (take n (content b)), ?b)"
    using b1 n by (simp add: buffer_read_def readable_size_ready take_drop_content min_def)
  moreover have "ready ?b" "content ?b = drop n (content b)"
    using advance_read [OF b1(2), of ?k] b1 by (auto simp: min_def)
  ultimately show ?thesis using b1 by (intro that [of ?b]) auto
qed

subsection \<open>The remaining queries and updates\<close>

lemma can_readable_size_ok:
  assumes "heap_total heap" "buffer_inv b"
  obtains b' where "can_readable_size heap b = (Inr (length (content b)), b')" "buffer_inv b'"
    "content b' = content b" "m_limit_max b' = m_limit_max b"
  using check_init_total [OF assms]
  by (metis bindS.simps(2) can_readable_size_def readable_size_ready ready_inv)

lemma force_get_read_ptr_ok:
  assumes "heap_total heap" "buffer_inv b"
  obtains p b' where "force_get_read_ptr heap b = (Inr p, b')" "buffer_inv b'"
    "content b' = content b" "m_limit_max b' = m_limit_max b" "take (length (content b)) p = content b"
proof -
  obtain b1 where b1: "check_init heap b = (Inr (), b1)" "ready b1"
      "content b1 = content b" "m_limit_max b1 = m_limit_max b"
    using check_init_total [OF assms] .
  then show ?thesis
    using take_drop_content [of "length (content b)" b1]
    by (intro that [of "drop (m_read_ptr b1) (mem b1)" b1]) (auto simp: force_get_read_ptr_def)
qed

lemma read_ptr_move_n_ok:
  assumes "heap_total heap" "buffer_inv b" "n \<le> length (content b)"
  obtains b' where "read_ptr_move_n heap n b = (Inr True, b')" "buffer_inv b'"
    "content b' = drop n (content b)" "m_limit_max b' = m_limit_max b"
proof (cases "n = 0")
  case True
  then show ?thesis using assms by (intro that [of b]) (auto simp: read_ptr_move_n_def)
next
  case False
  obtain b1 where b1: "check_init heap b = (Inr (), b1)" "ready b1"
      "content b1 = content b" "m_limit_max b1 = m_limit_max b"
    using check_init_total [OF assms(1,2)] .
  with False assms(3) advance_read [OF b1(2), of n] show ?thesis
    by (intro that [of "b1\<lparr>m_read_ptr := m_read_ptr b1 + n\<rparr>"])
       (auto simp: read_ptr_move_n_def readable_size_ready)
qed

lemma read_ptr_move_n_too_far:
  assumes "heap_total heap" "buffer_inv b" "length (content b) < n"
  obtains b' where "read_ptr_move_n heap n b = (Inr False, b')" "buffer_inv b'"
    "content b' = content b" "m_limit_max b' = m_limit_max b"
proof -
  obtain b1 where b1: "check_init heap b = (Inr (), b1)" "ready b1"
      "content b1 = content b" "m_limit_max b1 = m_limit_max b"
    using check_init_total [OF assms(1,2)] .
  then show ?thesis
    using assms(3) by (intro that [of b1]) (auto simp: read_ptr_move_n_def readable_size_ready)
qed

lemma blank_space_ok:
  assumes "heap_total heap" "buffer_inv b"
  obtains k b' where "blank_space heap b = (Inr k, b')" "buffer_inv b'"
    "content b' = content b" "m_limit_max b' = m_limit_max b"
    "length (content b) + k \<le> m_limit_max b"
    "content b = [] \<Longrightarrow> m_write_ptr b' = 0 \<Longrightarrow> 0 < k"
proof -
  obtain b1 where b1: "check_init heap b = (Inr (), b1)" "ready b1"
      "content b1 = content b" "m_limit_max b1 = m_limit_max b"
    using check_init_total [OF assms] .
  have bounds: "m_limit_max b1 \<le> object_limit" "1024 \<le> m_limit_max b1" "m_size b1 \<le> m_limit_max b1"
      "m_write_ptr b1 \<le> m_size b1" "length (content b1) \<le> m_write_ptr b1"
    using b1(2) length_content [OF ready_inv [OF b1(2)]] by (auto simp: ready_def buffer_inv_def)
  let ?k = "(m_size b1 - m_write_ptr b1) + (m_limit_max b1 - m_size b1)"
  have "blank_space heap b = (Inr ?k, b1)"
    using b1 bounds by (simp add: blank_space_def after_size_ready)
  then show ?thesis
    using b1 bounds by (intro that [of ?k b1]) auto
qed

lemma set_limit_max_inv: "buffer_inv b \<Longrightarrow> n < object_limit \<Longrightarrow> buffer_inv (set_limit_max n b)"
  by (auto simp: set_limit_max_def buffer_inv_def)

lemma set_limit_max_content [simp]: "content (set_limit_max n b) = content b"
  by (simp add: set_limit_max_def content_def)

lemma buffer_clear_inv [simp]: "buffer_inv (buffer_clear b)"
  by (simp add: buffer_clear_def buffer_inv_def mem_def)

lemma buffer_clear_content [simp]: "content (buffer_clear b) = []"
  by (simp add: buffer_clear_def content_def)

subsection \<open>How far the block grows\<close>

text \<open>
  The block never shrinks, and a write makes it no larger than the first allocation or what the
  readable and the new bytes need together: the space in front of the read pointer is reused first.
\<close>

lemma check_init_size: "m_size (snd (check_init heap b)) \<le> max (m_size b) 1024"
  by (simp add: check_init_def split: option.split)

lemma buffer_read_size: "m_size (snd (buffer_read heap d n b)) \<le> max (m_size b) 1024"
  using check_init_size [of heap b]
  by (cases "check_init heap b" rule: prod.exhaust; cases "fst (check_init heap b)")
     (auto simp: buffer_read_def get_readable_size_def check_init_def Let_def split: option.splits if_splits)

lemma blank_space_eq:
  assumes "heap_total heap" "buffer_inv b"
  obtains b' where "blank_space heap b = (Inr (m_limit_max b - m_write_ptr b'), b')" "ready b'"
    "content b' = content b" "m_limit_max b' = m_limit_max b" "m_size b' \<le> max (m_size b) 1024"
proof -
  obtain b1 where b1: "check_init heap b = (Inr (), b1)" "ready b1"
      "content b1 = content b" "m_limit_max b1 = m_limit_max b"
    using check_init_total [OF assms] .
  have "m_write_ptr b1 \<le> m_size b1" "m_size b1 \<le> m_limit_max b1" "m_limit_max b1 < object_limit"
    using b1(2) by (auto simp: ready_def buffer_inv_def)
  then have "blank_space heap b = (Inr (m_limit_max b - m_write_ptr b1), b1)"
    using b1 by (simp add: blank_space_def after_size_ready)
  then show ?thesis
    using that b1 check_init_size [of heap b] by simp
qed

lemma check_and_write_size: "ready b \<Longrightarrow> m_size (snd (check_and_write heap src b)) = m_size b"
  by (simp add: check_and_write_def after_size_ready)

lemma buffer_grow_size:
  assumes b: "ready b" "m_read_ptr b = 0"
    and src: "m_size b - m_write_ptr b < length src" "length src < object_limit"
  shows "m_size (snd (buffer_grow heap src b)) \<le> max (m_size b) (length (content b) + length src)"
  by (simp add: buffer_grow_eq [OF b src] Let_def split: option.split)

lemma buffer_write_size:
  assumes heap: "heap_total heap" and inv: "buffer_inv b" and src: "length src < object_limit"
  shows "m_size (snd (buffer_write heap (Some src) b)) \<le> max (max (m_size b) 1024) (length (content b) + length src)"
proof -
  obtain b1 where b1: "check_init heap b = (Inr (), b1)" "ready b1" "content b1 = content b"
    using check_init_total [OF heap inv] by metis
  have s1: "m_size b1 \<le> max (m_size b) 1024" using check_init_size [of heap b] b1(1) by simp
  obtain b2 where b2: "move_to_before heap b1 = (Inr (), b2)" "ready b2" "content b2 = content b1"
      "m_size b2 = m_size b1" "m_read_ptr b2 = 0"
    using move_to_before_ready [OF b1(2)] by metis
  show ?thesis
  proof (cases "length src \<le> m_size b1 - m_write_ptr b1 \<or> length src \<le> m_size b2 - m_write_ptr b2")
    case True
    then show ?thesis
      using b1 b2 s1 check_and_write_size [OF b1(2), of heap src] check_and_write_size [OF b2(2), of heap src]
      by (cases "check_and_write heap src b1"; cases "fst (check_and_write heap src b1)";
          cases "check_and_write heap src b2"; cases "fst (check_and_write heap src b2)")
         (auto simp: buffer_write_def check_and_write_def after_size_ready split: if_splits)
  next
    case False
    then have full: "m_size b1 - m_write_ptr b1 < length src" "m_size b2 - m_write_ptr b2 < length src" by auto
    obtain r b3 where b3: "buffer_grow heap src b2 = (r, b3)" by fastforce
    have s3: "m_size b3 \<le> max (m_size b2) (length (content b2) + length src)"
      using buffer_grow_size [OF b2(2,5) full(2) src, of heap] b3 by simp
    have "ready b3"
      using buffer_grow_ok [OF heap b2(2,5) full(2) src] buffer_grow_limit [OF b2(2,5) full(2) src, of heap] b2(2) b3
      by (metis not_le prod.inject)
    then obtain d b4 where b4: "check_and_write heap src b3 = (Inr d, b4)" "m_size b4 = m_size b3"
      using check_and_write_size [of b3 heap src] unfolding check_and_write_def
      by (cases "length src \<le> m_size b3 - m_write_ptr b3") (simp_all add: after_size_ready)
    have "snd (buffer_write heap (Some src) b) \<in> {b1, b3, b4}"
      using b1(1) b2(1) b3 b4(1) check_and_write_full [OF b1(2) full(1), of heap]
        check_and_write_full [OF b2(2) full(2), of heap]
      by (cases r) (simp_all add: buffer_write_def)
    then show ?thesis
      using s1 s3 b4(2) b2(3,4) b1(3) by auto
  qed
qed

subsection \<open>The contract of a bounded byte FIFO\<close>

text \<open>
  What the connections rely on, as an interface: a queue of bytes with a capacity, whose \<open>put\<close>
  appends all of its argument or nothing and whose \<open>get\<close> removes a prefix.
\<close>

locale byte_fifo =
  fixes cont :: "'q \<Rightarrow> bytes" and capacity :: "'q \<Rightarrow> nat" and invar :: "'q \<Rightarrow> bool"
    and put :: "bytes \<Rightarrow> 'q \<Rightarrow> nat res \<times> 'q" and get :: "nat \<Rightarrow> 'q \<Rightarrow> bytes res \<times> 'q"
  assumes put_ok: "invar q \<Longrightarrow> src \<noteq> [] \<Longrightarrow> length (cont q) + length src \<le> capacity q \<Longrightarrow>
      \<exists>q'. put src q = (Inr (length src), q') \<and> invar q' \<and> cont q' = cont q @ src \<and>
           capacity q' = capacity q"
    and put_full: "invar q \<Longrightarrow> src \<noteq> [] \<Longrightarrow> length src < object_limit \<Longrightarrow>
      capacity q < length (cont q) + length src \<Longrightarrow>
      \<exists>e q'. put src q = (Inl e, q') \<and> invar q' \<and> cont q' = cont q \<and> capacity q' = capacity q"
    and get_ok: "invar q \<Longrightarrow> 0 < n \<Longrightarrow>
      \<exists>q'. get n q = (Inr (take n (cont q)), q') \<and> invar q' \<and> cont q' = drop n (cont q) \<and>
           capacity q' = capacity q"

text \<open>
  A run of puts and gets, with the bytes of the accepted puts and the bytes the gets delivered.
\<close>

datatype fifo_op = Put bytes | Get nat

fun fifo_run :: "(bytes \<Rightarrow> 'q \<Rightarrow> nat res \<times> 'q) \<Rightarrow> (nat \<Rightarrow> 'q \<Rightarrow> bytes res \<times> 'q) \<Rightarrow>
    fifo_op list \<Rightarrow> 'q \<Rightarrow> bytes \<times> bytes \<times> 'q" where
  "fifo_run put get [] q = ([], [], q)"
| "fifo_run put get (Put src # ops) q =
     (case put src q of
        (Inl e, q') \<Rightarrow> fifo_run put get ops q'
      | (Inr n, q') \<Rightarrow> (case fifo_run put get ops q' of (ins, outs, r) \<Rightarrow> (src @ ins, outs, r)))"
| "fifo_run put get (Get n # ops) q =
     (case get n q of
        (Inl e, q') \<Rightarrow> fifo_run put get ops q'
      | (Inr bs, q') \<Rightarrow> (case fifo_run put get ops q' of (ins, outs, r) \<Rightarrow> (ins, bs @ outs, r)))"

fun fifo_op_ok :: "fifo_op \<Rightarrow> bool" where
  "fifo_op_ok (Put src) \<longleftrightarrow> src \<noteq> [] \<and> length src < object_limit"
| "fifo_op_ok (Get n) \<longleftrightarrow> 0 < n"

context byte_fifo
begin

lemma put_cases:
  assumes "invar q" "src \<noteq> []" "length src < object_limit"
  obtains (accepted) q' where "put src q = (Inr (length src), q')" "invar q'"
      "cont q' = cont q @ src" "capacity q' = capacity q"
    | (rejected) e q' where "put src q = (Inl e, q')" "invar q'" "cont q' = cont q"
      "capacity q' = capacity q"
  using put_ok [OF assms(1,2)] put_full [OF assms] by (meson not_le)

lemma run_conserves:
  assumes "invar q" "list_all fifo_op_ok ops" "fifo_run put get ops q = (ins, outs, q')"
  shows "outs @ cont q' = cont q @ ins \<and> invar q' \<and> capacity q' = capacity q"
  using assms
proof (induction ops arbitrary: q ins outs q')
  case Nil
  then show ?case by simp
next
  case (Cons op ops)
  show ?case
  proof (cases op)
    case (Put src)
    with Cons.prems have ok: "src \<noteq> []" "length src < object_limit" by auto
    from put_cases [OF Cons.prems(1) ok] show ?thesis
      by cases (use Cons Put in \<open>fastforce split: prod.splits\<close>)+
  next
    case (Get n)
    with Cons.prems obtain q1 where q1: "get n q = (Inr (take n (cont q)), q1)" "invar q1"
        "cont q1 = drop n (cont q)" "capacity q1 = capacity q"
      using get_ok [OF Cons.prems(1), of n] by auto
    obtain outs1 where "fifo_run put get ops q1 = (ins, outs1, q')" "outs = take n (cont q) @ outs1"
      using Cons.prems(3) Get q1 by (auto split: prod.splits)
    moreover from this Cons.IH [OF q1(2), of ins outs1 q'] Cons.prems(2)
    have "outs1 @ cont q' = cont q1 @ ins" "invar q'" "capacity q' = capacity q1"
      by auto
    ultimately show ?thesis
      using q1 by (metis append.assoc append_take_drop_id)
  qed
qed

end

text \<open>The buffer over any total allocator meets the contract, hence over the one used below.\<close>

locale total_heap =
  fixes heap :: heap
  assumes total: "heap_total heap"

sublocale total_heap \<subseteq> byte_fifo content m_limit_max buffer_inv
  "\<lambda>src. buffer_write heap (Some src)" "buffer_read heap False"
proof (unfold_locales, goal_cases)
  case (1 q src)
  then show ?case using buffer_write_ok [OF total] by metis
next
  case (2 q src)
  then show ?case using buffer_write_rejected [OF total] by metis
next
  case (3 q n)
  then show ?case using buffer_read_ok [OF total] by metis
qed

context total_heap
begin

lemmas buffer_run_conserves = run_conserves

end

interpretation zbuf: total_heap zero_heap
  by unfold_locales simp

subsection \<open>Properties\<close>

text \<open>C5: for every sequence of writes and reads on a well-formed buffer, the bytes handed to the
  readers followed by the bytes still readable are exactly the bytes readable at the start followed
  by the bytes of the accepted writes, in order: no byte is lost, duplicated or reordered, and a
  write that throws contributes none of its bytes.\<close>

theorem buffer_fifo:
  assumes "heap_total heap" "buffer_inv b" "list_all fifo_op_ok ops"
    and "fifo_run (\<lambda>src. buffer_write heap (Some src)) (buffer_read heap False) ops b = (ins, outs, b')"
  shows "outs @ content b' = content b @ ins"
proof -
  have "total_heap heap" using assms(1) by (simp add: total_heap_def)
  from total_heap.buffer_run_conserves [OF this assms(2-4)] show ?thesis by blast
qed

theorem buffer_fifo_witness:
  "\<exists>b'. fifo_run (\<lambda>src. buffer_write zero_heap (Some src)) (buffer_read zero_heap False)
            [Put [1, 2, 3], Get 2, Put [4]] buffer_new = ([1, 2, 3, 4], [1, 2], b') \<and>
         [1, 2] @ content b' = content buffer_new @ [1, 2, 3, 4]"
proof -
  obtain b1 where b1: "buffer_write zero_heap (Some [1, 2, 3]) buffer_new = (Inr 3, b1)"
      "buffer_inv b1" "content b1 = [1, 2, 3]" "m_limit_max b1 = 1024"
    using zbuf.put_ok [of buffer_new "[1, 2, 3]"] by (auto simp: numeral_3_eq_3)
  obtain b2 where b2: "buffer_read zero_heap False 2 b1 = (Inr [1, 2], b2)"
      "buffer_inv b2" "content b2 = [3]" "m_limit_max b2 = 1024"
    using zbuf.get_ok [OF b1(2), of 2] b1 by auto
  obtain b3 where b3: "buffer_write zero_heap (Some [4]) b2 = (Inr 1, b3)"
    using zbuf.put_ok [OF b2(2), of "[4]"] b2 by auto
  have "fifo_run (\<lambda>src. buffer_write zero_heap (Some src)) (buffer_read zero_heap False)
          [Put [1, 2, 3], Get 2, Put [4]] buffer_new = ([1, 2, 3, 4], [1, 2], b3)"
    using b1 b2 b3 by simp
  from this buffer_fifo [OF _ _ _ this] show ?thesis
    by (intro exI [of _ b3]) simp
qed

text \<open>C19: a write of a non-empty range returns normally exactly when the bytes still readable and
  the new bytes together fit under the limit, and then appends the whole range; otherwise it throws
  and the readable bytes, the limit and the invariant are unchanged (the compaction that a rejected
  write performs is not visible).\<close>

theorem buffer_write_exact_capacity:
  assumes "heap_total heap" "buffer_inv b" "src \<noteq> []" "length src < object_limit"
  shows "case buffer_write heap (Some src) b of
           (Inr n, b') \<Rightarrow> n = length src \<and> content b' = content b @ src \<and>
              length (content b) + length src \<le> m_limit_max b \<and> buffer_inv b'
         | (Inl e, b') \<Rightarrow> content b' = content b \<and> m_limit_max b' = m_limit_max b \<and>
              m_limit_max b < length (content b) + length src \<and> buffer_inv b'"
proof (cases "length (content b) + length src \<le> m_limit_max b")
  case True
  show ?thesis by (rule buffer_write_ok [OF assms(1-3) True]) (use True in auto)
next
  case False
  then have "m_limit_max b < length (content b) + length src" by simp
  from this show ?thesis
    by (rule buffer_write_rejected [OF assms(1-3) _ assms(4)]) (use False in auto)
qed

theorem buffer_write_exact_capacity_witness:
  "case buffer_write zero_heap (Some [7]) buffer_new of
     (Inr n, b') \<Rightarrow> n = length [7 :: byte] \<and> content b' = content buffer_new @ [7] \<and>
        length (content buffer_new) + length [7 :: byte] \<le> m_limit_max buffer_new \<and> buffer_inv b'
   | (Inl e, b') \<Rightarrow> content b' = content buffer_new \<and> m_limit_max b' = m_limit_max buffer_new \<and>
        m_limit_max buffer_new < length (content buffer_new) + length [7 :: byte] \<and> buffer_inv b'"
  by (rule buffer_write_exact_capacity) simp_all

text \<open>
  The invariant holds after every method, also when an allocation fails in the middle of one.
\<close>

datatype buffer_op =
    Op_read bool nat
  | Op_write "bytes option"
  | Op_can_readable
  | Op_copy_all bool nat
  | Op_move_n nat
  | Op_force_ptr
  | Op_blank_space
  | Op_set_limit nat
  | Op_clear

fun buffer_exec :: "heap \<Rightarrow> buffer_op \<Rightarrow> buffer \<Rightarrow> buffer" where
  "buffer_exec heap (Op_read d n) b = snd (buffer_read heap d n b)"
| "buffer_exec heap (Op_write src) b = snd (buffer_write heap src b)"
| "buffer_exec heap Op_can_readable b = snd (can_readable_size heap b)"
| "buffer_exec heap (Op_copy_all o' n) b = snd (copy_all heap o' n b)"
| "buffer_exec heap (Op_move_n n) b = snd (read_ptr_move_n heap n b)"
| "buffer_exec heap Op_force_ptr b = snd (force_get_read_ptr heap b)"
| "buffer_exec heap Op_blank_space b = snd (blank_space heap b)"
| "buffer_exec heap (Op_set_limit n) b = set_limit_max n b"
| "buffer_exec heap Op_clear b = buffer_clear b"

fun buffer_op_ok :: "buffer_op \<Rightarrow> bool" where
  "buffer_op_ok (Op_write (Some src)) \<longleftrightarrow> length src < object_limit"
| "buffer_op_ok (Op_set_limit n) \<longleftrightarrow> n < object_limit"
| "buffer_op_ok _ \<longleftrightarrow> True"

definition heap_ok :: "heap \<Rightarrow> bool" where
  "heap_ok heap \<longleftrightarrow> (\<forall>n blk. heap n = Some blk \<longrightarrow> length blk = n)"

lemma check_init_cases:
  assumes "heap_ok heap" "buffer_inv b"
  obtains (failed) e where "check_init heap b = (Inl e, b)"
    | (ok) b' where "check_init heap b = (Inr (), b')" "ready b'"
proof (cases "m_buffer b = None \<and> heap 1024 = None")
  case True
  then show ?thesis
    using assms by (intro failed) (auto simp: check_init_def buffer_inv_def mem_def)
next
  case False
  then show ?thesis
    using assms
    by (intro ok [of "snd (check_init heap b)"])
       (auto simp: check_init_def ready_def buffer_inv_def heap_ok_def mem_def split: option.splits)
qed

lemma buffer_grow_cases:
  assumes heap: "heap_ok heap" and b: "ready b" "m_read_ptr b = 0"
    and src: "m_size b - m_write_ptr b < length src" "length src < object_limit"
  obtains (failed) e where "buffer_grow heap src b = (Inl e, b)"
    | (ok) b' where "buffer_grow heap src b = (Inr (), b')" "ready b'"
        "length src \<le> m_size b' - m_write_ptr b'"
proof -
  let ?n = "length (content b) + length src"
  consider "m_limit_max b < ?n" | "\<not> m_limit_max b < ?n" "heap (?n - m_size b) = None"
    | ext where "?n \<le> m_limit_max b" "heap (?n - m_size b) = Some ext" "length ext = ?n - m_size b"
    using heap by (meson heap_ok_def not_le option.exhaust)
  then show ?thesis
  proof cases
    case 3
    from buffer_grown [OF b refl not_fitting_size [OF b src(1)] 3(1,3)] 3 show ?thesis
      by (intro ok) (auto simp: buffer_grow_eq [OF b src])
  qed (auto intro: failed simp: buffer_grow_eq [OF b src])
qed

lemma check_and_write_result:
  assumes "ready b"
  obtains (written) b' where "check_and_write heap src b = (Inr True, b')" "ready b'"
    | (full) "check_and_write heap src b = (Inr False, b)" "m_size b - m_write_ptr b < length src"
  using check_and_write_fits [OF assms] check_and_write_full [OF assms] by (metis not_le)

lemma buffer_write_inv:
  assumes heap: "heap_ok heap" and inv: "buffer_inv b"
    and small: "\<And>src. source = Some src \<Longrightarrow> length src < object_limit"
  shows "buffer_inv (snd (buffer_write heap source b))"
proof (rule check_init_cases [OF heap inv])
  fix e assume "check_init heap b = (Inl e, b)"
  then show ?thesis using inv by (simp add: buffer_write_def)
next
  fix b1 assume b1: "check_init heap b = (Inr (), b1)" "ready b1"
  show ?thesis
  proof (cases "\<exists>src. source = Some src \<and> src \<noteq> []")
    case False
    then show ?thesis using b1 by (auto simp: buffer_write_def split: option.split)
  next
    case True
    then obtain src where src: "source = Some src" "src \<noteq> []" "length src < object_limit"
      using small by auto
    obtain b2 where b2: "move_to_before heap b1 = (Inr (), b2)" "ready b2" "m_read_ptr b2 = 0"
      using move_to_before_ready [OF b1(2)] .
    have final: "ready b3 \<Longrightarrow> ready (snd (bindS (check_and_write heap src b3) (\<lambda>_ b. (Inr (length src), b))))"
      for b3 by (rule check_and_write_result [of b3 heap src]) auto
    have grow: "m_size b2 - m_write_ptr b2 < length src \<Longrightarrow>
        ready (snd (bindS (buffer_grow heap src b2) (\<lambda>_ b.
          bindS (check_and_write heap src b) (\<lambda>_ b. (Inr (length src), b)))))"
      by (rule buffer_grow_cases [OF heap b2(2,3) _ src(3)]) (use b2 final in auto)
    show ?thesis
      by (rule check_and_write_result [OF b1(2), of heap src];
          rule check_and_write_result [OF b2(2), of heap src])
         (use b1 b2 src grow in \<open>auto simp: buffer_write_def\<close>)
  qed
qed

lemma ready_bind_inv:
  assumes "heap_ok heap" "buffer_inv b" "\<And>b1. ready b1 \<Longrightarrow> buffer_inv (snd (f () b1))"
  shows "buffer_inv (snd (bindS (check_init heap b) f))"
  by (rule check_init_cases [OF assms(1,2)]) (use assms in auto)

lemma buffer_exec_inv:
  assumes "heap_ok heap" "buffer_inv b" "buffer_op_ok oper"
  shows "buffer_inv (buffer_exec heap oper b)"
proof (cases oper)
  case (Op_write source)
  with assms show ?thesis by (cases source) (auto intro: buffer_write_inv)
next
  case (Op_read d n)
  with assms advance_read show ?thesis
    by (auto simp: buffer_read_def readable_size_ready intro!: ready_bind_inv)
next
  case (Op_move_n n)
  with assms advance_read show ?thesis
    by (auto simp: read_ptr_move_n_def readable_size_ready intro!: ready_bind_inv)
next
  case (Op_copy_all d n)
  with assms show ?thesis
    by (auto simp: copy_all_def readable_size_ready force_get_read_ptr_def intro!: ready_bind_inv)
next
  case (Op_set_limit n)
  with assms show ?thesis by (auto intro: set_limit_max_inv)
qed (use assms in \<open>auto simp: can_readable_size_def readable_size_ready force_get_read_ptr_def
       blank_space_def after_size_ready intro!: ready_bind_inv\<close>)

text \<open>C14: whatever sequence of methods is called on a new buffer, with whatever arguments and
  whatever allocations fail on the way, the read offset never passes the write offset, the write
  offset never passes the size of the block, the block has exactly that size, and the size never
  passes the limit: every \<open>memcpy\<close> stays inside the block and no size subtraction underflows.\<close>

theorem buffer_methods_keep_bounds:
  assumes "heap_ok heap" "list_all buffer_op_ok ops"
  shows "buffer_inv (fold (buffer_exec heap) ops buffer_new)"
proof -
  have "buffer_inv b \<Longrightarrow> buffer_inv (fold (buffer_exec heap) ops b)" for b
    using assms by (induction ops arbitrary: b) (auto intro: buffer_exec_inv)
  then show ?thesis by simp
qed

theorem buffer_methods_keep_bounds_witness:
  "buffer_inv (fold (buffer_exec zero_heap)
     [Op_write (Some [1, 2, 3]), Op_read False 2, Op_set_limit 4096, Op_write None, Op_blank_space]
     buffer_new)"
  by (rule buffer_methods_keep_bounds) (auto simp: heap_ok_def zero_heap_def)

text \<open>What \<open>blank_space\<close> reports can be written: after it returned \<open>k\<close>, a write of at
  most \<open>k\<close> bytes is accepted.\<close>

lemma blank_space_is_writable:
  assumes "heap_total heap" "buffer_inv b" "blank_space heap b = (Inr k, b')"
    and "src \<noteq> []" "length src \<le> k"
  shows "\<exists>b''. buffer_write heap (Some src) b' = (Inr (length src), b'') \<and>
               content b'' = content b @ src"
proof -
  from assms(3) have b': "buffer_inv b'" "content b' = content b" "m_limit_max b' = m_limit_max b"
      "length (content b) + k \<le> m_limit_max b"
    using blank_space_ok [OF assms(1,2)] by auto
  from this assms(5) have "length (content b') + length src \<le> m_limit_max b'" by simp
  from buffer_write_ok [OF assms(1) b'(1) assms(4) this] show ?thesis
    using b'(2) by metis
qed

end
