(* ===== verification/Tk_Pool.thy ===== *)
theory Tk_Pool
  imports Tk_Prelude
begin

section \<open>The object pool (src/utility/object_pool.h)\<close>

text \<open>
  \<open>object_pool<T>\<close> owns one block of \<open>max_size\<close> objects and the set of pointers to the
  free ones. A pointer is its index in the block. Two things the C++ library leaves open are
  parameters: which element \<open>begin()\<close> of the unordered set yields, and whether
  \<open>malloc\<close> and the placement \<open>new\<close> return a pointer. \<open>m_mutex\<close> makes a method one
  step; an \<open>allocate\<close> on an empty blocking pool yields \<open>Waiting\<close>: the caller sleeps on
  the condition variable and tries again after the next \<open>release\<close>.
\<close>

record pool =
  m_set :: "nat set"
  m_objects :: bool
  m_block :: bool
  m_max_size :: nat

definition pool_new :: pool where
  "pool_new = \<lparr>m_set = {}, m_objects = False, m_block = True, m_max_size = 0\<rparr>"

fun pool_init_loop :: "(nat \<Rightarrow> bool) \<Rightarrow> nat \<Rightarrow> nat \<Rightarrow> pool \<Rightarrow> bool \<times> pool" where
  "pool_init_loop ctor i 0 p = (True, p)"
| "pool_init_loop ctor i (Suc k) p =
     (if ctor i
      then pool_init_loop ctor (Suc i) k
             (p\<lparr>m_max_size := Suc (m_max_size p), m_set := insert i (m_set p)\<rparr>)
      else (False, p))"

definition pool_init :: "bool \<Rightarrow> (nat \<Rightarrow> bool) \<Rightarrow> nat \<Rightarrow> bool \<Rightarrow> pool \<Rightarrow> int \<times> pool" where
  "pool_init malloc_ok ctor max_size block p =
     (let p = p\<lparr>m_objects := malloc_ok\<rparr> in
      if \<not> malloc_ok then (-1, p)
      else (case pool_init_loop ctor 0 max_size (p\<lparr>m_max_size := 0\<rparr>) of
              (False, p) \<Rightarrow> (-2, p)
            | (True, p) \<Rightarrow> (0, p\<lparr>m_block := block\<rparr>)))"

datatype alloc = Allocated nat | Null | Waiting

definition pool_allocate :: "(nat set \<Rightarrow> nat) \<Rightarrow> pool \<Rightarrow> alloc \<times> pool" where
  "pool_allocate set_begin p =
     (if m_set p = {} then (if m_block p then (Waiting, p) else (Null, p))
      else (let t = set_begin (m_set p) in (Allocated t, p\<lparr>m_set := m_set p - {t}\<rparr>)))"

definition pool_release :: "nat option \<Rightarrow> pool \<Rightarrow> pool" where
  "pool_release t p = (case t of None \<Rightarrow> p | Some t \<Rightarrow> p\<lparr>m_set := insert t (m_set p)\<rparr>)"

definition pool_space :: "pool \<Rightarrow> nat" where
  "pool_space p = card (m_set p) mod 4294967296"

text \<open>What the code relies on of \<open>unordered_set::begin\<close>: it is an element of the set.\<close>

definition begin_ok :: "(nat set \<Rightarrow> nat) \<Rightarrow> bool" where
  "begin_ok set_begin \<longleftrightarrow> (\<forall>S. finite S \<longrightarrow> S \<noteq> {} \<longrightarrow> set_begin S \<in> S)"

lemma begin_ok_Min: "begin_ok Min"
  by (simp add: begin_ok_def)

lemma pool_init_loop_ok:
  "(\<And>j. ctor j) \<Longrightarrow>
     pool_init_loop ctor i k p =
       (True, p\<lparr>m_max_size := m_max_size p + k, m_set := m_set p \<union> {i..<i + k}\<rparr>)"
proof (induction k arbitrary: i p)
  case 0
  then show ?case by simp
next
  case (Suc k)
  have "insert i (m_set p) \<union> {Suc i..<Suc i + k} = m_set p \<union> {i..<i + Suc k}"
    by auto
  then show ?case using Suc by (simp del: Un_insert_left)
qed

lemma pool_init_ok:
  "pool_init True (\<lambda>_. True) n block pool_new =
     (0, \<lparr>m_set = {0..<n}, m_objects = True, m_block = block, m_max_size = n\<rparr>)"
  by (simp add: pool_init_def pool_init_loop_ok pool_new_def)

subsection \<open>The contract of a pool of slots\<close>

text \<open>
  The managers of connections, tasks and sockets use a pool through these laws: an allocation hands
  out a free slot and makes it busy, it fails only when no slot is free, and a release makes the
  slot free.
\<close>

locale slot_pool =
  fixes free :: "'p \<Rightarrow> nat set" and alloc :: "'p \<Rightarrow> alloc \<times> 'p" and rel :: "nat \<Rightarrow> 'p \<Rightarrow> 'p"
  assumes alloc_ptr: "finite (free p) \<Longrightarrow> alloc p = (Allocated t, p') \<Longrightarrow>
      t \<in> free p \<and> free p' = free p - {t}"
    and alloc_fail: "alloc p = (r, p') \<Longrightarrow> (\<And>t. r \<noteq> Allocated t) \<Longrightarrow> p' = p \<and> free p = {}"
    and rel_free: "free (rel t p) = insert t (free p)"

text \<open>
  A run of a pool with its clients: \<open>busy\<close> is the set of slots handed out and not yet returned.
  Releasing a slot that is not busy is not a run.
\<close>

datatype pool_event = Alloc | Release nat

fun pool_run :: "('p \<Rightarrow> alloc \<times> 'p) \<Rightarrow> (nat \<Rightarrow> 'p \<Rightarrow> 'p) \<Rightarrow> pool_event list \<Rightarrow> 'p \<times> nat set \<Rightarrow>
    ('p \<times> nat set) option" where
  "pool_run alloc rel [] (p, busy) = Some (p, busy)"
| "pool_run alloc rel (Alloc # es) (p, busy) =
     (case alloc p of
        (Allocated t, p') \<Rightarrow> pool_run alloc rel es (p', insert t busy)
      | (_, p') \<Rightarrow> pool_run alloc rel es (p', busy))"
| "pool_run alloc rel (Release t # es) (p, busy) =
     (if t \<in> busy then pool_run alloc rel es (rel t p, busy - {t}) else None)"

context slot_pool
begin

lemma run_partition:
  assumes "pool_run alloc rel es (p, busy) = Some (p', busy')"
    and "finite (free p \<union> busy)" "free p \<inter> busy = {}"
  shows "free p' \<union> busy' = free p \<union> busy \<and> free p' \<inter> busy' = {}"
  using assms
proof (induction es arbitrary: p busy)
  case Nil
  then show ?case by simp
next
  case (Cons e es)
  show ?case
  proof (cases e)
    case Alloc
    obtain r q where r: "alloc p = (r, q)" by fastforce
    show ?thesis
    proof (cases r)
      case (Allocated t)
      with r have t: "t \<in> free p" "free q = free p - {t}"
        using alloc_ptr [of p t q] Cons.prems(2) by auto
      have run: "pool_run alloc rel es (q, insert t busy) = Some (p', busy')"
        using Cons.prems(1) Alloc Allocated r by simp
      have "free p' \<union> busy' = free q \<union> insert t busy \<and> free p' \<inter> busy' = {}"
        using Cons.IH [OF run] Cons.prems(2,3) t by auto
      with t show ?thesis by auto
    next
      case Null
      with Cons Alloc r show ?thesis using alloc_fail [OF r] by simp
    next
      case Waiting
      with Cons Alloc r show ?thesis using alloc_fail [OF r] by simp
    qed
  next
    case (Release t)
    with Cons.prems(1) have t: "t \<in> busy"
      and run: "pool_run alloc rel es (rel t p, busy - {t}) = Some (p', busy')"
      by (auto split: if_splits)
    have "free p' \<union> busy' = free (rel t p) \<union> (busy - {t}) \<and> free p' \<inter> busy' = {}"
      using Cons.IH [OF run] Cons.prems(2,3) t by (auto simp: rel_free)
    with t show ?thesis by (auto simp: rel_free)
  qed
qed

end

text \<open>The pool with any admissible \<open>begin\<close> meets the contract.\<close>

locale set_begin_order =
  fixes set_begin :: "nat set \<Rightarrow> nat"
  assumes begin_elem: "begin_ok set_begin"

sublocale set_begin_order \<subseteq> slot_pool m_set "pool_allocate set_begin" "\<lambda>t. pool_release (Some t)"
  using begin_elem
  by unfold_locales
     (auto simp: pool_allocate_def pool_release_def begin_ok_def Let_def split: if_splits)

context set_begin_order
begin

lemmas pool_partition = run_partition

end

interpretation minpool: set_begin_order Min
  by unfold_locales (rule begin_ok_Min)

subsection \<open>Properties\<close>

text \<open>C11: after \<open>init(n)\<close> and any run of allocations and returns of allocated objects, every
  object is either free or handed out and never both, and no object is lost: so \<open>allocate\<close>
  never hands out an object that some client still uses, and it fails (or waits) only when all
  \<open>n\<close> objects are in use.\<close>

theorem pool_exclusive:
  assumes "begin_ok set_begin"
    and "pool_run (pool_allocate set_begin) (\<lambda>t. pool_release (Some t)) es
           (snd (pool_init True (\<lambda>_. True) n block pool_new), {}) = Some (p, busy)"
  shows "m_set p \<union> busy = {0..<n} \<and> m_set p \<inter> busy = {} \<and>
         (case pool_allocate set_begin p of
            (Allocated t, _) \<Rightarrow> t < n \<and> t \<notin> busy
          | (Null, _) \<Rightarrow> busy = {0..<n} \<and> \<not> m_block p
          | (Waiting, _) \<Rightarrow> busy = {0..<n} \<and> m_block p)"
proof -
  have "set_begin_order set_begin" using assms(1) by (simp add: set_begin_order_def)
  from set_begin_order.pool_partition [OF this assms(2)]
  have part: "m_set p \<union> busy = {0..<n}" "m_set p \<inter> busy = {}"
    by (auto simp: pool_init_ok)
  then have "finite (m_set p)" by (metis finite_Un finite_atLeastLessThan)
  then have "m_set p \<noteq> {} \<Longrightarrow> set_begin (m_set p) \<in> m_set p"
    using assms(1) by (simp add: begin_ok_def)
  moreover have "\<And>x. x \<in> m_set p \<Longrightarrow> x < n"
    using part(1) by (metis UnI1 atLeastLessThan_iff)
  ultimately show ?thesis
    using part by (auto simp: pool_allocate_def Let_def)
qed

theorem pool_exclusive_witness:
  "\<exists>p. pool_run (pool_allocate Min) (\<lambda>t. pool_release (Some t)) [Alloc, Alloc, Release 0]
         (snd (pool_init True (\<lambda>_. True) 2 False pool_new), {}) = Some (p, {1}) \<and>
       m_set p \<union> {1} = {0..<2} \<and> m_set p \<inter> {1} = {}"
proof -
  have set: "{0..<2::nat} = {0, 1}" by auto
  have run: "pool_run (pool_allocate Min) (\<lambda>t. pool_release (Some t)) [Alloc, Alloc, Release 0]
          (snd (pool_init True (\<lambda>_. True) 2 False pool_new), {}) =
        Some (\<lparr>m_set = {0}, m_objects = True, m_block = False, m_max_size = 2\<rparr>, {1})"
    by (auto simp: pool_init_ok set pool_allocate_def pool_release_def Let_def)
  from run pool_exclusive [OF begin_ok_Min run] show ?thesis by blast
qed

end
