(* ===== verification/Tk_Thread.thy ===== *)
theory Tk_Thread
  imports Tk_Prelude
begin

section \<open>Tasks, task queues, workers and the worker pool (src/thread)\<close>

text \<open>
  A task is a pooled object; the queue looks at its address and at the \<open>gid\<close> of the connection
  it serves. \<open>task_queue\<close>, \<open>worker\<close> and \<open>worker_pool\<close> are modelled method by
  method. The mutex of a queue makes \<open>push\<close> and \<open>pop\<close> single steps; \<open>pop\<close> on an
  empty queue yields \<open>None\<close>, the thread sleeping on the condition variable. Destroying a task
  (\<open>task_destory::execute\<close>) is an effect on the task pool, so the worker operations report
  the tasks they destroy.

  The last part puts the workers side by side and proves what the rest of the server relies on: at
  any time at most one worker runs a task of a given connection.
\<close>

record task =
  t_ptr :: nat
  m_gid :: nat

definition task_compare :: "task \<Rightarrow> task option \<Rightarrow> bool" where
  "task_compare this other =
     (case other of
        None \<Rightarrow> False
      | Some t \<Rightarrow> if t_ptr this = t_ptr t then True else m_gid this = m_gid t)"

record task_queue =
  m_task :: "task option list"
  m_in_task :: "nat set"

definition task_queue_new :: task_queue where
  "task_queue_new = \<lparr>m_task = [], m_in_task = {}\<rparr>"

definition task_queue_push :: "task option \<Rightarrow> task_queue \<Rightarrow> bool \<times> task_queue" where
  "task_queue_push task_ptr q =
     (case task_ptr of
        None \<Rightarrow> (True, q\<lparr>m_task := m_task q @ [None]\<rparr>)
      | Some t \<Rightarrow>
          if m_gid t \<in> m_in_task q then (False, q)
          else (True, q\<lparr>m_task := m_task q @ [Some t], m_in_task := insert (m_gid t) (m_in_task q)\<rparr>))"

definition task_queue_pop :: "task_queue \<Rightarrow> (task option \<times> task_queue) option" where
  "task_queue_pop q =
     (case m_task q of
        [] \<Rightarrow> None
      | task_ptr # rest \<Rightarrow>
          let q = q\<lparr>m_task := rest\<rparr> in
          (case task_ptr of
             None \<Rightarrow> Some (None, q)
           | Some t \<Rightarrow> Some (Some t, q\<lparr>m_in_task := m_in_task q - {m_gid t}\<rparr>)))"

record worker =
  w_queue :: task_queue
  stop_flag :: bool
  m_stoped :: bool

definition worker_new :: worker where
  "worker_new = \<lparr>w_queue = task_queue_new, stop_flag = False, m_stoped = True\<rparr>"

definition worker_push :: "task option \<Rightarrow> worker \<Rightarrow> task list \<times> worker" where
  "worker_push task_ptr w =
     (if stop_flag w then (case task_ptr of None \<Rightarrow> [] | Some t \<Rightarrow> [t], w)
      else (case task_queue_push task_ptr (w_queue w) of
              (b_res, q) \<Rightarrow>
                (if b_res then [] else (case task_ptr of None \<Rightarrow> [] | Some t \<Rightarrow> [t]),
                 w\<lparr>w_queue := q\<rparr>)))"

text \<open>
  \<open>stop\<close> pushes the null task and raises the flag; it then waits for \<open>m_stoped\<close>, which
  the thread of the worker sets.
\<close>

definition worker_stop :: "worker \<Rightarrow> worker" where
  "worker_stop w = (snd (worker_push None w))\<lparr>stop_flag := True\<rparr>"

text \<open>
  \<open>run\<close>: the prologue, then one iteration of its loop. An iteration sleeps on an empty queue,
  leaves the loop on the null task or the stop flag, or runs the task and destroys it.
\<close>

definition worker_run_begin :: "worker \<Rightarrow> worker" where
  "worker_run_begin w = w\<lparr>m_stoped := False\<rparr>"

datatype iteration = Sleeps | Leaves | Runs task

definition worker_iteration :: "worker \<Rightarrow> iteration \<times> worker" where
  "worker_iteration w =
     (case task_queue_pop (w_queue w) of
        None \<Rightarrow> (Sleeps, w)
      | Some (will_run_task, q) \<Rightarrow>
          let w = w\<lparr>w_queue := q\<rparr> in
          (case will_run_task of
             None \<Rightarrow> (Leaves, w\<lparr>m_stoped := True\<rparr>)
           | Some t \<Rightarrow> if stop_flag w then (Leaves, w\<lparr>m_stoped := True\<rparr>) else (Runs t, w)))"

text \<open>
  The pool keeps its workers under the keys \<open>0, \<dots>, size - 1\<close>. An \<open>assign\<close> to a pool
  with no worker divides by zero: \<open>None\<close>.
\<close>

definition worker_pool_create :: "nat \<Rightarrow> worker list" where
  "worker_pool_create n = replicate n (worker_run_begin worker_new)"

definition worker_pool_get_size :: "worker list \<Rightarrow> nat" where
  "worker_pool_get_size ws = length ws"

definition worker_pool_assign :: "task option \<Rightarrow> nat \<Rightarrow> worker list \<Rightarrow> (task list \<times> worker list) option" where
  "worker_pool_assign task_ptr hash_key ws =
     (if ws = [] then None
      else (let k = hash_key mod length ws in
            case worker_push task_ptr (ws ! k) of (destroyed, w) \<Rightarrow> Some (destroyed, ws[k := w])))"

definition worker_pool_stop :: "worker list \<Rightarrow> worker list" where
  "worker_pool_stop ws = map worker_stop ws"

subsection \<open>The queue holds at most one task per connection\<close>

definition pending :: "task_queue \<Rightarrow> task list" where
  "pending q = somes (m_task q)"

definition task_queue_inv :: "task_queue \<Rightarrow> bool" where
  "task_queue_inv q \<longleftrightarrow>
     m_in_task q = m_gid ` set (pending q) \<and> distinct (map m_gid (pending q))"

lemma task_queue_inv_new [simp]: "task_queue_inv task_queue_new"
  by (simp add: task_queue_inv_def task_queue_new_def pending_def)

lemma task_queue_push_pending:
  "pending (snd (task_queue_push task_ptr q)) =
     (case task_ptr of None \<Rightarrow> pending q
      | Some t \<Rightarrow> if m_gid t \<in> m_in_task q then pending q else pending q @ [t])"
  by (auto simp: task_queue_push_def pending_def split: option.split)

lemma task_queue_push_inv:
  "task_queue_inv q \<Longrightarrow> task_queue_inv (snd (task_queue_push task_ptr q))"
  by (auto simp: task_queue_push_def task_queue_inv_def pending_def split: option.split)

lemma task_queue_pop_Some:
  assumes "task_queue_pop q = Some (task_ptr, q')"
  shows "pending q = (case task_ptr of None \<Rightarrow> pending q' | Some t \<Rightarrow> t # pending q')"
    and "task_queue_inv q \<Longrightarrow> task_queue_inv q'"
  using assms
  by (auto simp: task_queue_pop_def task_queue_inv_def pending_def Let_def
        split: list.splits option.splits)

subsection \<open>The workers side by side\<close>

text \<open>
  The state of the thread pool: the workers and, for each, the task its thread is running. A step is
  a submission by any thread, a thread taking its next task, a thread finishing its task, a thread
  leaving its loop, or the shutdown. Which one happens is up to the scheduler.
\<close>

record threads =
  th_workers :: "worker list"
  th_running :: "nat \<Rightarrow> task option"

definition threads_init :: "nat \<Rightarrow> threads" where
  "threads_init n = \<lparr>th_workers = worker_pool_create n, th_running = (\<lambda>_. None)\<rparr>"

inductive thread_step :: "threads \<Rightarrow> threads \<Rightarrow> bool" where
  submit: "worker_pool_assign (Some t) (m_gid t) (th_workers s) = Some (destroyed, ws) \<Longrightarrow>
     thread_step s (s\<lparr>th_workers := ws\<rparr>)"
| start: "i < length (th_workers s) \<Longrightarrow> th_running s i = None \<Longrightarrow> \<not> m_stoped (th_workers s ! i) \<Longrightarrow>
     worker_iteration (th_workers s ! i) = (Runs t, w) \<Longrightarrow>
     thread_step s (s\<lparr>th_workers := (th_workers s)[i := w], th_running := (th_running s)(i \<mapsto> t)\<rparr>)"
| finish: "th_running s i = Some t \<Longrightarrow>
     thread_step s (s\<lparr>th_running := (th_running s)(i := None)\<rparr>)"
| leave: "i < length (th_workers s) \<Longrightarrow> th_running s i = None \<Longrightarrow> \<not> m_stoped (th_workers s ! i) \<Longrightarrow>
     worker_iteration (th_workers s ! i) = (Leaves, w) \<Longrightarrow>
     thread_step s (s\<lparr>th_workers := (th_workers s)[i := w]\<rparr>)"
| shutdown: "thread_step s (s\<lparr>th_workers := worker_pool_stop (th_workers s)\<rparr>)"

inductive_cases thread_stepE: "thread_step s s'"

inductive threads_reachable :: "nat \<Rightarrow> threads \<Rightarrow> bool" for n where
  init: "threads_reachable n (threads_init n)"
| step: "threads_reachable n s \<Longrightarrow> thread_step s s' \<Longrightarrow> threads_reachable n s'"

definition worker_inv :: "nat \<Rightarrow> nat \<Rightarrow> worker \<Rightarrow> bool" where
  "worker_inv n i w \<longleftrightarrow>
     task_queue_inv (w_queue w) \<and> (\<forall>t \<in> set (pending (w_queue w)). m_gid t mod n = i)"

definition threads_inv :: "nat \<Rightarrow> threads \<Rightarrow> bool" where
  "threads_inv n s \<longleftrightarrow>
     length (th_workers s) = n \<and> (\<forall>i < n. worker_inv n i (th_workers s ! i)) \<and>
     (\<forall>i t. th_running s i = Some t \<longrightarrow> i < n \<and> m_gid t mod n = i)"

lemma worker_push_queue:
  "w_queue (snd (worker_push task_ptr w)) =
     (if stop_flag w then w_queue w else snd (task_queue_push task_ptr (w_queue w)))"
  by (simp add: worker_push_def split: prod.split)

lemma worker_push_inv:
  assumes "worker_inv n i w" "\<And>t. task_ptr = Some t \<Longrightarrow> m_gid t mod n = i"
  shows "worker_inv n i (snd (worker_push task_ptr w))"
  using assms
  by (auto simp: worker_inv_def worker_push_queue task_queue_push_inv task_queue_push_pending
        split: option.splits if_splits)

lemma worker_stop_inv: "worker_inv n i w \<Longrightarrow> worker_inv n i (worker_stop w)"
  using worker_push_inv [of n i w None] by (simp add: worker_stop_def worker_inv_def)

lemma worker_iteration_inv:
  assumes "worker_inv n i w" "worker_iteration w = (r, w')"
  shows "worker_inv n i w'" and "r = Runs t \<Longrightarrow> m_gid t mod n = i"
proof -
  consider "r = Sleeps" "w' = w"
    | task_ptr q where "task_queue_pop (w_queue w) = Some (task_ptr, q)" "w_queue w' = q"
        "r = Runs t \<Longrightarrow> task_ptr = Some t"
    using assms(2)
    by (auto simp: worker_iteration_def Let_def split: option.splits if_splits)
  then have "worker_inv n i w' \<and> (r = Runs t \<longrightarrow> m_gid t mod n = i)"
  proof cases
    case 2
    from task_queue_pop_Some [OF 2(1)] assms(1) 2(2,3) show ?thesis
      by (auto simp: worker_inv_def split: option.splits)
  qed (use assms in auto)
  then show "worker_inv n i w'" and "r = Runs t \<Longrightarrow> m_gid t mod n = i" by auto
qed

lemma threads_inv_init: "threads_inv n (threads_init n)"
  by (simp add: threads_inv_def threads_init_def worker_pool_create_def worker_inv_def
        worker_run_begin_def worker_new_def) (simp add: task_queue_new_def pending_def)

lemma threads_inv_update:
  assumes "threads_inv n s" "worker_inv n i w"
  shows "threads_inv n (s\<lparr>th_workers := (th_workers s)[i := w]\<rparr>)"
proof -
  have "worker_inv n j ((th_workers s)[i := w] ! j)" if "j < n" for j
    using assms that by (cases "i = j") (auto simp: threads_inv_def)
  then show ?thesis using assms(1) by (simp add: threads_inv_def)
qed

lemma thread_step_inv:
  assumes "thread_step s s'" "threads_inv n s"
  shows "threads_inv n s'"
  using assms
proof cases
  case (submit t destroyed ws)
  let ?k = "m_gid t mod length (th_workers s)"
  have n: "length (th_workers s) = n" "n \<noteq> 0"
    using assms(2) submit(2) by (auto simp: threads_inv_def worker_pool_assign_def split: if_splits)
  have "ws = (th_workers s)[?k := snd (worker_push (Some t) (th_workers s ! ?k))]"
    using submit(2) n by (auto simp: worker_pool_assign_def Let_def split: prod.splits if_splits)
  moreover have "worker_inv n ?k (snd (worker_push (Some t) (th_workers s ! ?k)))"
    using assms(2) n by (intro worker_push_inv) (auto simp: threads_inv_def)
  ultimately show ?thesis
    using submit(1) threads_inv_update [OF assms(2)] by simp
next
  case (start i t w)
  have w: "worker_inv n i w" "m_gid t mod n = i" "i < n"
    using worker_iteration_inv [OF _ start(5)] assms(2) start(2) by (auto simp: threads_inv_def)
  show ?thesis
    using threads_inv_update [OF assms(2) w(1)] w start(1) by (auto simp: threads_inv_def)
next
  case (finish i t)
  then show ?thesis using assms(2) by (auto simp: threads_inv_def)
next
  case (leave i w)
  have "worker_inv n i w"
    using worker_iteration_inv(1) [OF _ leave(5)] assms(2) leave(2) by (auto simp: threads_inv_def)
  then show ?thesis using threads_inv_update [OF assms(2)] leave(1) by simp
next
  case shutdown
  then show ?thesis
    using assms(2) by (auto simp: threads_inv_def worker_pool_stop_def intro: worker_stop_inv)
qed

lemma threads_reachable_inv: "threads_reachable n s \<Longrightarrow> threads_inv n s"
  by (induction rule: threads_reachable.induct) (auto intro: threads_inv_init thread_step_inv)

subsection \<open>Properties\<close>

text \<open>C6: in every state the thread pool can reach, whatever the scheduling, two workers never run
  tasks of the same connection, and at most one task per connection waits in all queues together:
  the handlers of one connection are never executed concurrently.\<close>

theorem one_worker_per_connection:
  assumes "threads_reachable n s"
  shows "(\<forall>i j t u. th_running s i = Some t \<and> th_running s j = Some u \<and> m_gid t = m_gid u \<longrightarrow> i = j) \<and>
         (\<forall>i j t u. i < n \<and> j < n \<and> t \<in> set (pending (w_queue (th_workers s ! i))) \<and>
            u \<in> set (pending (w_queue (th_workers s ! j))) \<and> m_gid t = m_gid u \<longrightarrow> i = j) \<and>
         (\<forall>i < n. distinct (map m_gid (pending (w_queue (th_workers s ! i)))))"
proof -
  have "threads_inv n s" using assms by (rule threads_reachable_inv)
  then show ?thesis
    by (simp add: threads_inv_def worker_inv_def task_queue_inv_def) metis
qed

lemma worker_pool_assign_Some:
  "ws \<noteq> [] \<Longrightarrow> \<exists>destroyed. worker_pool_assign task_ptr k ws =
     Some (destroyed, snd (the (worker_pool_assign task_ptr k ws)))"
  by (simp add: worker_pool_assign_def Let_def split: prod.split)

definition demo_threads :: threads where
  "demo_threads =
     (threads_init 2)\<lparr>th_workers := snd (the (worker_pool_assign
        (Some \<lparr>t_ptr = 0, m_gid = 5\<rparr>) 5 (th_workers (threads_init 2))))\<rparr>"

theorem one_worker_per_connection_witness:
  "threads_reachable 2 demo_threads \<and>
   pending (w_queue (th_workers demo_threads ! 1)) = [\<lparr>t_ptr = 0, m_gid = 5\<rparr>] \<and>
   distinct (map m_gid (pending (w_queue (th_workers demo_threads ! 1))))"
proof -
  have "th_workers (threads_init 2) \<noteq> []"
    by (simp add: threads_init_def worker_pool_create_def)
  then have "thread_step (threads_init 2) demo_threads"
    unfolding demo_threads_def
    using worker_pool_assign_Some thread_step.submit [where t = "\<lparr>t_ptr = 0, m_gid = 5\<rparr>"]
    by fastforce
  then have r: "threads_reachable 2 demo_threads"
    by (rule threads_reachable.step [OF threads_reachable.init])
  have "pending (w_queue (th_workers demo_threads ! 1)) = [\<lparr>t_ptr = 0, m_gid = 5\<rparr>]"
    by code_simp
  with r one_worker_per_connection [OF r] show ?thesis by simp
qed

text \<open>No wake-up is lost and none is duplicated: after a task for a connection is assigned to a
  pool that is not stopping, exactly one task of that connection is waiting at its worker, whether
  the new one or, if the new one was destroyed as a duplicate, one that was already waiting.\<close>

lemma assign_leaves_one_pending:
  assumes "threads_reachable n s" "0 < n" "\<not> stop_flag (th_workers s ! (m_gid t mod n))"
    and "worker_pool_assign (Some t) (m_gid t) (th_workers s) = Some (destroyed, ws)"
  shows "(\<exists>!u. u \<in> set (pending (w_queue (ws ! (m_gid t mod n)))) \<and> m_gid u = m_gid t) \<and>
         destroyed = (if \<exists>u \<in> set (pending (w_queue (th_workers s ! (m_gid t mod n)))). m_gid u = m_gid t
                      then [t] else [])"
proof -
  let ?k = "m_gid t mod n" and ?w = "th_workers s ! (m_gid t mod n)"
  have inv: "threads_inv n s" using assms(1) by (rule threads_reachable_inv)
  then have len: "length (th_workers s) = n" and q: "task_queue_inv (w_queue ?w)"
    using assms(2) by (auto simp: threads_inv_def worker_inv_def)
  have q': "task_queue_inv (snd (task_queue_push (Some t) (w_queue ?w)))"
    using q by (rule task_queue_push_inv)
  have ws: "ws ! ?k = ?w\<lparr>w_queue := snd (task_queue_push (Some t) (w_queue ?w))\<rparr>"
      "destroyed = (if fst (task_queue_push (Some t) (w_queue ?w)) then [] else [t])"
    using assms(2-4) len
    by (auto simp: worker_pool_assign_def worker_push_def Let_def split: prod.splits if_splits)
  have "\<exists>u \<in> set (pending (w_queue (ws ! ?k))). m_gid u = m_gid t"
    using q ws(1) by (auto simp: task_queue_push_pending task_queue_inv_def)
  moreover have "inj_on m_gid (set (pending (w_queue (ws ! ?k))))"
    using q' ws(1) by (simp add: task_queue_inv_def distinct_map)
  ultimately have "\<exists>!u. u \<in> set (pending (w_queue (ws ! ?k))) \<and> m_gid u = m_gid t"
    by (metis inj_onD)
  moreover have "fst (task_queue_push (Some t) (w_queue ?w)) \<longleftrightarrow>
      \<not> (\<exists>u \<in> set (pending (w_queue ?w)). m_gid u = m_gid t)"
    using q by (auto simp: task_queue_push_def task_queue_inv_def) (metis imageI)
  ultimately show ?thesis using ws(2) by auto
qed

text \<open>Once the pool is stopping, no worker starts another task, and a worker that was not
  stopping before leaves its loop at its next iteration, so the wait in \<open>stop\<close> ends.\<close>

lemma stop_ends_the_loop:
  "(case worker_iteration (worker_stop w) of
      (Runs t, _) \<Rightarrow> False
    | (Leaves, w') \<Rightarrow> m_stoped w'
    | (Sleeps, _) \<Rightarrow> stop_flag w)"
  by (auto simp: worker_iteration_def worker_stop_def worker_push_def task_queue_push_def
        task_queue_pop_def Let_def split: option.split list.split)

end
