(* ===== verification/Tk_Base64.thy ===== *)
theory Tk_Base64
  imports Tk_Prelude
begin

unbundle bit_operations_syntax

section \<open>Base64 (src/utility/base64.cpp)\<close>

text \<open>
  Encoding and decoding as the WebSocket handshake uses them. Binary data is a list of bytes, the
  encoded text a \<open>string\<close>. An \<open>unsigned char\<close> promotes to a non-negative \<open>int\<close>
  before the bit operations of the source, so they are written on \<open>nat\<close>; the cast back to
  \<open>char\<close> is \<open>of_nat\<close>. The loops advance \<open>pos\<close> by three bytes or four
  characters: the recursive argument is the part of the input from \<open>pos\<close> on. The decoder
  throws \<open>std::runtime_error\<close> on a foreign character and, through \<open>at\<close>,
  \<open>std::out_of_range\<close> on a chunk of one character. The encoder counts with a 32-bit
  \<open>pos\<close>, which wraps around (and the loop runs forever) on inputs of \<open>2 ^ 32\<close> bytes or
  more: the properties below are stated for inputs under that size, which is where the recursion is
  the loop.
\<close>

definition base64_chars :: "bool \<Rightarrow> string" where
  "base64_chars url =
     ''ABCDEFGHIJKLMNOPQRSTUVWXYZ'' @ ''abcdefghijklmnopqrstuvwxyz'' @ ''0123456789'' @
     (if url then ''-_'' else ''+/'')"

definition pos_of_char :: "char \<Rightarrow> nat res" where
  "pos_of_char chr =
     (let c = (of_char chr :: nat) in
      if of_char (CHR ''A'') \<le> c \<and> c \<le> of_char (CHR ''Z'') then Inr (c - of_char (CHR ''A''))
      else if of_char (CHR ''a'') \<le> c \<and> c \<le> of_char (CHR ''z'')
        then Inr (c - of_char (CHR ''a'') + (of_char (CHR ''Z'') - of_char (CHR ''A'')) + 1)
      else if of_char (CHR ''0'') \<le> c \<and> c \<le> of_char (CHR ''9'')
        then Inr (c - of_char (CHR ''0'') + (of_char (CHR ''Z'') - of_char (CHR ''A'')) +
                  (of_char (CHR ''z'') - of_char (CHR ''a'')) + 2)
      else if chr = CHR ''+'' \<or> chr = CHR ''-'' then Inr 62
      else if chr = CHR ''/'' \<or> chr = CHR ''_'' then Inr 63
      else Inl (Runtime_error ''Input is not valid base64-encoded data.''))"

fun base64_encode_loop :: "bool \<Rightarrow> nat list \<Rightarrow> string" where
  "base64_encode_loop url [] = []"
| "base64_encode_loop url [b0] =
     [base64_chars url ! drop_bit 2 (b0 AND 0xfc),
      base64_chars url ! push_bit 4 (b0 AND 0x03),
      (if url then CHR ''.'' else CHR ''=''), (if url then CHR ''.'' else CHR ''='')]"
| "base64_encode_loop url [b0, b1] =
     [base64_chars url ! drop_bit 2 (b0 AND 0xfc),
      base64_chars url ! (push_bit 4 (b0 AND 0x03) + drop_bit 4 (b1 AND 0xf0)),
      base64_chars url ! push_bit 2 (b1 AND 0x0f),
      (if url then CHR ''.'' else CHR ''='')]"
| "base64_encode_loop url (b0 # b1 # b2 # rest) =
     [base64_chars url ! drop_bit 2 (b0 AND 0xfc),
      base64_chars url ! (push_bit 4 (b0 AND 0x03) + drop_bit 4 (b1 AND 0xf0)),
      base64_chars url ! (push_bit 2 (b1 AND 0x0f) + drop_bit 6 (b2 AND 0xc0)),
      base64_chars url ! (b2 AND 0x3f)] @ base64_encode_loop url rest"

definition base64_encode :: "bytes \<Rightarrow> bool \<Rightarrow> string" where
  "base64_encode bs url = base64_encode_loop url (map unat bs)"

definition is_padding :: "char \<Rightarrow> bool" where
  "is_padding c \<longleftrightarrow> c = CHR ''='' \<or> c = CHR ''.''"

text \<open>One iteration of the decoding loop: the bytes it emits for the chunk at \<open>pos\<close>.\<close>

definition decode_chunk :: "char \<Rightarrow> char \<Rightarrow> string \<Rightarrow> bytes res" where
  "decode_chunk c0 c1 rest =
     (case pos_of_char c1 of Inl e \<Rightarrow> Inl e | Inr p1 \<Rightarrow>
      case pos_of_char c0 of Inl e \<Rightarrow> Inl e | Inr p0 \<Rightarrow>
      let out1 = of_nat (push_bit 2 p0 + drop_bit 4 (p1 AND 0x30)) in
      case rest of
        [] \<Rightarrow> Inr [out1]
      | c2 # rest' \<Rightarrow>
          if is_padding c2 then Inr [out1]
          else (case pos_of_char c2 of Inl e \<Rightarrow> Inl e | Inr p2 \<Rightarrow>
            let out2 = of_nat (push_bit 4 (p1 AND 0x0f) + drop_bit 2 (p2 AND 0x3c)) in
            case rest' of
              [] \<Rightarrow> Inr [out1, out2]
            | c3 # _ \<Rightarrow>
                if is_padding c3 then Inr [out1, out2]
                else (case pos_of_char c3 of Inl e \<Rightarrow> Inl e | Inr p3 \<Rightarrow>
                  Inr [out1, out2, of_nat (push_bit 6 (p2 AND 0x03) + p3)])))"

fun decode_loop :: "string \<Rightarrow> bytes res" where
  "decode_loop [] = Inr []"
| "decode_loop [c0] = Inl Out_of_range"
| "decode_loop (c0 # c1 # rest) =
     (case decode_chunk c0 c1 rest of Inl e \<Rightarrow> Inl e | Inr out \<Rightarrow>
      case decode_loop (drop 2 rest) of Inl e \<Rightarrow> Inl e | Inr more \<Rightarrow> Inr (out @ more))"

definition base64_decode :: "string \<Rightarrow> bool \<Rightarrow> bytes res" where
  "base64_decode s remove_linebreaks =
     (if s = [] then Inr []
      else if remove_linebreaks then decode_loop (filter (\<lambda>c. c \<noteq> CHR 0x0A) s)
      else decode_loop s)"

text \<open>
  \<open>insert_linebreaks\<close> inserts while \<open>pos < str.size()\<close>. It does not return for a distance
  of 0, so its result is an option; the callers use the distances 64 and 76.
\<close>

partial_function (option) insert_linebreaks_loop :: "nat \<Rightarrow> string \<Rightarrow> nat \<Rightarrow> string option" where
  "insert_linebreaks_loop distance str pos =
     (if pos < length str
      then insert_linebreaks_loop distance (take pos str @ [CHR 0x0A] @ drop pos str) (pos + (distance + 1))
      else Some str)"

definition insert_linebreaks :: "string \<Rightarrow> nat \<Rightarrow> string option" where
  "insert_linebreaks str distance =
     (if length str = 0 then Some [] else insert_linebreaks_loop distance str distance)"

definition base64_encode_pem :: "bytes \<Rightarrow> string option" where
  "base64_encode_pem bs = insert_linebreaks (base64_encode bs False) 64"

definition base64_encode_mime :: "bytes \<Rightarrow> string option" where
  "base64_encode_mime bs = insert_linebreaks (base64_encode bs False) 76"

subsection \<open>The bit operations as division and remainder\<close>

lemma and_low_mask: "(b :: nat) AND (2 ^ n - 1) = b mod 2 ^ n"
  by (simp add: take_bit_eq_mask take_bit_eq_mod mask_eq_exp_minus_1 flip: take_bit_eq_mod)

lemma drop_and_mask:
  fixes b :: nat
  assumes "drop_bit k m = 2 ^ n - 1" "b < 2 ^ (n + k)"
  shows "drop_bit k (b AND m) = b div 2 ^ k"
proof -
  have "b div 2 ^ k < 2 ^ n"
    using assms(2) by (simp add: less_mult_imp_div_less power_add)
  then have "drop_bit k b AND drop_bit k m = b div 2 ^ k"
    unfolding assms(1) and_low_mask by (simp add: drop_bit_eq_div)
  then show ?thesis unfolding drop_bit_and .
qed

lemma byte_splits:
  fixes b :: nat
  assumes "b < 256"
  shows "drop_bit 2 (b AND 0xfc) = b div 4" "b AND 0x03 = b mod 4"
    "drop_bit 4 (b AND 0xf0) = b div 16" "b AND 0x0f = b mod 16"
    "drop_bit 6 (b AND 0xc0) = b div 64" "b AND 0x3f = b mod 64"
  using assms drop_and_mask [of 2 "0xfc" 6 b] drop_and_mask [of 4 "0xf0" 4 b]
    drop_and_mask [of 6 "0xc0" 2 b] and_low_mask [of b 2] and_low_mask [of b 4] and_low_mask [of b 6]
  by (simp_all add: drop_bit_eq_div)

lemma sextet_splits:
  fixes p :: nat
  assumes "p < 64"
  shows "drop_bit 4 (p AND 0x30) = p div 16" "p AND 0x0f = p mod 16"
    "drop_bit 2 (p AND 0x3c) = p div 4" "p AND 0x03 = p mod 4"
  using assms drop_and_mask [of 4 "0x30" 2 p] drop_and_mask [of 2 "0x3c" 4 p]
    and_low_mask [of p 2] and_low_mask [of p 4]
  by (simp_all add: drop_bit_eq_div)

subsection \<open>The alphabets\<close>

lemma alphabet_positions: "map pos_of_char (base64_chars url) = map Inr [0..<64]"
  by (cases url) (simp_all add: base64_chars_def pos_of_char_def upt_rec)

lemma alphabet_no_padding: "list_all (\<lambda>c. \<not> is_padding c \<and> c \<noteq> CHR 0x0A) (base64_chars url)"
  by (cases url) (simp_all add: base64_chars_def is_padding_def)

lemma alphabet_inverse:
  assumes "i < 64"
  shows "pos_of_char (base64_chars url ! i) = Inr i" "\<not> is_padding (base64_chars url ! i)"
    "base64_chars url ! i \<noteq> CHR 0x0A"
proof -
  have len: "i < length (base64_chars url)"
    using assms by (simp add: base64_chars_def)
  then have "pos_of_char (base64_chars url ! i) = map pos_of_char (base64_chars url) ! i" by simp
  also have "\<dots> = Inr i" using assms unfolding alphabet_positions by simp
  finally show "pos_of_char (base64_chars url ! i) = Inr i" .
  show "\<not> is_padding (base64_chars url ! i)" "base64_chars url ! i \<noteq> CHR 0x0A"
    using alphabet_no_padding [of url] len by (simp_all add: list_all_length)
qed

subsection \<open>Round trip\<close>

lemma encode_loop_eqs:
  assumes "b0 < 256" "b1 < 256" "b2 < 256"
  shows "base64_encode_loop url [b0] =
      [base64_chars url ! (b0 div 4), base64_chars url ! (b0 mod 4 * 16),
       (if url then CHR ''.'' else CHR ''=''), (if url then CHR ''.'' else CHR ''='')]"
    "base64_encode_loop url [b0, b1] =
      [base64_chars url ! (b0 div 4), base64_chars url ! (b0 mod 4 * 16 + b1 div 16),
       base64_chars url ! (b1 mod 16 * 4), (if url then CHR ''.'' else CHR ''='')]"
    "base64_encode_loop url (b0 # b1 # b2 # rest) =
      [base64_chars url ! (b0 div 4), base64_chars url ! (b0 mod 4 * 16 + b1 div 16),
       base64_chars url ! (b1 mod 16 * 4 + b2 div 64), base64_chars url ! (b2 mod 64)] @
      base64_encode_loop url rest"
  unfolding base64_encode_loop.simps byte_splits [OF assms(1)] byte_splits [OF assms(2)]
    byte_splits [OF assms(3)] push_bit_eq_mult
  by simp_all

lemma decode_chunk_eqs:
  assumes "p0 < 64" "p1 < 64" "p2 < 64" "p3 < 64" "is_padding pad"
  shows "decode_chunk (base64_chars url ! p0) (base64_chars url ! p1) (pad # rest) =
      Inr [of_nat (p0 * 4 + p1 div 16)]"
    "decode_chunk (base64_chars url ! p0) (base64_chars url ! p1) (base64_chars url ! p2 # pad # rest) =
      Inr [of_nat (p0 * 4 + p1 div 16), of_nat (p1 mod 16 * 16 + p2 div 4)]"
    "decode_chunk (base64_chars url ! p0) (base64_chars url ! p1)
        (base64_chars url ! p2 # base64_chars url ! p3 # rest) =
      Inr [of_nat (p0 * 4 + p1 div 16), of_nat (p1 mod 16 * 16 + p2 div 4), of_nat (p2 mod 4 * 64 + p3)]"
  by (simp_all only: decode_chunk_def sum.case list.case Let_def if_True if_False assms(5)
        alphabet_inverse(1) [OF assms(1)] alphabet_inverse(1) [OF assms(2)]
        alphabet_inverse(1,2) [OF assms(3)] alphabet_inverse(1,2) [OF assms(4)]
        sextet_splits [OF assms(2)] sextet_splits [OF assms(3)] push_bit_eq_mult power2_eq_square)
     simp_all

lemma encode_loop_no_newline:
  "list_all (\<lambda>b. b < 256) bs \<Longrightarrow> CHR 0x0A \<notin> set (base64_encode_loop url bs)"
proof (induction url bs rule: base64_encode_loop.induct)
  case (1 url)
  then show ?case by simp
next
  case (2 url b0)
  then have b: "b0 < 256" and p: "b0 div 4 < 64" "b0 mod 4 * 16 < 64" by auto
  show ?case
    unfolding encode_loop_eqs(1) [OF b b b]
    using alphabet_inverse(3) [OF p(1), of url] alphabet_inverse(3) [OF p(2), of url] by auto
next
  case (3 url b0 b1)
  then have b: "b0 < 256" "b1 < 256"
    and p: "b0 div 4 < 64" "b0 mod 4 * 16 + b1 div 16 < 64" "b1 mod 16 * 4 < 64" by auto
  show ?case
    unfolding encode_loop_eqs(2) [OF b b(1)]
    using alphabet_inverse(3) [OF p(1), of url] alphabet_inverse(3) [OF p(2), of url]
      alphabet_inverse(3) [OF p(3), of url] by auto
next
  case (4 url b0 b1 b2 rest)
  then have b: "b0 < 256" "b1 < 256" "b2 < 256" and p: "b0 div 4 < 64"
    "b0 mod 4 * 16 + b1 div 16 < 64" "b1 mod 16 * 4 + b2 div 64 < 64" "b2 mod 64 < 64"
    and IH: "CHR 0x0A \<notin> set (base64_encode_loop url rest)" by auto
  show ?case
    unfolding encode_loop_eqs(3) [OF b]
    using IH alphabet_inverse(3) [OF p(1), of url] alphabet_inverse(3) [OF p(2), of url]
      alphabet_inverse(3) [OF p(3), of url] alphabet_inverse(3) [OF p(4), of url] by auto
qed

lemma padding [simp]: "is_padding (CHR ''='')" "is_padding (CHR ''.'')"
  by (simp_all add: is_padding_def)

lemma byte_arith:
  fixes a b c :: nat
  assumes "a < 256" "b < 256" "c < 256"
  shows "a div 4 * 4 + (a mod 4 * 16) div 16 = a"
    "a div 4 * 4 + (a mod 4 * 16 + b div 16) div 16 = a"
    "(a mod 4 * 16 + b div 16) mod 16 * 16 + (b mod 16 * 4) div 4 = b"
    "(a mod 4 * 16 + b div 16) mod 16 * 16 + (b mod 16 * 4 + c div 64) div 4 = b"
    "(b mod 16 * 4 + c div 64) mod 4 * 64 + c mod 64 = c"
proof -
  have "b div 16 < 16" "c div 64 < 4" using assms by auto
  then show "a div 4 * 4 + (a mod 4 * 16) div 16 = a"
    "a div 4 * 4 + (a mod 4 * 16 + b div 16) div 16 = a"
    "(a mod 4 * 16 + b div 16) mod 16 * 16 + (b mod 16 * 4) div 4 = b"
    "(a mod 4 * 16 + b div 16) mod 16 * 16 + (b mod 16 * 4 + c div 64) div 4 = b"
    "(b mod 16 * 4 + c div 64) mod 4 * 64 + c mod 64 = c"
    by simp_all
qed

lemma decode_encode_loop:
  "list_all (\<lambda>b. b < 256) bs \<Longrightarrow> decode_loop (base64_encode_loop url bs) = Inr (map of_nat bs)"
proof (induction url bs rule: base64_encode_loop.induct)
  case (1 url)
  then show ?case by simp
next
  case (2 url b0)
  then have b: "b0 < 256" "b0 div 4 < 64" "b0 mod 4 * 16 < 64" by auto
  let ?pad = "if url then CHR ''.'' else CHR ''=''"
  have "decode_chunk (base64_chars url ! (b0 div 4)) (base64_chars url ! (b0 mod 4 * 16)) [?pad, ?pad] =
      Inr [of_nat b0]"
    using decode_chunk_eqs(1) [OF b(2,3), of 0 0 ?pad url "[?pad]"] byte_arith(1) [OF b(1)] by auto
  then show ?case
    unfolding encode_loop_eqs(1) [OF b(1) b(1) b(1)] by simp
next
  case (3 url b0 b1)
  then have b: "b0 < 256" "b1 < 256" and p: "b0 div 4 < 64" "b0 mod 4 * 16 + b1 div 16 < 64"
    "b1 mod 16 * 4 < 64" by auto
  let ?pad = "if url then CHR ''.'' else CHR ''=''"
  have "decode_chunk (base64_chars url ! (b0 div 4)) (base64_chars url ! (b0 mod 4 * 16 + b1 div 16))
      [base64_chars url ! (b1 mod 16 * 4), ?pad] = Inr [of_nat b0, of_nat b1]"
    using decode_chunk_eqs(2) [OF p, of 0 ?pad url "[]"] byte_arith(2,3) [OF b b(1)]
    by (auto simp del: of_nat_add of_nat_mult)
  then show ?case
    unfolding encode_loop_eqs(2) [OF b b(1)] by simp
next
  case (4 url b0 b1 b2 rest)
  then have b: "b0 < 256" "b1 < 256" "b2 < 256" and p: "b0 div 4 < 64"
    "b0 mod 4 * 16 + b1 div 16 < 64" "b1 mod 16 * 4 + b2 div 64 < 64" "b2 mod 64 < 64" by auto
  have "decode_chunk (base64_chars url ! (b0 div 4)) (base64_chars url ! (b0 mod 4 * 16 + b1 div 16))
      (base64_chars url ! (b1 mod 16 * 4 + b2 div 64) # base64_chars url ! (b2 mod 64) #
        base64_encode_loop url rest) = Inr [of_nat b0, of_nat b1, of_nat b2]"
    using decode_chunk_eqs(3) [OF p, of "CHR ''=''" url] byte_arith(2,4,5) [OF b]
    by (simp del: of_nat_add of_nat_mult)
  with 4 show ?case
    unfolding encode_loop_eqs(3) [OF b] by simp
qed

lemma length_encode_loop: "length (base64_encode_loop url bs) = (length bs + 2) div 3 * 4"
  by (induction url bs rule: base64_encode_loop.induct) (simp_all, presburger)

lemma unat_bytes: "list_all (\<lambda>b. b < 256) (map unat (bs :: bytes))"
  using unsigned_less [where ?'b = 8 and ?'a = nat] by (auto simp: list_all_iff)

subsection \<open>The encoding of RFC 4648\<close>

text \<open>
  As the RFC has it: three bytes are a number of 24 bits, which is written as four digits of 6 bits; a last group of one or
  two bytes is filled with zero bits and padded with \<open>=\<close>.
\<close>

definition rfc4648_digit :: "nat \<Rightarrow> nat \<Rightarrow> char" where
  "rfc4648_digit g i =
     ''ABCDEFGHIJKLMNOPQRSTUVWXYZabcdefghijklmnopqrstuvwxyz0123456789+/'' ! (g div 64 ^ (3 - i) mod 64)"

fun rfc4648 :: "bytes \<Rightarrow> string" where
  "rfc4648 [] = []"
| "rfc4648 [a] = map (rfc4648_digit (unat a * 65536)) [0, 1] @ ''==''"
| "rfc4648 [a, b] = map (rfc4648_digit (unat a * 65536 + unat b * 256)) [0, 1, 2] @ ''=''"
| "rfc4648 (a # b # c # bs) = map (rfc4648_digit (unat a * 65536 + unat b * 256 + unat c)) [0, 1, 2, 3] @ rfc4648 bs"

lemma group_value:
  fixes q x y v :: nat
  assumes "q < 64" "x < 64" "y < 64" "v < 64"
  shows "(q * 262144 + x * 4096 + y * 64 + v) div 262144 mod 64 = q"
    "(q * 262144 + x * 4096 + y * 64 + v) div 4096 mod 64 = x"
    "(q * 262144 + x * 4096 + y * 64 + v) div 64 mod 64 = y"
    "(q * 262144 + x * 4096 + y * 64 + v) mod 64 = v"
proof -
  have low: "(k * m + l) div m = k" if "l < m" for k l m :: nat using that by simp
  have "(q * 262144 + (x * 4096 + y * 64 + v)) div 262144 = q" by (rule low) (use assms in linarith)
  then show "(q * 262144 + x * 4096 + y * 64 + v) div 262144 mod 64 = q" using assms(1) by (simp add: add.assoc)
  have "((q * 64 + x) * 4096 + (y * 64 + v)) div 4096 = q * 64 + x" by (rule low) (use assms in linarith)
  then show "(q * 262144 + x * 4096 + y * 64 + v) div 4096 mod 64 = x" using assms(2) by (simp add: algebra_simps)
  have "((q * 4096 + x * 64 + y) * 64 + v) div 64 = q * 4096 + x * 64 + y" by (rule low) (use assms in linarith)
  moreover have "(q * 4096 + x * 64 + y) mod 64 = ((q * 64 + x) * 64 + y) mod 64" by (simp add: algebra_simps)
  moreover have "((q * 64 + x) * 64 + y) mod 64 = y" using assms(3) by (simp only: mod_mult_self3 mod_less)
  moreover have "q * 262144 + x * 4096 + y * 64 + v = (q * 4096 + x * 64 + y) * 64 + v" by (simp add: algebra_simps)
  ultimately show "(q * 262144 + x * 4096 + y * 64 + v) div 64 mod 64 = y" by (simp only:)
  have "(q * 262144 + x * 4096 + y * 64 + v) mod 64 = ((q * 4096 + x * 64 + y) * 64 + v) mod 64" by (simp add: algebra_simps)
  then show "(q * 262144 + x * 4096 + y * 64 + v) mod 64 = v" using assms(4) by (simp only: mod_mult_self3 mod_less)
qed

lemma rfc4648_digits:
  assumes "a < 256" "b < 256" "c < 256"
  shows "map (rfc4648_digit (a * 65536 + b * 256 + c)) [0, 1, 2, 3] =
    map ((!) (base64_chars False)) [a div 4, a mod 4 * 16 + b div 16, b mod 16 * 4 + c div 64, c mod 64]"
proof -
  have chars: "base64_chars False = ''ABCDEFGHIJKLMNOPQRSTUVWXYZabcdefghijklmnopqrstuvwxyz0123456789+/''"
    by (simp add: base64_chars_def)
  let ?n = "a div 4 * 262144 + (a mod 4 * 16 + b div 16) * 4096 + (b mod 16 * 4 + c div 64) * 64 + c mod 64"
  have small: "a div 4 < 64" "a mod 4 * 16 + b div 16 < 64" "b mod 16 * 4 + c div 64 < 64" "c mod 64 < 64" using assms by auto
  have "a * 65536 + b * 256 + c = (a div 4 * 4 + a mod 4) * 65536 + (b div 16 * 16 + b mod 16) * 256 + (c div 64 * 64 + c mod 64)"
    by simp
  also have "\<dots> = ?n" by (simp only: algebra_simps)
  finally have n: "a * 65536 + b * 256 + c = ?n" .
  have p: "64 ^ (3 - 0) = (262144 :: nat)" "64 ^ (3 - 1) = (4096 :: nat)" "64 ^ (3 - 2) = (64 :: nat)" "64 ^ (3 - 3) = (1 :: nat)"
    by simp_all
  show ?thesis
    unfolding n list.map rfc4648_digit_def p div_by_1 group_value [OF small] chars ..
qed

lemma base64_encode_rfc4648: "base64_encode bs False = rfc4648 bs"
proof (induction bs rule: rfc4648.induct)
  case 1
  then show ?case by (simp add: base64_encode_def)
next
  case (2 a)
  have a: "unat a < 256" using unsigned_less [of a, where ?'a = nat] by simp
  show ?case
    using rfc4648_digits [OF a, of 0 0] unfolding base64_encode_def list.map encode_loop_eqs(1) [OF a a a] by simp
next
  case (3 a b)
  have a: "unat a < 256" "unat b < 256"
    using unsigned_less [of a, where ?'a = nat] unsigned_less [of b, where ?'a = nat] by simp_all
  show ?case
    using rfc4648_digits [OF a, of 0] unfolding base64_encode_def list.map encode_loop_eqs(2) [OF a a(1)] by simp
next
  case (4 a b c bs)
  have a: "unat a < 256" "unat b < 256" "unat c < 256"
    using unsigned_less [of a, where ?'a = nat] unsigned_less [of b, where ?'a = nat] unsigned_less [of c, where ?'a = nat]
    by simp_all
  show ?case
    using 4 rfc4648_digits [OF a] unfolding base64_encode_def list.map encode_loop_eqs(3) [OF a] by simp
qed

subsection \<open>Line breaks\<close>

text \<open>The loop returns for a positive distance, and only adds line breaks.\<close>

lemma insert_linebreaks_loop_returns:
  "0 < distance \<Longrightarrow> \<exists>out. insert_linebreaks_loop distance str pos = Some out \<and>
     filter (\<lambda>c. c \<noteq> CHR 0x0A) out = filter (\<lambda>c. c \<noteq> CHR 0x0A) str \<and> length str \<le> length out"
proof (induction "length str - pos" arbitrary: str pos rule: less_induct)
  case less
  show ?case
  proof (cases "pos < length str")
    case True
    let ?str = "take pos str @ [CHR 0x0A] @ drop pos str"
    have "length ?str - (pos + (distance + 1)) < length str - pos"
      using True less.prems by simp
    from less.hyps [OF this less.prems] obtain out where
      "insert_linebreaks_loop distance ?str (pos + (distance + 1)) = Some out"
      "filter (\<lambda>c. c \<noteq> CHR 0x0A) out = filter (\<lambda>c. c \<noteq> CHR 0x0A) ?str" "length ?str \<le> length out"
      by blast
    moreover have "filter (\<lambda>c. c \<noteq> CHR 0x0A) ?str = filter (\<lambda>c. c \<noteq> CHR 0x0A) str"
      by (subst (2) append_take_drop_id [of pos str, symmetric], subst filter_append) simp
    ultimately show ?thesis
      using True by (subst insert_linebreaks_loop.simps) auto
  next
    case False
    then show ?thesis by (subst insert_linebreaks_loop.simps) auto
  qed
qed

lemma insert_linebreaks_decode:
  assumes "0 < distance"
  shows "\<exists>e. insert_linebreaks (base64_encode bs False) distance = Some e \<and>
             base64_decode e True = Inr bs"
proof (cases "bs = []")
  case True
  then show ?thesis
    by (auto simp: insert_linebreaks_def base64_encode_def base64_decode_def)
next
  case False
  let ?s = "base64_encode bs False"
  have ne: "length ?s \<noteq> 0"
    using False by (cases bs) (auto simp: base64_encode_def length_encode_loop)
  obtain e where e: "insert_linebreaks_loop distance ?s distance = Some e"
      "filter (\<lambda>c. c \<noteq> CHR 0x0A) e = filter (\<lambda>c. c \<noteq> CHR 0x0A) ?s" "length ?s \<le> length e"
    using insert_linebreaks_loop_returns [OF assms] by blast
  have "filter (\<lambda>c. c \<noteq> CHR 0x0A) ?s = ?s"
    using encode_loop_no_newline [OF unat_bytes, of False bs]
    by (auto simp: filter_id_conv base64_encode_def)
  with e ne decode_encode_loop [OF unat_bytes, of False bs] show ?thesis
    by (intro exI [of _ e])
       (auto simp: insert_linebreaks_def base64_decode_def base64_encode_def o_def)
qed

lemma base64_decode_encode: "base64_decode (base64_encode bs url) False = Inr bs"
  using decode_encode_loop [OF unat_bytes, of url bs]
  by (auto simp: base64_decode_def base64_encode_def o_def)

lemma length_base64_encode: "length (base64_encode bs url) = (length bs + 2) div 3 * 4"
  by (simp add: base64_encode_def length_encode_loop)

subsection \<open>Properties\<close>

text \<open>C17: decoding what was encoded gives the bytes back, for every byte string under
  \<open>2 ^ 32\<close> bytes and for both the standard and the URL alphabet, and the encoded text has four characters for every started group of
  three bytes.\<close>

theorem base64_roundtrip:
  assumes "length bs < 2 ^ 32"
  shows "base64_decode (base64_encode bs url) False = Inr bs \<and>
   length (base64_encode bs url) = (length bs + 2) div 3 * 4"
  by (simp add: base64_decode_encode length_base64_encode)

theorem base64_roundtrip_witness:
  "base64_decode (base64_encode [0, 255, 62] True) False = Inr [0, 255, 62] \<and>
   length (base64_encode [0, 255, 62] True) = (length [0 :: byte, 255, 62] + 2) div 3 * 4"
  by (rule base64_roundtrip) simp

text \<open>The PEM and MIME variants return, and decoding their output with
  \<open>remove_linebreaks\<close> gives the bytes back: the inserted line breaks are the only
  difference.\<close>

lemma base64_linebreaks_roundtrip:
  assumes "length bs < 2 ^ 32"
  shows "\<exists>pem mime. base64_encode_pem bs = Some pem \<and> base64_decode pem True = Inr bs \<and>
              base64_encode_mime bs = Some mime \<and> base64_decode mime True = Inr bs"
  using insert_linebreaks_decode [of 64 bs] insert_linebreaks_decode [of 76 bs]
  by (auto simp: base64_encode_pem_def base64_encode_mime_def)

end
