(* ===== verification/Tk_Text.thy ===== *)
theory Tk_Text
  imports Tk_Prelude
begin

section \<open>Characters and numbers as the C++ streams print and read them\<close>

text \<open>
  The parts of the standard library that the utilities use: hexadecimal output of a stream with
  \<open>setw\<close> and a fill character, \<open>istream >> std::hex\<close> into an \<open>int\<close>,
  \<open>strtol\<close> with base 16, decimal printing and \<open>atoi\<close>, and the character classes of the C locale.
\<close>

abbreviation code :: "char \<Rightarrow> nat" where
  "code c \<equiv> of_char c"

definition char_isspace :: "char \<Rightarrow> bool" where
  "char_isspace c \<longleftrightarrow> c = CHR '' '' \<or> (9 \<le> code c \<and> code c \<le> 13)"

definition char_isdigit :: "char \<Rightarrow> bool" where
  "char_isdigit c \<longleftrightarrow> 48 \<le> code c \<and> code c \<le> 57"

definition char_isalnum :: "char \<Rightarrow> bool" where
  "char_isalnum c \<longleftrightarrow>
     char_isdigit c \<or> (65 \<le> code c \<and> code c \<le> 90) \<or> (97 \<le> code c \<and> code c \<le> 122)"

definition char_tolower :: "char \<Rightarrow> char" where
  "char_tolower c = (if 65 \<le> code c \<and> code c \<le> 90 then char_of (code c + 32) else c)"

definition hex_char :: "bool \<Rightarrow> nat \<Rightarrow> char" where
  "hex_char up d = char_of (if d < 10 then 48 + d else if up then 55 + d else 87 + d)"

definition hex_value :: "char \<Rightarrow> nat option" where
  "hex_value c =
     (if 48 \<le> code c \<and> code c \<le> 57 then Some (code c - 48)
      else if 65 \<le> code c \<and> code c \<le> 70 then Some (code c - 55)
      else if 97 \<le> code c \<and> code c \<le> 102 then Some (code c - 87)
      else None)"

text \<open>\<open>os << std::hex << n\<close>: the shortest digit string.\<close>

fun hex_digits :: "bool \<Rightarrow> nat \<Rightarrow> string" where
  "hex_digits up n =
     (if n < 16 then [hex_char up n] else hex_digits up (n div 16) @ [hex_char up (n mod 16)])"

declare hex_digits.simps [simp del]

definition setw :: "char \<Rightarrow> nat \<Rightarrow> string \<Rightarrow> string" where
  "setw fill w s = replicate (w - length s) fill @ s"

text \<open>The longest prefix of hexadecimal digits, and its value.\<close>

fun hex_prefix :: "string \<Rightarrow> nat list" where
  "hex_prefix [] = []"
| "hex_prefix (c # cs) = (case hex_value c of None \<Rightarrow> [] | Some d \<Rightarrow> d # hex_prefix cs)"

definition hex_number :: "nat list \<Rightarrow> nat" where
  "hex_number ds = foldl (\<lambda>n d. 16 * n + d) 0 ds"

fun sign_of :: "string \<Rightarrow> int \<times> string" where
  "sign_of [] = (1, [])"
| "sign_of (c # cs) = (if c = CHR ''-'' then (-1, cs) else if c = CHR ''+'' then (1, cs) else (1, c # cs))"

text \<open>
  \<open>is >> std::hex >> v\<close> skips white space, takes a sign and an optional \<open>0x\<close>, and fails
  when no digit follows (after \<open>0x\<close> a digit is required).
\<close>

fun is_0x :: "string \<Rightarrow> bool" where
  "is_0x (c # x # _) \<longleftrightarrow> c = CHR ''0'' \<and> (x = CHR ''x'' \<or> x = CHR ''X'')"
| "is_0x _ \<longleftrightarrow> False"

definition stream_hex :: "string \<Rightarrow> int option" where
  "stream_hex s =
     (case sign_of (dropWhile char_isspace s) of
        (sg, s') \<Rightarrow>
          let ds = (if is_0x s' then hex_prefix (drop 2 s') else hex_prefix s')
          in if ds = [] then None else Some (sg * int (hex_number ds)))"

text \<open>\<open>strtol(s, nullptr, 16)\<close>: like the stream, but 0 instead of a failure.\<close>

definition strtol16 :: "string \<Rightarrow> int" where
  "strtol16 s =
     (case sign_of (dropWhile char_isspace s) of
        (sg, s') \<Rightarrow>
          let ds = (if is_0x s' \<and> hex_prefix (drop 2 s') \<noteq> [] then hex_prefix (drop 2 s')
                    else hex_prefix s')
          in sg * int (hex_number ds))"

subsection \<open>Facts\<close>

lemma code_char_of [simp]: "n < 256 \<Longrightarrow> code (char_of n) = n"
  by (simp add: of_char_of)

lemma code_less [simp]: "code c < 256"
  by (metis char_of_char mod_less_divisor of_char_of zero_less_numeral)

lemma code_hex_char: "d < 16 \<Longrightarrow> code (hex_char up d) = (if d < 10 then 48 + d else if up then 55 + d else 87 + d)"
  by (simp add: hex_char_def)

lemma hex_value_hex_char [simp]: "d < 16 \<Longrightarrow> hex_value (hex_char up d) = Some d"
  by (auto simp: hex_value_def code_hex_char)

lemma hex_char_neq:
  assumes "d < 16"
  shows "\<not> char_isspace (hex_char up d)" "hex_char up d \<noteq> CHR ''-''" "hex_char up d \<noteq> CHR ''+''"
    "hex_char up d \<noteq> CHR ''x''" "hex_char up d \<noteq> CHR ''X''"
  using assms code_hex_char [OF assms, of up]
  by (auto simp: char_isspace_def split: if_splits)

lemma char_isspace_space [simp]: "char_isspace (CHR '' '')"
  by (simp add: char_isspace_def)

lemma sign_of_hex: "d < 16 \<Longrightarrow> sign_of (hex_char up d # cs) = (1, hex_char up d # cs)"
  by (simp add: hex_char_neq)

lemma hex_two_digits:
  assumes "d < 16" "e < 16"
  shows "stream_hex [hex_char up d, hex_char up e] = Some (int (16 * d + e))"
    "strtol16 [hex_char up d, hex_char up e] = int (16 * d + e)"
  using assms
  by (simp_all add: stream_hex_def strtol16_def hex_char_neq hex_number_def)

lemma hex_one_digit:
  assumes "d < 16"
  shows "stream_hex [CHR '' '', hex_char up d] = Some (int d)"
  using assms
  by (simp add: stream_hex_def hex_char_neq hex_number_def)

lemma hex_digits_byte:
  assumes "n < 256"
  shows "hex_digits up n = (if n < 16 then [hex_char up n] else [hex_char up (n div 16), hex_char up (n mod 16)])"
proof (cases "n < 16")
  case True
  then show ?thesis by (subst hex_digits.simps) simp
next
  case False
  with assms have "n div 16 < 16" by auto
  with False show ?thesis by (subst hex_digits.simps, subst hex_digits.simps) simp
qed

subsection \<open>Decimal numbers\<close>

text \<open>\<open>std::to_string\<close> of an integer, and \<open>atoi\<close>, which ignores what follows the digits.\<close>

definition dec_char :: "nat \<Rightarrow> char" where
  "dec_char d = char_of (48 + d)"

fun dec_digits :: "nat \<Rightarrow> string" where
  "dec_digits n = (if n < 10 then [dec_char n] else dec_digits (n div 10) @ [dec_char (n mod 10)])"

declare dec_digits.simps [simp del]

definition to_string :: "int \<Rightarrow> string" where
  "to_string i = (if i < 0 then CHR ''-'' # dec_digits (nat (- i)) else dec_digits (nat i))"

definition dec_number :: "string \<Rightarrow> nat" where
  "dec_number ds = foldl (\<lambda>n c. 10 * n + (code c - 48)) 0 ds"

definition atoi :: "string \<Rightarrow> int" where
  "atoi s = (case sign_of (dropWhile char_isspace s) of (sg, s') \<Rightarrow> sg * int (dec_number (takeWhile char_isdigit s')))"

lemma dec_char_props:
  assumes "d < 10"
  shows "code (dec_char d) = 48 + d" "char_isdigit (dec_char d)" "\<not> char_isspace (dec_char d)"
    "dec_char d \<noteq> CHR ''-''" "dec_char d \<noteq> CHR ''+''"
proof -
  show c: "code (dec_char d) = 48 + d" using assms by (simp add: dec_char_def)
  show "char_isdigit (dec_char d)" using assms c by (simp add: char_isdigit_def)
  show "\<not> char_isspace (dec_char d)" "dec_char d \<noteq> CHR ''-''" "dec_char d \<noteq> CHR ''+''"
    using assms c by (auto simp: char_isspace_def)
qed

lemma dec_digits_isdigit: "c \<in> set (dec_digits n) \<Longrightarrow> char_isdigit c"
proof (induction n rule: dec_digits.induct)
  case (1 n)
  then show ?case by (subst (asm) (2) dec_digits.simps) (auto simp: dec_char_props split: if_splits)
qed

lemma dec_digits_ne: "dec_digits n \<noteq> []"
  by (subst dec_digits.simps) simp

lemma dec_number_snoc: "dec_number (ds @ [c]) = 10 * dec_number ds + (code c - 48)"
  by (simp add: dec_number_def)

lemma dec_number_digits [simp]: "dec_number (dec_digits n) = n"
proof (induction n rule: dec_digits.induct)
  case (1 n)
  show ?case
  proof (cases "n < 10")
    case True
    then show ?thesis by (subst dec_digits.simps) (simp add: dec_number_def dec_char_props)
  next
    case False
    with 1 have "dec_number (dec_digits (n div 10)) = n div 10" by blast
    moreover have "n mod 10 < 10" by simp
    ultimately show ?thesis using False
      by (subst dec_digits.simps) (simp add: dec_number_snoc dec_char_props(1))
  qed
qed

lemma isdigit_neq:
  assumes "char_isdigit c"
  shows "\<not> char_isspace c" "c \<noteq> CHR ''-''" "c \<noteq> CHR ''+''"
  using assms by (auto simp: char_isdigit_def char_isspace_def)

lemma takeWhile_dec_digits: "takeWhile char_isdigit (dec_digits n) = dec_digits n"
  by (simp add: takeWhile_eq_all_conv dec_digits_isdigit)

lemma atoi_to_string [simp]: "atoi (to_string i) = i"
proof -
  have d: "atoi (dec_digits n) = int n" for n
  proof -
    obtain c cs where c: "dec_digits n = c # cs" using dec_digits_ne by (metis list.exhaust)
    then have "char_isdigit c" using dec_digits_isdigit [of c n] by simp
    from isdigit_neq [OF this] c have "dropWhile char_isspace (dec_digits n) = dec_digits n"
      "sign_of (dec_digits n) = (1, dec_digits n)" by simp_all
    then show ?thesis by (simp add: atoi_def takeWhile_dec_digits)
  qed
  have "\<not> char_isspace (CHR ''-'')" by (simp add: char_isspace_def)
  then show ?thesis
    using d by (auto simp: to_string_def atoi_def takeWhile_dec_digits)
qed

subsection \<open>Scanning a string\<close>

text \<open>What the JSON and the XML parser share: white space, the current character, and quotes.\<close>

definition json_space :: "char \<Rightarrow> bool" where
  "json_space c \<longleftrightarrow> c = CHR '' '' \<or> c = CHR 0x0D \<or> c = CHR 0x0A \<or> c = CHR 0x09"

definition skip_white_spaces :: "string \<Rightarrow> string" where
  "skip_white_spaces s = dropWhile json_space s"

text \<open>\<open>m_str[m_idx]\<close> is the null character at the end of the string.\<close>

fun cur :: "string \<Rightarrow> char" where
  "cur [] = CHR 0x00"
| "cur (c # s) = c"

definition quoted :: "string \<Rightarrow> string" where
  "quoted s = CHR 0x22 # s @ [CHR 0x22]"

lemma not_space [simp]: "\<not> json_space CHR '']''" "\<not> json_space CHR '',''" "\<not> json_space CHR ''}''" "\<not> json_space CHR '':''"
  "\<not> json_space CHR 0x22" "\<not> json_space CHR ''[''" "\<not> json_space CHR ''{''" "\<not> json_space CHR ''n''"
  "\<not> json_space CHR ''t''" "\<not> json_space CHR ''f''"
  "\<not> json_space CHR ''<''" "\<not> json_space CHR ''>''" "\<not> json_space CHR ''=''"
  by (simp_all add: json_space_def)

lemma skip_Cons [simp]: "\<not> json_space c \<Longrightarrow> skip_white_spaces (c # s) = c # s"
  by (simp add: skip_white_spaces_def)

lemma skip_space [simp]: "skip_white_spaces (CHR '' '' # s) = skip_white_spaces s"
  by (simp add: skip_white_spaces_def json_space_def)

text \<open>\<open>std::string::find\<close> from the current index, relative to it.\<close>

fun find_sub :: "string \<Rightarrow> string \<Rightarrow> nat option" where
  "find_sub p [] = (if p = [] then Some 0 else None)"
| "find_sub p (c # s) = (if take (length p) (c # s) = p then Some 0 else map_option Suc (find_sub p s))"

lemma find_sub_prefix: "find_sub p (p @ s) = Some 0"
  by (cases "p @ s") (auto, metis append_eq_conv_conj)

lemma find_sub_found:
  assumes "find_sub p s = Some pos"
  shows "s = take pos s @ p @ drop (pos + length p) s" "pos + length p \<le> length s"
  using assms
proof (induction s arbitrary: pos)
  case (Cons c s)
  {
    case 1
    then show ?case using Cons.IH(1) by (auto split: if_splits) (metis append_take_drop_id drop_Cons' drop_drop drop0)
  next
    case 2
    then show ?case using Cons.IH(2) by (auto split: if_splits) (metis length_take min.cobounded2 nat_le_linear take_all_iff length_Cons)
  }
qed (auto split: if_splits)

lemma find_sub_first: "find_sub p s = Some pos \<Longrightarrow> find_sub p (take pos s @ p) = Some pos"
proof (induction s arbitrary: pos)
  case (Cons c s)
  show ?case
  proof (cases "take (length p) (c # s) = p")
    case True
    then show ?thesis using Cons.prems find_sub_prefix [of p "[]"] by auto
  next
    case False
    then obtain k where k: "pos = Suc k" "find_sub p s = Some k" using Cons.prems by auto
    have "c # s = (c # take k s @ p) @ drop (k + length p) s" using find_sub_found(1) [OF k(2)] by simp
    then have "take (length p) (c # s) = take (length p) (c # take k s @ p)"
      by (metis append_Cons length_append length_Cons le_add2 le_SucI take_append diff_is_0_eq take0 append_Nil2)
    then show ?thesis using k False Cons.IH [OF k(2)] by simp
  qed
qed (auto split: if_splits)

subsection \<open>Broken-down times\<close>

text \<open>The members of \<open>struct tm\<close> that the code prints; the month counts from 0, the year from 1900.\<close>

record tm =
  tm_year :: int
  tm_mon :: int
  tm_mday :: int
  tm_hour :: int
  tm_min :: int
  tm_sec :: int

definition two_digits :: "int \<Rightarrow> string" where
  "two_digits n = setw (CHR ''0'') 2 (to_string n)"

end
