(* ===== verification/Tk_Sha1.thy ===== *)
theory Tk_Sha1
  imports Tk_Text
begin

unbundle bit_operations_syntax

section \<open>SHA-1 (src/utility/sha1.h)\<close>

text \<open>
  The hash behind the WebSocket handshake. The model keeps what makes the C++ fast: the message
  schedule lives in the 16 words of the block and is overwritten in place (\<open>blk\<close>), and
  \<open>transform\<close> is the unrolled list of 80 calls in which the five working variables change
  roles instead of being moved. The second half proves that this computes the hash function of
  FIPS 180-4, stated there with an 80-word schedule, a loop and the padded message.
\<close>

record SHA1 =
  digest :: "u32 list"
  s_buffer :: bytes
  transforms :: nat

definition SHA1_reset :: SHA1 where
  "SHA1_reset = \<lparr>digest = [0x67452301, 0xefcdab89, 0x98badcfe, 0x10325476, 0xc3d2e1f0],
                 s_buffer = [], transforms = 0\<rparr>"

definition rol :: "u32 \<Rightarrow> nat \<Rightarrow> u32" where
  "rol val bits = push_bit bits val OR drop_bit (32 - bits) val"

definition blk :: "u32 list \<Rightarrow> nat \<Rightarrow> u32" where
  "blk block i =
     rol (block ! ((i + 13) AND 15) XOR block ! ((i + 8) AND 15) XOR block ! ((i + 2) AND 15) XOR block ! i) 1"

text \<open>
  A round takes the block, the five working variables and the index of a schedule word; it writes
  the block, \<open>w\<close> and \<open>z\<close>.
\<close>

type_synonym round =
  "u32 list \<Rightarrow> u32 \<Rightarrow> u32 \<Rightarrow> u32 \<Rightarrow> u32 \<Rightarrow> u32 \<Rightarrow> nat \<Rightarrow> u32 list \<times> u32 \<times> u32"

definition R0 :: round where
  "R0 block v w x y z i =
     (block, rol w 30, z + (((w AND (x XOR y)) XOR y) + block ! i + 0x5a827999 + rol v 5))"

definition R1 :: round where
  "R1 block v w x y z i =
     (let block = block[i := blk block i] in
      (block, rol w 30, z + (((w AND (x XOR y)) XOR y) + block ! i + 0x5a827999 + rol v 5)))"

definition R2 :: round where
  "R2 block v w x y z i =
     (let block = block[i := blk block i] in
      (block, rol w 30, z + ((w XOR x XOR y) + block ! i + 0x6ed9eba1 + rol v 5)))"

definition R3 :: round where
  "R3 block v w x y z i =
     (let block = block[i := blk block i] in
      (block, rol w 30, z + ((((w OR x) AND y) OR (w AND x)) + block ! i + 0x8f1bbcdc + rol v 5)))"

definition R4 :: round where
  "R4 block v w x y z i =
     (let block = block[i := blk block i] in
      (block, rol w 30, z + ((w XOR x XOR y) + block ! i + 0xca62c1d6 + rol v 5)))"

text \<open>
  The working variables \<open>a, b, c, d, e\<close> are the registers 0 to 4. \<open>transform_rounds\<close> is
  the body of \<open>transform\<close>, call by call: the round, the registers passed as \<open>v\<close>,
  \<open>w\<close>, \<open>x\<close>, \<open>y\<close>, \<open>z\<close>, and the index.
\<close>

abbreviation (input) ar :: nat where "ar \<equiv> 0"
abbreviation (input) br :: nat where "br \<equiv> 1"
abbreviation (input) cr :: nat where "cr \<equiv> 2"
abbreviation (input) dr :: nat where "dr \<equiv> 3"
abbreviation (input) er :: nat where "er \<equiv> 4"

definition transform_rounds :: "(round \<times> nat \<times> nat \<times> nat \<times> nat \<times> nat \<times> nat) list" where
  "transform_rounds = [
      (R0, ar, br, cr, dr, er, 0), (R0, er, ar, br, cr, dr, 1), (R0, dr, er, ar, br, cr, 2), (R0, cr, dr, er, ar, br, 3),
      (R0, br, cr, dr, er, ar, 4), (R0, ar, br, cr, dr, er, 5), (R0, er, ar, br, cr, dr, 6), (R0, dr, er, ar, br, cr, 7),
      (R0, cr, dr, er, ar, br, 8), (R0, br, cr, dr, er, ar, 9), (R0, ar, br, cr, dr, er, 10), (R0, er, ar, br, cr, dr, 11),
      (R0, dr, er, ar, br, cr, 12), (R0, cr, dr, er, ar, br, 13), (R0, br, cr, dr, er, ar, 14), (R0, ar, br, cr, dr, er, 15),
      (R1, er, ar, br, cr, dr, 0), (R1, dr, er, ar, br, cr, 1), (R1, cr, dr, er, ar, br, 2), (R1, br, cr, dr, er, ar, 3),
      (R2, ar, br, cr, dr, er, 4), (R2, er, ar, br, cr, dr, 5), (R2, dr, er, ar, br, cr, 6), (R2, cr, dr, er, ar, br, 7),
      (R2, br, cr, dr, er, ar, 8), (R2, ar, br, cr, dr, er, 9), (R2, er, ar, br, cr, dr, 10), (R2, dr, er, ar, br, cr, 11),
      (R2, cr, dr, er, ar, br, 12), (R2, br, cr, dr, er, ar, 13), (R2, ar, br, cr, dr, er, 14), (R2, er, ar, br, cr, dr, 15),
      (R2, dr, er, ar, br, cr, 0), (R2, cr, dr, er, ar, br, 1), (R2, br, cr, dr, er, ar, 2), (R2, ar, br, cr, dr, er, 3),
      (R2, er, ar, br, cr, dr, 4), (R2, dr, er, ar, br, cr, 5), (R2, cr, dr, er, ar, br, 6), (R2, br, cr, dr, er, ar, 7),
      (R3, ar, br, cr, dr, er, 8), (R3, er, ar, br, cr, dr, 9), (R3, dr, er, ar, br, cr, 10), (R3, cr, dr, er, ar, br, 11),
      (R3, br, cr, dr, er, ar, 12), (R3, ar, br, cr, dr, er, 13), (R3, er, ar, br, cr, dr, 14), (R3, dr, er, ar, br, cr, 15),
      (R3, cr, dr, er, ar, br, 0), (R3, br, cr, dr, er, ar, 1), (R3, ar, br, cr, dr, er, 2), (R3, er, ar, br, cr, dr, 3),
      (R3, dr, er, ar, br, cr, 4), (R3, cr, dr, er, ar, br, 5), (R3, br, cr, dr, er, ar, 6), (R3, ar, br, cr, dr, er, 7),
      (R3, er, ar, br, cr, dr, 8), (R3, dr, er, ar, br, cr, 9), (R3, cr, dr, er, ar, br, 10), (R3, br, cr, dr, er, ar, 11),
      (R4, ar, br, cr, dr, er, 12), (R4, er, ar, br, cr, dr, 13), (R4, dr, er, ar, br, cr, 14), (R4, cr, dr, er, ar, br, 15),
      (R4, br, cr, dr, er, ar, 0), (R4, ar, br, cr, dr, er, 1), (R4, er, ar, br, cr, dr, 2), (R4, dr, er, ar, br, cr, 3),
      (R4, cr, dr, er, ar, br, 4), (R4, br, cr, dr, er, ar, 5), (R4, ar, br, cr, dr, er, 6), (R4, er, ar, br, cr, dr, 7),
      (R4, dr, er, ar, br, cr, 8), (R4, cr, dr, er, ar, br, 9), (R4, br, cr, dr, er, ar, 10), (R4, ar, br, cr, dr, er, 11),
      (R4, er, ar, br, cr, dr, 12), (R4, dr, er, ar, br, cr, 13), (R4, cr, dr, er, ar, br, 14), (R4, br, cr, dr, er, ar, 15)]"

fun call_round :: "round \<times> nat \<times> nat \<times> nat \<times> nat \<times> nat \<times> nat \<Rightarrow> u32 list \<times> u32 list \<Rightarrow> u32 list \<times> u32 list" where
  "call_round (f, v, w, x, y, z, i) (block, regs) =
     (case f block (regs ! v) (regs ! w) (regs ! x) (regs ! y) (regs ! z) i of
        (block', w', z') \<Rightarrow> (block', regs[w := w', z := z']))"

definition transform :: "u32 list \<Rightarrow> u32 list \<Rightarrow> nat \<Rightarrow> u32 list \<times> u32 list \<times> nat" where
  "transform dig block count =
     (case fold call_round transform_rounds (block, dig) of
        (block', regs) \<Rightarrow>
          ([dig ! 0 + regs ! ar, dig ! 1 + regs ! br, dig ! 2 + regs ! cr,
            dig ! 3 + regs ! dr, dig ! 4 + regs ! er],
           block', uadd64 count 1))"

definition buffer_to_block :: "bytes \<Rightarrow> u32 list" where
  "buffer_to_block buf =
     map (\<lambda>i. (ucast (buf ! (4 * i + 3)) AND 0xff) OR
              push_bit 8 (ucast (buf ! (4 * i + 2)) AND 0xff) OR
              push_bit 16 (ucast (buf ! (4 * i + 1)) AND 0xff) OR
              push_bit 24 (ucast (buf ! (4 * i + 0)) AND 0xff)) [0..<16]"

text \<open>
  \<open>update\<close>: one iteration reads up to \<open>64 - buffer.size()\<close> bytes of the stream; a full
  buffer is hashed and cleared, a short one ends the loop.
\<close>

function SHA1_update :: "SHA1 \<Rightarrow> bytes \<Rightarrow> SHA1" where
  "SHA1_update s is =
     (let n = 64 - length (s_buffer s); buf = s_buffer s @ take n is in
      if length buf \<noteq> 64 then s\<lparr>s_buffer := buf\<rparr>
      else (case transform (digest s) (buffer_to_block buf) (transforms s) of
              (dig, _, cnt) \<Rightarrow>
                SHA1_update (s\<lparr>digest := dig, transforms := cnt, s_buffer := []\<rparr>) (drop n is)))"
  by pat_completeness auto
termination
  by (relation "measure (\<lambda>(s, is). length is + length (s_buffer s))") auto

declare SHA1_update.simps [simp del]

definition SHA1_final :: "SHA1 \<Rightarrow> string \<times> SHA1" where
  "SHA1_final s =
     (let total_bits = ((transforms s * 64 + length (s_buffer s)) * 8) mod u64_limit;
          buf = s_buffer s @ [0x80];
          orig_size = length buf;
          block = buffer_to_block (buf @ replicate (64 - orig_size) 0);
          (dig, block, cnt) =
            (if 64 - 8 < orig_size
             then (case transform (digest s) block (transforms s) of
                     (dig, block, cnt) \<Rightarrow> (dig, replicate 14 0 @ drop 14 block, cnt))
             else (digest s, block, transforms s));
          block = block[15 := of_nat total_bits];
          block = block[14 := of_nat (drop_bit 32 total_bits)];
          (dig, block, cnt) = transform dig block cnt
      in (concat (map (\<lambda>w. setw (CHR ''0'') 8 (hex_digits False (unat w))) dig), SHA1_reset))"

fun to_binary :: "string \<Rightarrow> bytes" where
  "to_binary [] = []"
| "to_binary [c] = [of_int (strtol16 [c])]"
| "to_binary (c # d # rest) = of_int (strtol16 [c, d]) # to_binary rest"

subsection \<open>The hash function of FIPS 180-4\<close>

fun fips_W :: "u32 list \<Rightarrow> nat \<Rightarrow> u32" where
  "fips_W M t =
     (if t < 16 then M ! t
      else rol (fips_W M (t - 3) XOR fips_W M (t - 8) XOR fips_W M (t - 14) XOR fips_W M (t - 16)) 1)"

declare fips_W.simps [simp del]

definition fips_f :: "nat \<Rightarrow> u32 \<Rightarrow> u32 \<Rightarrow> u32 \<Rightarrow> u32" where
  "fips_f t x y z =
     (if t < 20 then (x AND y) XOR (NOT x AND z)
      else if t < 40 then x XOR y XOR z
      else if t < 60 then (x AND y) XOR (x AND z) XOR (y AND z)
      else x XOR y XOR z)"

definition fips_K :: "nat \<Rightarrow> u32" where
  "fips_K t = (if t < 20 then 0x5a827999 else if t < 40 then 0x6ed9eba1 else if t < 60 then 0x8f1bbcdc
               else 0xca62c1d6)"

fun fips_step :: "u32 list \<Rightarrow> nat \<Rightarrow> u32 \<times> u32 \<times> u32 \<times> u32 \<times> u32 \<Rightarrow> u32 \<times> u32 \<times> u32 \<times> u32 \<times> u32" where
  "fips_step M t (a, b, c, d, e) =
     (rol a 5 + fips_f t b c d + e + fips_K t + fips_W M t, a, rol b 30, c, d)"

definition fips_compress :: "u32 list \<Rightarrow> u32 list \<Rightarrow> u32 list" where
  "fips_compress H M =
     (case fold (fips_step M) [0..<80] (H ! 0, H ! 1, H ! 2, H ! 3, H ! 4) of
        (a, b, c, d, e) \<Rightarrow> [H ! 0 + a, H ! 1 + b, H ! 2 + c, H ! 3 + d, H ! 4 + e])"

subsection \<open>The unrolled rounds compute the loop of the standard\<close>

definition round_at :: "nat \<Rightarrow> round" where
  "round_at t = (if t < 16 then R0 else if t < 20 then R1 else if t < 40 then R2 else if t < 60 then R3 else R4)"

definition entry :: "nat \<Rightarrow> round \<times> nat \<times> nat \<times> nat \<times> nat \<times> nat \<times> nat" where
  "entry t = (round_at t, (4 * t + 0) mod 5, (4 * t + 1) mod 5, (4 * t + 2) mod 5, (4 * t + 3) mod 5,
              (4 * t + 4) mod 5, t mod 16)"

lemma transform_rounds_entries: "transform_rounds = map entry [0..<80]"
  by (simp add: transform_rounds_def entry_def round_at_def upt_rec)

lemma choose_eq: "((w :: u32) AND (x XOR y)) XOR y = (w AND x) XOR (NOT w AND y)"
  by (rule bit_eqI) (auto simp: bit_simps)

lemma majority_eq: "(((w :: u32) OR x) AND y) OR (w AND x) = (w AND x) XOR (w AND y) XOR (x AND y)"
  by (rule bit_eqI) (auto simp: bit_simps)

definition schedule_ok :: "u32 list \<Rightarrow> nat \<Rightarrow> u32 list \<Rightarrow> bool" where
  "schedule_ok M t block \<longleftrightarrow>
     length block = 16 \<and> (\<forall>s. s < max 16 t \<and> max 16 t \<le> s + 16 \<longrightarrow> block ! (s mod 16) = fips_W M s)"

lemma schedule_ok_init: "length M = 16 \<Longrightarrow> schedule_ok M 0 M"
  by (simp add: schedule_ok_def fips_W.simps)

lemma and_15: "(n :: nat) AND 15 = n mod 16"
proof -
  have "n AND 15 = n AND (2 ^ 4 - 1)" by simp
  also have "\<dots> = take_bit 4 n"
    unfolding take_bit_eq_mask mask_eq_exp_minus_1 ..
  finally show ?thesis by (simp add: take_bit_eq_mod)
qed

lemma mod_step: "(b :: nat) = a + n \<Longrightarrow> b mod n = a mod n"
  by simp

lemma shift_mod_neq:
  fixes i j k n :: nat
  assumes "i < n" "j < n" "i \<noteq> j"
  shows "(k + i) mod n \<noteq> (k + j) mod n"
proof
  assume "(k + i) mod n = (k + j) mod n"
  then have "n dvd max i j - min i j"
    using mod_eq_dvd_iff_nat [of "k + min i j" "k + max i j" n] by (cases "i \<le> j") simp_all
  moreover have "0 < max i j - min i j" "max i j - min i j < n" using assms by auto
  ultimately show False using nat_dvd_not_less by blast
qed

lemma blk_schedule:
  assumes "schedule_ok M t block" "16 \<le> t"
  shows "blk block (t mod 16) = fips_W M t"
proof -
  have W: "block ! (s mod 16) = fips_W M s" if "s < t" "t \<le> s + 16" for s
    using assms that by (auto simp: schedule_ok_def)
  have idx: "(t mod 16 + 13) mod 16 = (t - 3) mod 16" "(t mod 16 + 8) mod 16 = (t - 8) mod 16"
    "(t mod 16 + 2) mod 16 = (t - 14) mod 16"
    unfolding mod_add_left_eq using assms(2) by - (rule mod_step, simp)+
  have last: "t mod 16 = (t - 16) mod 16"
    using assms(2) by - (rule mod_step, simp)
  have "block ! ((t - 3) mod 16) = fips_W M (t - 3)" "block ! ((t - 8) mod 16) = fips_W M (t - 8)"
    "block ! ((t - 14) mod 16) = fips_W M (t - 14)" "block ! ((t - 16) mod 16) = fips_W M (t - 16)"
    using assms(2) by - (rule W; simp)+
  then have "blk block (t mod 16) =
      rol (fips_W M (t - 3) XOR fips_W M (t - 8) XOR fips_W M (t - 14) XOR fips_W M (t - 16)) 1"
    unfolding blk_def and_15 idx last [symmetric] by (simp only: last [symmetric])
  also have "\<dots> = fips_W M t"
    unfolding fips_W.simps [of M t] using assms(2) by simp
  finally show ?thesis .
qed

lemma schedule_ok_next:
  assumes "schedule_ok M t block" "16 \<le> t"
  shows "schedule_ok M (Suc t) (block[t mod 16 := fips_W M t])"
  unfolding schedule_ok_def
proof (intro conjI allI impI)
  show "length (block[t mod 16 := fips_W M t]) = 16"
    using assms(1) by (simp add: schedule_ok_def)
  fix s assume s: "s < max 16 (Suc t) \<and> max 16 (Suc t) \<le> s + 16"
  show "block[t mod 16 := fips_W M t] ! (s mod 16) = fips_W M s"
  proof (cases "s = t")
    case True
    then show ?thesis using assms by (simp add: schedule_ok_def)
  next
    case False
    then have "s < t" "t \<le> s + 15" using s assms(2) by auto
    moreover from this have "s mod 16 \<noteq> t mod 16"
      using shift_mod_neq [of 0 16 "t - s" s] by simp
    ultimately show ?thesis using assms by (simp add: schedule_ok_def)
  qed
qed

text \<open>
  The effect of round \<open>t\<close>: it puts schedule word \<open>t\<close> in place and returns the two values
  of the standard's step.
\<close>

lemma round_at_effect:
  assumes "schedule_ok M t block"
  obtains block' where "schedule_ok M (Suc t) block'"
    "round_at t block v w x y z (t mod 16) =
       (block', rol w 30, rol v 5 + fips_f t w x y + z + fips_K t + fips_W M t)"
proof (cases "t < 16")
  case True
  then have "schedule_ok M (Suc t) block" "block ! (t mod 16) = fips_W M t"
    using assms by (auto simp: schedule_ok_def)
  with True show ?thesis
    by (intro that [of block])
       (simp_all add: round_at_def R0_def fips_f_def fips_K_def choose_eq add_ac)
next
  case False
  then have blk: "blk block (t mod 16) = fips_W M t" and len: "length block = 16"
    using blk_schedule [OF assms] assms by (auto simp: schedule_ok_def)
  show ?thesis
    using False blk len schedule_ok_next [OF assms]
    by (intro that [of "block[t mod 16 := fips_W M t]"])
       (simp_all add: round_at_def R1_def R2_def R3_def R4_def Let_def fips_f_def fips_K_def
          choose_eq majority_eq add_ac)
qed

definition logical :: "nat \<Rightarrow> u32 list \<Rightarrow> u32 \<times> u32 \<times> u32 \<times> u32 \<times> u32" where
  "logical t regs = (regs ! ((4 * t + 0) mod 5), regs ! ((4 * t + 1) mod 5), regs ! ((4 * t + 2) mod 5),
                     regs ! ((4 * t + 3) mod 5), regs ! ((4 * t + 4) mod 5))"

lemma call_round_step:
  assumes "schedule_ok M t block" "length regs = 5"
  obtains block' regs' where "call_round (entry t) (block, regs) = (block', regs')"
    "schedule_ok M (Suc t) block'" "length regs' = 5" "logical (Suc t) regs' = fips_step M t (logical t regs)"
proof -
  let ?v = "(4 * t + 0) mod 5" and ?w = "(4 * t + 1) mod 5" and ?x = "(4 * t + 2) mod 5"
    and ?y = "(4 * t + 3) mod 5" and ?z = "(4 * t + 4) mod 5"
  obtain block' where block': "schedule_ok M (Suc t) block'"
    "round_at t block (regs ! ?v) (regs ! ?w) (regs ! ?x) (regs ! ?y) (regs ! ?z) (t mod 16) =
       (block', rol (regs ! ?w) 30,
        rol (regs ! ?v) 5 + fips_f t (regs ! ?w) (regs ! ?x) (regs ! ?y) + regs ! ?z + fips_K t + fips_W M t)"
    using round_at_effect [OF assms(1)] by blast
  let ?z' = "rol (regs ! ?v) 5 + fips_f t (regs ! ?w) (regs ! ?x) (regs ! ?y) + regs ! ?z + fips_K t + fips_W M t"
  let ?regs = "regs[?w := rol (regs ! ?w) 30, ?z := ?z']"
  have idx_z: "(4 * Suc t + 0) mod 5 = ?z" by (simp add: add.commute)
  have idx: "(4 * Suc t + 1) mod 5 = ?v" "(4 * Suc t + 2) mod 5 = ?w"
    "(4 * Suc t + 3) mod 5 = ?x" "(4 * Suc t + 4) mod 5 = ?y"
    by (rule mod_step, simp)+
  have neq: "?w \<noteq> ?z" "?v \<noteq> ?w" "?v \<noteq> ?z" "?x \<noteq> ?w" "?x \<noteq> ?z" "?y \<noteq> ?w" "?y \<noteq> ?z"
    by (rule shift_mod_neq, simp, simp, simp)+
  have "logical (Suc t) ?regs = fips_step M t (logical t regs)"
    unfolding logical_def idx idx_z using neq assms(2) by simp
  moreover have "call_round (entry t) (block, regs) = (block', ?regs)"
    using block'(2) by (simp add: entry_def)
  ultimately show ?thesis
    using block'(1) assms(2) by (intro that [of block' ?regs]) simp_all
qed

lemma rounds_run:
  assumes "schedule_ok M t block" "length regs = 5"
  obtains block' regs' where
    "fold call_round (map entry [t..<t + k]) (block, regs) = (block', regs')"
    "schedule_ok M (t + k) block'" "length regs' = 5"
    "logical (t + k) regs' = fold (fips_step M) [t..<t + k] (logical t regs)"
  using assms
proof (induction k arbitrary: t block regs thesis)
  case 0
  then show ?case by simp
next
  case (Suc k)
  obtain block1 regs1 where 1: "call_round (entry t) (block, regs) = (block1, regs1)"
    "schedule_ok M (Suc t) block1" "length regs1 = 5" "logical (Suc t) regs1 = fips_step M t (logical t regs)"
    using call_round_step [OF Suc.prems(2,3)] .
  have upt: "[t..<t + Suc k] = t # [Suc t..<Suc t + k]" by (simp add: upt_rec)
  show ?case
    by (rule Suc.IH [OF _ 1(2,3)]) (rule Suc.prems(1), use 1 upt in \<open>simp_all\<close>)
qed

lemma transform_compress:
  assumes "length dig = 5" "length block = 16"
  obtains block' where "transform dig block cnt = (fips_compress dig block, block', uadd64 cnt 1)"
    "length block' = 16"
proof -
  obtain block' regs' where r: "fold call_round (map entry [0..<0 + 80]) (block, dig) = (block', regs')"
    "schedule_ok block (0 + 80) block'" "length regs' = 5"
    "logical (0 + 80) regs' = fold (fips_step block) [0..<0 + 80] (logical 0 dig)"
    using rounds_run [OF schedule_ok_init [OF assms(2)] assms(1), of 80] .
  have idx: "(4 * 0 + 0) mod 5 = (0 :: nat)" "(4 * 0 + 1) mod 5 = (1 :: nat)" "(4 * 0 + 2) mod 5 = (2 :: nat)"
    "(4 * 0 + 3) mod 5 = (3 :: nat)" "(4 * 0 + 4) mod 5 = (4 :: nat)"
    "(4 * 80 + 0) mod 5 = (0 :: nat)" "(4 * 80 + 1) mod 5 = (1 :: nat)" "(4 * 80 + 2) mod 5 = (2 :: nat)"
    "(4 * 80 + 3) mod 5 = (3 :: nat)" "(4 * 80 + 4) mod 5 = (4 :: nat)"
    by simp_all
  have logical: "logical 0 dig = (dig ! 0, dig ! 1, dig ! 2, dig ! 3, dig ! 4)"
    "logical 80 regs' = (regs' ! 0, regs' ! 1, regs' ! 2, regs' ! 3, regs' ! 4)"
    unfolding logical_def idx by (rule refl)+
  have "fold (fips_step block) [0..<80] (dig ! 0, dig ! 1, dig ! 2, dig ! 3, dig ! 4) =
      (regs' ! 0, regs' ! 1, regs' ! 2, regs' ! 3, regs' ! 4)"
    using r(4) unfolding add_0 logical by (rule sym)
  then have "fips_compress dig block =
      [dig ! 0 + regs' ! 0, dig ! 1 + regs' ! 1, dig ! 2 + regs' ! 2, dig ! 3 + regs' ! 3, dig ! 4 + regs' ! 4]"
    unfolding fips_compress_def by (simp only: case_prod_conv)
  then have "transform dig block cnt = (fips_compress dig block, block', uadd64 cnt 1)"
    using r(1) unfolding transform_def transform_rounds_entries add_0 by (simp only: case_prod_conv)
  moreover have "length block' = 16"
    using r(2) by (simp add: schedule_ok_def)
  ultimately show ?thesis by (rule that)
qed

subsection \<open>Messages\<close>

text \<open>
  The standard pads the message with a one bit, zeroes and the 64-bit length in bits, cuts it into
  blocks of 64 bytes and reads every block as 16 big-endian words.
\<close>

definition be_value :: "bytes \<Rightarrow> nat" where
  "be_value bs = foldl (\<lambda>n b. 256 * n + unat b) 0 bs"

definition be_bytes :: "nat \<Rightarrow> nat \<Rightarrow> bytes" where
  "be_bytes k n = map (\<lambda>i. of_nat (n div 256 ^ (k - 1 - i))) [0..<k]"

definition fips_words :: "bytes \<Rightarrow> u32 list" where
  "fips_words bs = map (\<lambda>i. of_nat (be_value (take 4 (drop (4 * i) bs)))) [0..<16]"

definition fips_pad :: "nat \<Rightarrow> bytes \<Rightarrow> bytes" where
  "fips_pad len bs = bs @ [0x80] @ replicate ((119 - length bs mod 64) mod 64) 0 @ be_bytes 8 (8 * len)"

fun fips_blocks :: "u32 list \<Rightarrow> bytes \<Rightarrow> u32 list" where
  "fips_blocks H bs =
     (if length bs < 64 then H else fips_blocks (fips_compress H (fips_words (take 64 bs))) (drop 64 bs))"

declare fips_blocks.simps [simp del]

definition fips_sha1 :: "bytes \<Rightarrow> u32 list" where
  "fips_sha1 m =
     fips_blocks [0x67452301, 0xefcdab89, 0x98badcfe, 0x10325476, 0xc3d2e1f0] (fips_pad (length m) m)"

lemma length_fips_compress [simp]: "length (fips_compress H M) = 5"
  by (simp add: fips_compress_def split: prod.split)

lemma length_fips_words [simp]: "length (fips_words bs) = 16"
  by (simp add: fips_words_def)

lemma length_be_bytes [simp]: "length (be_bytes k n) = k"
  by (simp add: be_bytes_def)

lemma fips_blocks_short: "length bs < 64 \<Longrightarrow> fips_blocks H bs = H"
  by (subst fips_blocks.simps) simp

lemma fips_blocks_block: "length b = 64 \<Longrightarrow> fips_blocks H (b @ bs) = fips_blocks (fips_compress H (fips_words b)) bs"
  by (subst fips_blocks.simps) simp

lemma length_fips_blocks: "length H = 5 \<Longrightarrow> length (fips_blocks H bs) = 5"
  by (induction H bs rule: fips_blocks.induct) (subst fips_blocks.simps, simp)

lemma ucast_byte_mask: "(ucast x AND 0xff :: u32) = ucast x" for x :: byte
proof -
  have "(ucast x AND mask 8 :: u32) = ucast x"
    by (rule bit_eqI) (auto simp: bit_simps dest: bit_imp_le_length)
  then show ?thesis by (simp add: mask_eq_exp_minus_1)
qed

lemma block_word:
  "(ucast d AND 0xff :: u32) OR push_bit 8 (ucast c AND 0xff) OR push_bit 16 (ucast b AND 0xff) OR
     push_bit 24 (ucast a AND 0xff) = of_nat (be_value [a, b, c, d])" for a b c d :: byte
proof -
  have "(ucast d :: u32) OR push_bit 8 (ucast c) OR push_bit 16 (ucast b) OR push_bit 24 (ucast a)
    = ucast d + push_bit 8 (ucast c) + push_bit 16 (ucast b) + push_bit 24 (ucast a)"
    by (subst disjunctive_add, force simp: bit_simps dest: bit_imp_le_length)+ (simp add: or.assoc)
  also have "\<dots> = of_nat (be_value [a, b, c, d])"
    by (simp add: be_value_def push_bit_eq_mult algebra_simps)
  finally show ?thesis by (simp only: ucast_byte_mask)
qed

lemma take_4_drop:
  assumes "k + 4 \<le> length xs"
  shows "take 4 (drop k xs) = [xs ! k, xs ! (k + 1), xs ! (k + 2), xs ! (k + 3)]"
  by (rule nth_equalityI) (use assms in \<open>auto simp: less_Suc_eq numeral_nat\<close>)

lemma buffer_to_block_words: "length bs = 64 \<Longrightarrow> buffer_to_block bs = fips_words bs"
  unfolding buffer_to_block_def fips_words_def block_word
  by (rule map_cong) (simp_all add: take_4_drop)

lemma be_bytes_Suc: "be_bytes (Suc k) n = be_bytes k (n div 256) @ [of_nat n]"
proof -
  have "n div 256 ^ (k - i) = n div 256 div 256 ^ (k - Suc i)" if "i < k" for i
    using that by (simp add: Suc_diff_Suc flip: div_mult2_eq power_Suc)
  then show ?thesis
    by (intro nth_equalityI) (auto simp: be_bytes_def nth_append less_Suc_eq)
qed

lemma be_bytes_add: "be_bytes (j + k) n = be_bytes j (n div 256 ^ k) @ be_bytes k n"
  by (induction k arbitrary: n) (simp_all add: be_bytes_Suc div_mult2_eq, simp add: be_bytes_def)

lemma be_value_snoc: "be_value (bs @ [b]) = 256 * be_value bs + unat b"
  by (simp add: be_value_def)

lemma be_value_be_bytes: "be_value (be_bytes k n) = n mod 256 ^ k"
  by (induction k arbitrary: n)
     (simp_all add: be_bytes_Suc be_value_snoc unat_of_nat mod_mult2_eq, simp_all add: be_bytes_def be_value_def)

lemma be_value_zeros [simp]: "be_value (replicate n 0) = 0"
  by (induction n) (simp_all add: be_value_def)

lemma of_nat_mod_word: "32 \<le> k \<Longrightarrow> (of_nat (n mod 2 ^ k) :: u32) = of_nat n"
  by (simp add: word_of_nat_eq_iff flip: take_bit_eq_mod)

definition tail_words :: "nat \<Rightarrow> u32 list" where
  "tail_words n = [of_nat (n div 2 ^ 32), of_nat n]"

lemma fips_words_tail:
  assumes "length x = 56"
  obtains front where "length front = 14" "\<And>n. fips_words (x @ be_bytes 8 n) = front @ tail_words n"
    "x = replicate 56 0 \<Longrightarrow> front = replicate 14 0" "\<exists>a b. fips_words (x @ replicate 8 0) = front @ [a, b]"
proof
  let ?front = "map (\<lambda>i. of_nat (be_value (take 4 (drop (4 * i) x)))) [0..<14] :: u32 list"
  have split: "[0..<16] = [0..<14] @ [14, 15]" by (simp add: upt_rec)
  have words: "fips_words (x @ y) = ?front @ [of_nat (be_value (take 4 y)), of_nat (be_value (take 4 (drop 4 y)))]" for y
    unfolding fips_words_def split using assms by simp
  show "length ?front = 14" by simp
  show "fips_words (x @ be_bytes 8 n) = ?front @ tail_words n" for n
    using be_bytes_add [of 4 4 n] of_nat_mod_word [of 32]
    by (simp add: words tail_words_def be_value_be_bytes)
  show "?front = replicate 14 0" if "x = replicate 56 0"
    unfolding that by (simp add: map_replicate_const)
  show "\<exists>a b. fips_words (x @ replicate 8 0) = ?front @ [a, b]"
    unfolding words by blast
qed

lemma transform_words:
  assumes "length dig = 5" "length buf = 64"
  shows "fst (transform dig (buffer_to_block buf) cnt) = fips_compress dig (fips_words buf)"
    "snd (snd (transform dig (buffer_to_block buf) cnt)) = uadd64 cnt 1"
  by (rule transform_compress [OF assms(1), of "fips_words buf" cnt];
      simp add: buffer_to_block_words [OF assms(2)])+

text \<open>\<open>update\<close> consumes whole blocks and keeps the rest.\<close>

definition absorbed :: "u32 list \<Rightarrow> bytes \<Rightarrow> nat \<Rightarrow> SHA1" where
  "absorbed dig bs cnt =
     \<lparr>digest = fips_blocks dig bs, s_buffer = drop (length bs div 64 * 64) bs,
      transforms = (cnt + length bs div 64) mod u64_limit\<rparr>"

lemma absorbed_block:
  assumes "length b = 64"
  shows "absorbed dig (b @ bs) cnt = absorbed (fips_compress dig (fips_words b)) bs (uadd64 cnt 1)"
proof -
  have len: "length (b @ bs) div 64 = Suc (length bs div 64)"
    using assms by (simp add: div_add_self1)
  have "drop (length (b @ bs) div 64 * 64) (b @ bs) = drop (length bs div 64 * 64) bs"
    unfolding len using assms by simp
  moreover have "(cnt + length (b @ bs) div 64) mod u64_limit = (uadd64 cnt 1 + length bs div 64) mod u64_limit"
    unfolding len uadd64_def mod_add_left_eq by simp
  ultimately show ?thesis
    unfolding absorbed_def fips_blocks_block [OF assms] by (simp only:)
qed

lemma SHA1_update_absorbs:
  assumes "length (digest s) = 5" "length (s_buffer s) < 64" "transforms s < u64_limit"
  shows "SHA1_update s is = absorbed (digest s) (s_buffer s @ is) (transforms s)"
  using assms
proof (induction s "is" rule: SHA1_update.induct)
  case (1 s "is")
  let ?n = "64 - length (s_buffer s)"
  let ?buf = "s_buffer s @ take ?n is"
  obtain dig block cnt where t: "transform (digest s) (buffer_to_block ?buf) (transforms s) = (dig, block, cnt)"
    by (metis prod_cases3)
  show ?case
  proof (cases "length ?buf = 64")
    case False
    then have "length (s_buffer s @ is) < 64" "take ?n is = is" using 1(3) by auto
    then show ?thesis
      using 1(4) by (subst SHA1_update.simps) (simp add: absorbed_def fips_blocks_short)
  next
    case True
    then have t': "dig = fips_compress (digest s) (fips_words ?buf)" "cnt = uadd64 (transforms s) 1"
      using transform_words [OF 1(2) True, of "transforms s"] t by simp_all
    have "SHA1_update s is = SHA1_update (s\<lparr>digest := dig, transforms := cnt, s_buffer := []\<rparr>) (drop ?n is)"
      using True t by (subst SHA1_update.simps) (simp add: Let_def)
    also have "\<dots> = absorbed dig (drop ?n is) cnt"
      by (subst 1(1) [OF refl refl _ t [symmetric] refl]) (use True t' in \<open>simp_all add: uadd64_bound\<close>)
    also have "\<dots> = absorbed (digest s) (?buf @ drop ?n is) (transforms s)"
      unfolding t' absorbed_block [OF True] ..
    finally show ?thesis by simp
  qed
qed

text \<open>\<open>final\<close> hashes the padded rest of the message.\<close>

lemma fips_pad_short:
  assumes "length b \<le> 55"
  shows "fips_pad len b = (b @ [0x80] @ replicate (55 - length b) 0) @ be_bytes 8 (8 * len)"
proof -
  have "119 - length b mod 64 = (55 - length b) + 64" using assms by simp
  then have "(119 - length b mod 64) mod 64 = 55 - length b" using assms by (simp only: mod_add_self2) simp
  then show ?thesis by (simp add: fips_pad_def)
qed

lemma fips_pad_long:
  assumes "55 < length b" "length b < 64"
  shows "fips_pad len b = (b @ [0x80] @ replicate (63 - length b) 0) @ replicate 56 0 @ be_bytes 8 (8 * len)"
proof -
  have "(119 - length b mod 64) mod 64 = (63 - length b) + 56" using assms by simp
  then show ?thesis by (simp add: fips_pad_def replicate_add)
qed

lemma fips_pad_prefix: "length a mod 64 = 0 \<Longrightarrow> fips_pad len (a @ b) = a @ fips_pad len b"
  by (simp add: fips_pad_def mod_add_eq [symmetric])

definition hex8 :: "u32 \<Rightarrow> string" where
  "hex8 w = setw (CHR ''0'') 8 (hex_digits False (unat w))"

lemma update_tail:
  assumes "length front = 14" "n mod u64_limit = n' mod u64_limit"
  shows "(front @ [a, b])[15 := of_nat (n mod u64_limit), 14 := of_nat (drop_bit 32 (n mod u64_limit))] = front @ tail_words n'"
proof -
  have limit: "u64_limit = 2 ^ 64" by simp
  have upd: "(front @ [a, b])[15 := x, 14 := y] = front @ [y, x]" for x y
    using assms(1) by (simp add: list_update_append)
  have "drop_bit 32 (n' mod 2 ^ 64) = n' div 2 ^ 32 mod 2 ^ 32"
    using drop_bit_take_bit [of 32 64 n'] unfolding take_bit_eq_mod drop_bit_eq_div by simp
  then show ?thesis
    unfolding upd assms(2) tail_words_def unfolding limit by (simp only: of_nat_mod_word order.refl)
qed

lemma transform_fst: "length dig = 5 \<Longrightarrow> length M = 16 \<Longrightarrow> fst (transform dig M cnt) = fips_compress dig M"
  by (rule transform_compress [of dig M cnt]) simp_all

lemma SHA1_final_short:
  assumes "length (digest s) = 5" "length (s_buffer s) \<le> 55"
    "8 * (transforms s * 64 + length (s_buffer s)) mod u64_limit = 8 * len mod u64_limit"
  shows "SHA1_final s = (concat (map hex8 (fips_blocks (digest s) (fips_pad len (s_buffer s)))), SHA1_reset)"
proof -
  let ?b = "s_buffer s"
  let ?tb = "8 * (transforms s * 64 + length ?b) mod u64_limit"
  let ?buf = "?b @ [0x80] @ replicate (63 - length ?b) 0"
  let ?x = "?b @ [0x80] @ replicate (55 - length ?b) 0"
  have x: "length ?x = 56" "?buf = ?x @ replicate 8 0"
    using assms(2) by (simp_all flip: replicate_add)
  obtain front a b where f: "length front = 14" "\<And>n. fips_words (?x @ be_bytes 8 n) = front @ tail_words n"
    "fips_words (?x @ replicate 8 0) = front @ [a, b]"
    using fips_words_tail [OF x(1)] by metis
  have "SHA1_final s = (concat (map hex8 (fst (transform (digest s)
      ((buffer_to_block ?buf)[15 := of_nat ?tb, 14 := of_nat (drop_bit 32 ?tb)]) (transforms s)))), SHA1_reset)"
    using assms(2) unfolding SHA1_final_def hex8_def
    by (simp add: Let_def mult.commute split_def)
  also have "(buffer_to_block ?buf)[15 := of_nat ?tb, 14 := of_nat (drop_bit 32 ?tb)] = fips_words (fips_pad len ?b)"
    unfolding x(2) fips_pad_short [OF assms(2)] f(2)
    using x(1) by (subst buffer_to_block_words, simp, unfold f(3)) (rule update_tail [OF f(1) assms(3)])
  also have "fst (transform (digest s) (fips_words (fips_pad len ?b)) (transforms s)) = fips_blocks (digest s) (fips_pad len ?b)"
    using fips_blocks_block [of "fips_pad len ?b" "digest s" "[]"] x(1) assms(1)
    by (simp add: fips_pad_short [OF assms(2)] fips_blocks_short transform_fst)
  finally show ?thesis .
qed

lemma SHA1_final_long:
  assumes "length (digest s) = 5" "55 < length (s_buffer s)" "length (s_buffer s) < 64"
    "8 * (transforms s * 64 + length (s_buffer s)) mod u64_limit = 8 * len mod u64_limit"
  shows "SHA1_final s = (concat (map hex8 (fips_blocks (digest s) (fips_pad len (s_buffer s)))), SHA1_reset)"
proof -
  let ?b = "s_buffer s"
  let ?tb = "8 * (transforms s * 64 + length ?b) mod u64_limit"
  let ?buf = "?b @ [0x80] @ replicate (63 - length ?b) 0"
  let ?fin = "replicate 56 0 @ be_bytes 8 (8 * len)"
  have buf: "length ?buf = 64" using assms(2,3) by simp
  obtain blk' where blk': "transform (digest s) (buffer_to_block ?buf) (transforms s) =
      (fips_compress (digest s) (fips_words ?buf), blk', uadd64 (transforms s) 1)" "length blk' = 16"
    using transform_compress [OF assms(1), of "fips_words ?buf" "transforms s"]
    unfolding buffer_to_block_words [OF buf] by (metis length_fips_words)
  have "length (drop 14 blk') = Suc (Suc 0)" using blk'(2) by simp
  then obtain a b where ab: "drop 14 blk' = [a, b]" unfolding length_Suc_conv length_0_conv by blast
  obtain front where f: "\<And>n. fips_words (replicate 56 0 @ be_bytes 8 n) = front @ tail_words n"
    "front = replicate 14 0"
    by (rule fips_words_tail [of "replicate 56 0"]) auto
  have "SHA1_final s = (concat (map hex8 (fst (transform (fips_compress (digest s) (fips_words ?buf))
      ((replicate 14 0 @ [a, b])[15 := of_nat ?tb, 14 := of_nat (drop_bit 32 ?tb)]) (uadd64 (transforms s) 1)))), SHA1_reset)"
    using assms(2,3) blk'(1) ab unfolding SHA1_final_def hex8_def
    by (simp add: Let_def mult.commute split_def)
  also have "(replicate 14 0 @ [a, b])[15 := of_nat ?tb, 14 := of_nat (drop_bit 32 ?tb)] = fips_words ?fin"
    unfolding f by (rule update_tail [OF _ assms(4)]) simp
  also have "fst (transform (fips_compress (digest s) (fips_words ?buf)) (fips_words ?fin) (uadd64 (transforms s) 1)) =
      fips_blocks (digest s) (fips_pad len ?b)"
    using fips_blocks_block [of ?fin _ "[]"]
    unfolding fips_pad_long [OF assms(2,3)] fips_blocks_block [OF buf]
    by (simp add: fips_blocks_short transform_fst)
  finally show ?thesis .
qed

lemma length_SHA1_reset [simp]: "length (digest SHA1_reset) = 5" "s_buffer SHA1_reset = []" "transforms SHA1_reset = 0"
  by (simp_all add: SHA1_reset_def)

lemma fips_blocks_append:
  assumes "length a mod 64 = 0"
  shows "fips_blocks H (a @ b) = fips_blocks (fips_blocks H a) b"
  using assms
proof (induction H a rule: fips_blocks.induct)
  case (1 H a)
  show ?case
  proof (cases "length a < 64")
    case True
    with 1 show ?thesis by (simp add: fips_blocks_short)
  next
    case False
    then have "length (drop 64 a) mod 64 = 0" using 1(2) by (simp add: le_mod_geq)
    with 1(1) False fips_blocks_block [of "take 64 a" H "drop 64 a @ b"] fips_blocks_block [of "take 64 a" H "drop 64 a"]
    show ?thesis by (simp del: append_assoc add: append_assoc [symmetric])
  qed
qed

lemma fips_blocks_whole: "fips_blocks H (take (length bs div 64 * 64) bs) = fips_blocks H bs"
proof -
  let ?k = "length bs div 64 * 64"
  have "?k \<le> length bs" by (rule div_times_less_eq_dividend)
  then have "length (take ?k bs) mod 64 = 0" "length (drop ?k bs) < 64"
    by (simp_all add: min_absorb2)
  then show ?thesis
    using fips_blocks_append [of "take ?k bs" H "drop ?k bs"] by (simp add: fips_blocks_short)
qed

lemma absorbed_append:
  assumes "length a mod 64 = 0"
  shows "absorbed H (a @ b) cnt = absorbed (fips_blocks H a) b ((cnt + length a div 64) mod u64_limit)"
proof -
  obtain q where q: "length a = q * 64" using assms by (auto simp: mod_eq_0_iff_dvd)
  have len: "length (a @ b) div 64 = q + length b div 64" unfolding length_append q by simp
  have "drop (length (a @ b) div 64 * 64) (a @ b) = drop (length b div 64 * 64) b"
    unfolding len using q by (simp add: add_mult_distrib)
  moreover have "(cnt + length (a @ b) div 64) mod u64_limit =
      ((cnt + length a div 64) mod u64_limit + length b div 64) mod u64_limit"
    unfolding len mod_add_left_eq using q by (simp add: add.assoc)
  ultimately show ?thesis
    unfolding absorbed_def fips_blocks_append [OF assms] by (simp only:)
qed

lemma SHA1_hash: "SHA1_final (SHA1_update SHA1_reset m) = (concat (map hex8 (fips_sha1 m)), SHA1_reset)"
proof -
  let ?k = "length m div 64 * 64"
  let ?s = "SHA1_update SHA1_reset m"
  have s: "?s = absorbed (digest SHA1_reset) m 0"
    by (subst SHA1_update_absorbs) simp_all
  have k: "?k \<le> length m" by (rule div_times_less_eq_dividend)
  have rest: "length m - ?k = length m mod 64" by (rule minus_div_mult_eq_mod)
  have len: "length (s_buffer ?s) < 64" unfolding s by (simp add: absorbed_def rest)
  have dig: "length (digest ?s) = 5" unfolding s by (simp add: absorbed_def length_fips_blocks)
  have lin: "8 * (a * 64 + b) = 512 * a + 8 * b" for a b :: nat by simp
  have "transforms ?s = length m div 64 mod u64_limit" "length (s_buffer ?s) = length m mod 64"
    unfolding s absorbed_def by (simp_all add: rest)
  then have "8 * (transforms ?s * 64 + length (s_buffer ?s)) = 512 * (length m div 64 mod u64_limit) + 8 * (length m mod 64)"
    by (simp only: lin)
  also have "\<dots> mod u64_limit = (512 * (length m div 64) + 8 * (length m mod 64)) mod u64_limit"
    by (rule mod_add_cong [OF mod_mult_right_eq refl])
  also have "512 * (length m div 64) + 8 * (length m mod 64) = 8 * length m"
    using lin [of "length m div 64" "length m mod 64"] unfolding div_mult_mod_eq by (rule sym)
  finally have total: "8 * (transforms ?s * 64 + length (s_buffer ?s)) mod u64_limit = 8 * length m mod u64_limit" .
  have "fips_pad (length m) m = take ?k m @ fips_pad (length m) (s_buffer ?s)"
    using fips_pad_prefix [of "take ?k m" "length m" "drop ?k m"] k unfolding s by (simp add: absorbed_def min_absorb2)
  then have "fips_sha1 m = fips_blocks (digest ?s) (fips_pad (length m) (s_buffer ?s))"
    using fips_blocks_append [of "take ?k m" "digest SHA1_reset" "fips_pad (length m) (s_buffer ?s)"] k
      fips_blocks_whole [of "digest SHA1_reset" m]
    unfolding s fips_sha1_def by (simp add: absorbed_def min_absorb2 SHA1_reset_def)
  then show ?thesis
    using SHA1_final_short [OF dig _ total] SHA1_final_long [OF dig _ len total]
    by (cases "length (s_buffer ?s) \<le> 55") simp_all
qed

subsection \<open>Hexadecimal output and its decoding\<close>

definition hex_pad :: "nat \<Rightarrow> nat \<Rightarrow> string" where
  "hex_pad k n = map (\<lambda>i. hex_char False (n div 16 ^ (k - 1 - i) mod 16)) [0..<k]"

lemma hex_pad_Suc: "hex_pad (Suc k) n = hex_pad k (n div 16) @ [hex_char False (n mod 16)]"
proof -
  have "n div 16 ^ (k - i) = n div 16 div 16 ^ (k - Suc i)" if "i < k" for i
    using that by (simp add: Suc_diff_Suc flip: div_mult2_eq power_Suc)
  then show ?thesis
    by (intro nth_equalityI) (auto simp: hex_pad_def nth_append less_Suc_eq)
qed

lemma hex_char_zero: "hex_char up 0 = CHR ''0''"
  unfolding hex_char_def by code_simp

lemma hex_pad_zero: "hex_pad k 0 = replicate k (CHR ''0'')"
  by (simp add: hex_pad_def hex_char_zero map_replicate_const)

lemma setw_hex_digits:
  assumes "n < 16 ^ k" "0 < k"
  shows "setw (CHR ''0'') k (hex_digits False n) = hex_pad k n \<and> length (hex_digits False n) \<le> k"
  using assms
proof (induction k arbitrary: n)
  case (Suc k)
  show ?case
  proof (cases "n < 16")
    case True
    then show ?thesis
      by (subst (1 2) hex_digits.simps) (simp add: setw_def hex_pad_Suc hex_pad_zero)
  next
    case False
    then have "0 < k" "n div 16 < 16 ^ k" using Suc.prems(1) by (cases k; simp; auto)+
    with Suc.IH [of "n div 16"] False show ?thesis
      by (subst (1 2) hex_digits.simps) (simp add: setw_def hex_pad_Suc)
  qed
qed simp

lemma hex8_pad: "hex8 w = hex_pad 8 (unat w)"
  using setw_hex_digits [of "unat w" 8] unsigned_less [where ?'a = nat, of w] by (simp add: hex8_def)

lemma to_binary_hex_pad: "to_binary (hex_pad (2 * k) n @ rest) = be_bytes k n @ to_binary rest"
proof (induction k arbitrary: n rest)
  case (Suc k)
  have "int (16 * (n div 16 mod 16) + n mod 16) = int (n mod 256)"
    using mod_mult2_eq [of n 16 16] by simp
  then have "(of_int (int (16 * (n div 16 mod 16) + n mod 16)) :: byte) = of_nat n"
    by (simp add: word_of_nat_eq_iff take_bit_eq_mod del: of_nat_add of_nat_mult)
  then show ?case
    using Suc.IH [of "n div 16 div 16"]
    by (simp add: hex_pad_Suc be_bytes_Suc hex_two_digits flip: div_mult2_eq)
qed (simp add: hex_pad_def be_bytes_def)

lemma to_binary_hex8: "to_binary (concat (map hex8 ws)) = concat (map (\<lambda>w. be_bytes 4 (unat w)) ws)"
  by (induction ws) (use to_binary_hex_pad [of 4] in \<open>simp_all add: hex8_pad\<close>)

text \<open>The digest as bytes, most significant byte of every word first.\<close>

lemma sha1_to_binary:
  "to_binary (fst (SHA1_final (SHA1_update SHA1_reset m))) = concat (map (\<lambda>w. be_bytes 4 (unat w)) (fips_sha1 m))"
  by (simp add: SHA1_hash to_binary_hex8)

text \<open>\<open>transform\<close>, which updates a 16-word schedule in place and rotates the roles of its
  five variables through 80 unrolled calls, computes the compression function of FIPS 180-4 (80-word
  schedule, one loop), counts one block and keeps the block at 16 words.\<close>

lemma sha1_transform_is_fips:
  assumes "length dig = 5" "length block = 16"
  shows "\<exists>block'. transform dig block cnt = (fips_compress dig block, block', uadd64 cnt 1) \<and> length block' = 16"
  using transform_compress [OF assms] by metis

text \<open>C9: Hashing a message with a fresh object gives, as 40 lower-case digits, the SHA-1 of FIPS 180-4 of
  that message, for messages of every length, and leaves the object ready for the next message.\<close>

theorem sha1_is_fips:
  "SHA1_final (SHA1_update SHA1_reset m) = (concat (map (\<lambda>w. hex_pad 8 (unat w)) (fips_sha1 m)), SHA1_reset)"
  by (simp add: SHA1_hash hex8_pad cong: map_cong)

text \<open>Feeding a message in pieces is feeding their concatenation: the block buffer and the block
  counter make the boundaries of the calls invisible.\<close>

lemma sha1_update_pieces:
  "SHA1_update (SHA1_update SHA1_reset a) b = SHA1_update SHA1_reset (a @ b)"
proof -
  let ?k = "length a div 64 * 64" and ?H = "digest SHA1_reset"
  have k: "?k \<le> length a" by (rule div_times_less_eq_dividend)
  have rest: "length a - ?k = length a mod 64" by (rule minus_div_mult_eq_mod)
  have a: "SHA1_update SHA1_reset a = absorbed ?H a 0"
    by (subst SHA1_update_absorbs) simp_all
  have ab: "SHA1_update SHA1_reset (a @ b) = absorbed ?H (a @ b) 0"
    by (subst SHA1_update_absorbs) simp_all
  have "absorbed ?H (take ?k a @ (drop ?k a @ b)) 0 =
      absorbed (fips_blocks ?H (take ?k a)) (drop ?k a @ b) ((0 + length (take ?k a) div 64) mod u64_limit)"
    by (rule absorbed_append) (use k in \<open>simp add: min_absorb2\<close>)
  then have "absorbed ?H (a @ b) 0 = absorbed (fips_blocks ?H a) (drop ?k a @ b) (length a div 64 mod u64_limit)"
    using k unfolding fips_blocks_whole append_assoc [symmetric] append_take_drop_id by (simp add: min_absorb2)
  then show ?thesis
    unfolding a ab
    by (subst SHA1_update_absorbs)
       (use k in \<open>simp_all add: absorbed_def [of ?H a] length_fips_blocks rest fips_blocks_whole min_absorb2\<close>)
qed

end
