(* ===== verification/Tk_Url.thy ===== *)
theory Tk_Url
  imports Tk_Text
begin

section \<open>URL encoding (src/utility/url.cpp)\<close>

text \<open>
  The loop of \<open>decode\<close> walks over the string by index and jumps over the two characters of an
  escape; the recursive argument is the rest of the string. \<open>encode\<close> maps character by
  character. Note what the code prints for an escape: \<open>setw(2)\<close> is set but no fill character,
  so the digit of a byte below 16 is padded with a space.
\<close>

fun url_decode :: "string \<Rightarrow> string" where
  "url_decode [] = []"
| "url_decode [c] = [if c = CHR ''+'' then CHR '' '' else c]"
| "url_decode [c, d] = (if c = CHR ''+'' then CHR '' '' else c) # url_decode [d]"
| "url_decode (c # a # b # rest) =
     (if c = CHR ''%''
      then (case stream_hex [a, b] of
              Some v \<Rightarrow> char_of (nat (v mod 256)) # url_decode rest
            | None \<Rightarrow> c # url_decode (a # b # rest))
      else if c = CHR ''+'' then CHR '' '' # url_decode (a # b # rest)
      else c # url_decode (a # b # rest))"

definition url_unreserved :: "char \<Rightarrow> bool" where
  "url_unreserved c \<longleftrightarrow>
     char_isalnum c \<or> c = CHR ''-'' \<or> c = CHR ''_'' \<or> c = CHR ''.'' \<or> c = CHR ''~'' \<or> c = CHR ''/''"

definition url_encode_char :: "char \<Rightarrow> string" where
  "url_encode_char c =
     (if url_unreserved c then [c]
      else CHR ''%'' # setw (CHR '' '') 2 (hex_digits True (code c)))"

definition url_encode :: "string \<Rightarrow> string" where
  "url_encode str = concat (map url_encode_char str)"

subsection \<open>Facts\<close>

lemma url_decode_plain: "c \<noteq> CHR ''%'' \<Longrightarrow> c \<noteq> CHR ''+'' \<Longrightarrow> url_decode (c # s) = c # url_decode s"
  by (cases s rule: url_decode.cases) auto

lemma url_escape:
  assumes "\<not> url_unreserved c"
  obtains a b where "url_encode_char c = [CHR ''%'', a, b]" "stream_hex [a, b] = Some (int (code c))"
proof (cases "code c < 16")
  case True
  then show ?thesis
    using assms that [of "CHR '' ''" "hex_char True (code c)"] hex_one_digit [of "code c" True]
    by (simp add: url_encode_char_def hex_digits_byte setw_def)
next
  case False
  have d: "code c div 16 < 16" "code c mod 16 < 16" using code_less [of c] by (auto simp: less_mult_imp_div_less)
  have "16 * (code c div 16) + code c mod 16 = code c" by simp
  then show ?thesis
    using assms False that [of "hex_char True (code c div 16)" "hex_char True (code c mod 16)"]
      hex_two_digits(1) [OF d, of True]
    by (simp add: url_encode_char_def hex_digits_byte setw_def)
qed

lemma url_decode_encode_char: "url_decode (url_encode_char c @ s) = c # url_decode s"
proof (cases "url_unreserved c")
  case True
  then have "c \<noteq> CHR ''%''" "c \<noteq> CHR ''+''"
    by (auto simp: url_unreserved_def char_isalnum_def char_isdigit_def)
  with True show ?thesis by (simp add: url_encode_char_def url_decode_plain)
next
  case False
  then obtain a b where "url_encode_char c = [CHR ''%'', a, b]" "stream_hex [a, b] = Some (int (code c))"
    by (rule url_escape)
  then show ?thesis by (simp add: nat_mod_distrib)
qed

subsection \<open>Properties\<close>

text \<open>C31: decoding an encoded string gives the string back, for every string of bytes, also for those
  whose escape the encoder pads with a space.\<close>

theorem url_roundtrip: "url_decode (url_encode s) = s"
  by (induction s) (simp_all add: url_encode_def url_decode_encode_char)

text \<open>Every character of an encoded string is a letter, a digit, one of \<open>-_.~/\<close>, a percent sign
  or a space: the links of a directory listing cannot contain a quote or an angle bracket that would
  end the \<open>href\<close> attribute.\<close>

lemma url_encode_charset:
  "set (url_encode s) \<subseteq> {c. url_unreserved c} \<union> {CHR ''%'', CHR '' ''} \<and>
   CHR 0x22 \<notin> set (url_encode s) \<and> CHR ''<'' \<notin> set (url_encode s) \<and> CHR ''>'' \<notin> set (url_encode s)"
proof -
  have hex: "url_unreserved (hex_char True d)" if "d < 16" for d
    using code_hex_char [OF that, of True] that
    by (auto simp: url_unreserved_def char_isalnum_def char_isdigit_def split: if_splits)
  have "set (url_encode_char c) \<subseteq> {c. url_unreserved c} \<union> {CHR ''%'', CHR '' ''}" for c
    using hex code_less [of c]
    by (auto simp: url_encode_char_def setw_def hex_digits_byte less_mult_imp_div_less split: if_splits)
  then have sub: "set (url_encode s) \<subseteq> {c. url_unreserved c} \<union> {CHR ''%'', CHR '' ''}"
    by (induction s) (auto simp: url_encode_def)
  moreover have "\<not> url_unreserved (CHR 0x22)" "\<not> url_unreserved (CHR ''<'')" "\<not> url_unreserved (CHR ''>'')"
    by (simp_all add: url_unreserved_def char_isalnum_def char_isdigit_def)
  ultimately show ?thesis by auto
qed

text \<open>A byte below 16 is escaped as a percent sign, a space and one digit, not as the two digits
  that percent-encoding requires (a line feed becomes \<open>% A\<close>, not \<open>%0A\<close>).\<close>

lemma url_encode_low_byte:
  assumes "code c < 16"
  shows "url_encode [c] = [CHR ''%'', CHR '' '', hex_char True (code c)]"
proof -
  have "\<not> url_unreserved c"
    using assms by (auto simp: url_unreserved_def char_isalnum_def char_isdigit_def)
  then show ?thesis
    using assms by (simp add: url_encode_def url_encode_char_def hex_digits_byte setw_def)
qed

end
