(* ===== verification/Tk_Socket.thy ===== *)
theory Tk_Socket
  imports Tk_Prelude
begin

unbundle bit_operations_syntax

section \<open>Sockets (src/socket/socket.cpp, client_socket.cpp, server_socket.cpp)\<close>

text \<open>
  A socket object wraps a descriptor and, optionally, an OpenSSL session. The kernel and OpenSSL are
  the environment: a call the object makes is a value of \<open>sys_call\<close>, and the environment is a
  parameter \<open>os\<close> that gives the return value of a call. A method returns the calls it made, in
  order, its result and the object. \<open>recv\<close> and \<open>send\<close> take the answer of the kernel (or
  of OpenSSL) as an argument, since data travels with it.
\<close>

datatype sockopt =
    SO_SNDBUF nat
  | SO_RCVBUF int
  | SO_LINGER int int
  | SO_KEEPALIVE int
  | SO_REUSEADDR int
  | SO_REUSEPORT int

datatype sys_call =
    Sys_socket bool
  | Sys_inet_pton string
  | Sys_bind int bool string nat
  | Sys_listen int int
  | Sys_connect int bool string nat
  | Sys_accept int
  | Sys_getfl int
  | Sys_setfl int int
  | Sys_setsockopt int sockopt
  | Sys_close int
  | Ssl_shutdown
  | Ssl_free
  | Close_callback

type_synonym os = "sys_call \<Rightarrow> int"

record socket =
  m_ip :: string
  m_port :: int
  m_sockfd :: int
  m_ssl_instance :: bool
  m_ssl_accepted :: bool
  s_gid :: nat
  close_callback :: bool

definition socket_new :: "string \<Rightarrow> int \<Rightarrow> socket" where
  "socket_new ip port =
     \<lparr>m_ip = ip, m_port = port, m_sockfd = 0, m_ssl_instance = False, m_ssl_accepted = False,
      s_gid = 0, close_callback = False\<rparr>"

definition is_ipv6 :: "string \<Rightarrow> bool" where
  "is_ipv6 ip = (CHR ''.'' \<notin> set ip)"

text \<open>A conversion of \<open>size_t\<close> to \<open>int\<close> keeps the low 32 bits; \<open>htons\<close> the low 16.\<close>

definition to_int32 :: "nat \<Rightarrow> int" where
  "to_int32 n = sint (word_of_nat n :: u32)"

definition port16 :: "int \<Rightarrow> nat" where
  "port16 port = nat (port mod 65536)"

definition socket_bind :: "os \<Rightarrow> string \<Rightarrow> int \<Rightarrow> socket \<Rightarrow> sys_call list \<times> bool" where
  "socket_bind os ip port s =
     (let bind = Sys_bind (m_sockfd s) (is_ipv6 ip) ip (port16 port) in
      if is_ipv6 ip
      then (if os (Sys_inet_pton ip) \<le> 0 then ([Sys_inet_pton ip], False)
            else ([Sys_inet_pton ip, bind], \<not> os bind < 0))
      else ([bind], \<not> os bind < 0))"

definition socket_listen :: "os \<Rightarrow> int \<Rightarrow> socket \<Rightarrow> sys_call list \<times> bool" where
  "socket_listen os backlog s =
     (let listen = Sys_listen (m_sockfd s) backlog in ([listen], \<not> os listen < 0))"

definition socket_connect :: "os \<Rightarrow> string \<Rightarrow> int \<Rightarrow> socket \<Rightarrow> sys_call list \<times> bool" where
  "socket_connect os ip port s =
     (let connect = Sys_connect (m_sockfd s) (is_ipv6 ip) ip (port16 port) in
      if is_ipv6 ip
      then (if os (Sys_inet_pton ip) \<le> 0 then ([Sys_inet_pton ip], False)
            else ([Sys_inet_pton ip, connect], \<not> os connect < 0))
      else ([connect], \<not> os connect < 0))"

definition socket_close :: "socket \<Rightarrow> sys_call list \<times> socket" where
  "socket_close s =
     ((if close_callback s then [Close_callback] else []) @
      (if m_ssl_instance s then [Ssl_shutdown, Ssl_free] else []) @
      (if 0 < m_sockfd s then [Sys_close (m_sockfd s)] else []),
      s\<lparr>m_ssl_instance := False, m_ssl_accepted := False,
        m_sockfd := (if 0 < m_sockfd s then 0 else m_sockfd s),
        close_callback := False, m_ip := [], m_port := 0\<rparr>)"

definition socket_accept :: "os \<Rightarrow> socket \<Rightarrow> int" where
  "socket_accept os s = (if os (Sys_accept (m_sockfd s)) < 0 then -1 else os (Sys_accept (m_sockfd s)))"

text \<open>
  The answer to a read or a write: the bytes read (none at the end of the stream), the number of
  bytes written, or the error, which is \<open>errno\<close> without OpenSSL and the code of
  \<open>SSL_get_error\<close> with it.
\<close>

abbreviation EINTR :: int where "EINTR \<equiv> 4"
abbreviation EAGAIN :: int where "EAGAIN \<equiv> 11"
abbreviation SSL_ERROR_WANT_READ :: int where "SSL_ERROR_WANT_READ \<equiv> 2"
abbreviation SSL_ERROR_WANT_WRITE :: int where "SSL_ERROR_WANT_WRITE \<equiv> 3"

datatype recv_answer = Received bytes | Recv_failed int
datatype send_answer = Sent nat | Send_failed int

definition ssl_errno :: "int \<Rightarrow> int" where
  "ssl_errno ssl_error =
     (if ssl_error \<noteq> SSL_ERROR_WANT_READ \<or> ssl_error \<noteq> SSL_ERROR_WANT_WRITE then EAGAIN else ssl_error)"

definition socket_recv :: "recv_answer \<Rightarrow> int \<Rightarrow> socket \<Rightarrow> int \<times> bytes \<times> int" where
  "socket_recv answer oper_errno s =
     (if m_ssl_instance s \<and> \<not> m_ssl_accepted s then (-1, [], oper_errno)
      else (case answer of
              Received data \<Rightarrow> (int (length data), data, oper_errno)
            | Recv_failed e \<Rightarrow> (-1, [], if m_ssl_instance s then ssl_errno e else e)))"

definition socket_send :: "send_answer \<Rightarrow> int \<Rightarrow> socket \<Rightarrow> int \<times> int" where
  "socket_send answer oper_errno s =
     (if m_ssl_instance s \<and> \<not> m_ssl_accepted s then (-1, oper_errno)
      else (case answer of
              Sent n \<Rightarrow> (int n, oper_errno)
            | Send_failed e \<Rightarrow> (-1, if m_ssl_instance s then ssl_errno e else e)))"

abbreviation O_NONBLOCK :: int where "O_NONBLOCK \<equiv> 2048"

definition set_non_blocking :: "os \<Rightarrow> socket \<Rightarrow> sys_call list \<times> bool" where
  "set_non_blocking os s =
     (let getfl = Sys_getfl (m_sockfd s); flags = os getfl in
      if flags < 0 then ([getfl], False)
      else (let setfl = Sys_setfl (m_sockfd s) (flags OR O_NONBLOCK) in ([getfl, setfl], \<not> os setfl < 0)))"

definition set_blocking :: "os \<Rightarrow> socket \<Rightarrow> sys_call list \<times> bool" where
  "set_blocking os s =
     (let getfl = Sys_getfl (m_sockfd s); flags = os getfl in
      if flags < 0 then ([getfl], False)
      else (let setfl = Sys_setfl (m_sockfd s) (flags AND NOT O_NONBLOCK) in ([getfl, setfl], \<not> os setfl < 0)))"

definition setsockopt :: "os \<Rightarrow> sockopt \<Rightarrow> socket \<Rightarrow> sys_call list \<times> bool" where
  "setsockopt os opt s = (let c = Sys_setsockopt (m_sockfd s) opt in ([c], \<not> os c < 0))"

definition set_send_buffer :: "os \<Rightarrow> nat \<Rightarrow> socket \<Rightarrow> sys_call list \<times> bool" where
  "set_send_buffer os n = setsockopt os (SO_SNDBUF n)"

definition set_recv_buffer :: "os \<Rightarrow> nat \<Rightarrow> socket \<Rightarrow> sys_call list \<times> bool" where
  "set_recv_buffer os n = setsockopt os (SO_RCVBUF (to_int32 n))"

definition set_linger :: "os \<Rightarrow> bool \<Rightarrow> nat \<Rightarrow> socket \<Rightarrow> sys_call list \<times> bool" where
  "set_linger os active seconds = setsockopt os (SO_LINGER (if active then 1 else 0) (to_int32 seconds))"

definition set_keep_alive :: "os \<Rightarrow> socket \<Rightarrow> sys_call list \<times> bool" where
  "set_keep_alive os = setsockopt os (SO_KEEPALIVE 1)"

definition set_reuse_addr :: "os \<Rightarrow> socket \<Rightarrow> sys_call list \<times> bool" where
  "set_reuse_addr os = setsockopt os (SO_REUSEADDR 1)"

definition set_reuse_port :: "os \<Rightarrow> socket \<Rightarrow> sys_call list \<times> bool" where
  "set_reuse_port os = setsockopt os (SO_REUSEPORT 1)"

definition create_tcp_socket :: "os \<Rightarrow> string \<Rightarrow> sys_call list \<times> int" where
  "create_tcp_socket os ip = ([Sys_socket (is_ipv6 ip)], os (Sys_socket (is_ipv6 ip)))"

text \<open>The constructors ignore the results of the calls after the first.\<close>

definition client_socket_new :: "os \<Rightarrow> string \<Rightarrow> int \<Rightarrow> sys_call list \<times> socket" where
  "client_socket_new os ip port =
     (case create_tcp_socket os ip of
        (calls, fd) \<Rightarrow>
          let s = (socket_new ip port)\<lparr>m_sockfd := fd\<rparr> in
          if fd < 0 then (calls, s) else (calls @ fst (socket_connect os ip port s), s))"

definition server_socket_new :: "os \<Rightarrow> string \<Rightarrow> int \<Rightarrow> int \<Rightarrow> sys_call list \<times> socket" where
  "server_socket_new os ip port max_connections =
     (case create_tcp_socket os ip of
        (calls, fd) \<Rightarrow>
          let s = (socket_new ip port)\<lparr>m_sockfd := fd\<rparr> in
          if fd < 0 then (calls, s)
          else (calls @ fst (set_non_blocking os s) @ fst (set_recv_buffer os (10 * 1024) s) @
                fst (set_send_buffer os (10 * 1024) s) @ fst (set_linger os True 0 s) @
                fst (set_keep_alive os s) @ fst (set_reuse_addr os s) @ fst (set_reuse_port os s) @
                fst (socket_bind os ip port s) @ fst (socket_listen os max_connections s), s))"

subsection \<open>Properties\<close>

lemma ssl_errno_EAGAIN [simp]: "ssl_errno e = EAGAIN"
  by (simp add: ssl_errno_def)

text \<open>Closing releases every resource once: the close callback and the end of the OpenSSL session
  come before the descriptor is closed, and a second close makes no call at all and changes
  nothing.\<close>

lemma socket_close_once:
  assumes "socket_close s = (calls, s')"
  shows "distinct calls \<and> (Sys_close (m_sockfd s) \<in> set calls \<longleftrightarrow> 0 < m_sockfd s) \<and>
    (0 < m_sockfd s \<longrightarrow> last calls = Sys_close (m_sockfd s)) \<and> socket_close s' = ([], s')"
  using assms by (auto simp: socket_close_def split: if_splits)

text \<open>On an OpenSSL socket every failure of a read or a write is reported as \<open>EAGAIN\<close>, also
  the fatal ones: the condition that should single out \<open>WANT_READ\<close> and \<open>WANT_WRITE\<close> is
  always true. A broken TLS session is therefore never told apart from one that has no data yet.\<close>

lemma ssl_failures_look_like_eagain:
  assumes "m_ssl_instance s" "m_ssl_accepted s"
  shows "socket_recv (Recv_failed e) en s = (-1, [], EAGAIN) \<and> socket_send (Send_failed e) en s = (-1, EAGAIN)"
  using assms by (simp add: socket_recv_def socket_send_def)

text \<open>A listening socket whose descriptor could be created is non-blocking and has address and port
  reuse requested before it is bound, and is bound before it listens, for IPv4 and for IPv6
  addresses.\<close>

lemma server_socket_call_order:
  assumes "0 \<le> os (Sys_socket (is_ipv6 ip))" "0 \<le> os (Sys_getfl (os (Sys_socket (is_ipv6 ip))))"
    "is_ipv6 ip \<Longrightarrow> 0 < os (Sys_inet_pton ip)"
  shows "\<exists>fd before after. fst (server_socket_new os ip port n) =
           before @ Sys_bind fd (is_ipv6 ip) ip (port16 port) # after \<and>
           fd = os (Sys_socket (is_ipv6 ip)) \<and> after = [Sys_listen fd n] \<and>
           {Sys_setfl fd (os (Sys_getfl fd) OR O_NONBLOCK), Sys_setsockopt fd (SO_REUSEADDR 1),
            Sys_setsockopt fd (SO_REUSEPORT 1)} \<subseteq> set before"
proof -
  let ?fd = "os (Sys_socket (is_ipv6 ip))"
  define before where "before =
    [Sys_socket (is_ipv6 ip), Sys_getfl ?fd, Sys_setfl ?fd (os (Sys_getfl ?fd) OR O_NONBLOCK),
     Sys_setsockopt ?fd (SO_RCVBUF (to_int32 (10 * 1024))), Sys_setsockopt ?fd (SO_SNDBUF (10 * 1024)),
     Sys_setsockopt ?fd (SO_LINGER 1 (to_int32 0)), Sys_setsockopt ?fd (SO_KEEPALIVE 1),
     Sys_setsockopt ?fd (SO_REUSEADDR 1), Sys_setsockopt ?fd (SO_REUSEPORT 1)] @
    (if is_ipv6 ip then [Sys_inet_pton ip] else [])"
  have "fst (server_socket_new os ip port n) =
      before @ Sys_bind ?fd (is_ipv6 ip) ip (port16 port) # [Sys_listen ?fd n]"
    using assms
    by (auto simp: server_socket_new_def create_tcp_socket_def set_non_blocking_def set_recv_buffer_def
        set_send_buffer_def set_linger_def set_keep_alive_def set_reuse_addr_def set_reuse_port_def
        setsockopt_def socket_bind_def socket_listen_def before_def Let_def)
  moreover have "{Sys_setfl ?fd (os (Sys_getfl ?fd) OR O_NONBLOCK), Sys_setsockopt ?fd (SO_REUSEADDR 1),
      Sys_setsockopt ?fd (SO_REUSEPORT 1)} \<subseteq> set before"
    by (simp add: before_def)
  ultimately show ?thesis by blast
qed

end
