(* ===== verification/Tk_Connection.thy ===== *)
theory Tk_Connection
  imports Tk_Buffer Tk_Socket
begin

section \<open>Connections (src/connection)\<close>

text \<open>
  A connection couples a socket with the buffers of a protocol. \<open>stream_connection\<close> and
  \<open>websocket_connection\<close> have the same transfer code, \<open>sock2buf\<close> and \<open>buf2sock\<close>;
  here both are extensions of \<open>buffered_connection\<close>, on which it is defined once.

  The answers of the socket to the reads or writes of one call come as a list, consumed from the
  front. A method that waits for one more answer than the list has, or that dereferences a null
  socket pointer, has no result: \<open>None\<close>. The callback that an application may install with
  \<open>write_end_callback\<close> is a parameter \<open>callback\<close>; \<open>None\<close> as its result is an
  exception. Where the code calls \<open>socket_handler::do_task\<close>, the definitions return the
  request, which the socket handler executes. The type of socket pointers is a parameter of the base
  record: these connections hold the socket object, the event loop below holds its slot.

  The theory shows that received bytes are never lost, that the outgoing bytes leave in order as
  long as the kernel takes every write completely, that the transfer never gives up for lack of
  buffer space, and what goes wrong when the kernel takes a part of a write.
\<close>

record 's connection =
  close_flag :: bool
  c_gid :: nat
  socket_ptr :: "'s option"

datatype request = Do_task nat bool bool

definition connection_new :: "'s option \<Rightarrow> 's connection" where
  "connection_new sp = \<lparr>close_flag = False, c_gid = 0, socket_ptr = sp\<rparr>"

definition mark_close :: "(('s, 'c) connection_scheme \<Rightarrow> request list \<times> ('s, 'c) connection_scheme) \<Rightarrow>
    ('s, 'c) connection_scheme \<Rightarrow> request list \<times> ('s, 'c) connection_scheme" where
  "mark_close on_mark_close c =
     (if close_flag c then ([], c) else on_mark_close (c\<lparr>close_flag := True\<rparr>))"

definition connection_reuse :: "('s, 'c) connection_scheme \<Rightarrow> ('s, 'c) connection_scheme" where
  "connection_reuse c = c\<lparr>close_flag := False, socket_ptr := None, c_gid := 0\<rparr>"

record buffered_connection = "socket connection" +
  m_send_buffer :: buffer
  m_recv_buffer :: buffer
  m_wating_send_pack :: buffer
  write_end_callback :: bool
  should_send_idx :: int
  should_send_size :: int
  buf2sock_inner_buffer :: bytes
  sock2buf_inner_buffer :: bytes
  sock2buf_data_len :: int

definition inner_buffer_size :: nat where
  "inner_buffer_size = 1024000"

definition mem_buffer_size_max :: nat where
  "mem_buffer_size_max = inner_buffer_size + 2"

type_synonym stream_connection = buffered_connection

definition stream_connection_new :: "socket option \<Rightarrow> stream_connection" where
  "stream_connection_new sp =
     \<lparr>close_flag = False, c_gid = 0, socket_ptr = sp, m_send_buffer = buffer_new, m_recv_buffer = buffer_new,
      m_wating_send_pack = buffer_new, write_end_callback = False, should_send_idx = -1, should_send_size = 0,
      buf2sock_inner_buffer = replicate inner_buffer_size 0,
      sock2buf_inner_buffer = replicate inner_buffer_size 0, sock2buf_data_len = 0\<rparr>"

subsection \<open>From the socket to the receive buffer\<close>

fun sock2buf_loop :: "heap \<Rightarrow> recv_answer list \<Rightarrow> 'c buffered_connection_scheme \<Rightarrow>
    (bool \<times> bool \<times> 'c buffered_connection_scheme \<times> recv_answer list) option" where
  "sock2buf_loop heap [] c = None"
| "sock2buf_loop heap (a # as) c =
     (case socket_ptr c of None \<Rightarrow> None | Some s \<Rightarrow>
      (case socket_recv a 0 s of (len, data, oper_errno) \<Rightarrow>
       let c = c\<lparr>sock2buf_inner_buffer := store_at 0 data (sock2buf_inner_buffer c),
                 sock2buf_data_len := len\<rparr> in
       if len = -1 \<and> oper_errno = EAGAIN then Some (True, False, c, as)
       else if len = -1 \<and> oper_errno = EINTR then sock2buf_loop heap as c
       else if 0 < len
       then (case buffer_write heap (Some (take (nat len) (sock2buf_inner_buffer c))) (m_recv_buffer c) of
               (Inl e, b) \<Rightarrow> Some (False, True, c\<lparr>m_recv_buffer := b\<rparr>, as)
             | (Inr _, b) \<Rightarrow> sock2buf_loop heap as (c\<lparr>m_recv_buffer := b, sock2buf_data_len := 0\<rparr>))
       else Some (False, False, c, as)))"

text \<open>The result is the returned bool, \<open>need_task\<close>, the connection and the unused answers.\<close>

definition sock2buf :: "heap \<Rightarrow> recv_answer list \<Rightarrow> 'c buffered_connection_scheme \<Rightarrow>
    (bool \<times> bool \<times> 'c buffered_connection_scheme \<times> recv_answer list) option" where
  "sock2buf heap as c =
     (if 0 < sock2buf_data_len c
      then (case buffer_write heap (Some (take (nat (sock2buf_data_len c)) (sock2buf_inner_buffer c))) (m_recv_buffer c) of
              (Inl e, b) \<Rightarrow> Some (False, False, c\<lparr>m_recv_buffer := b\<rparr>, as)
            | (Inr _, b) \<Rightarrow> sock2buf_loop heap as (c\<lparr>m_recv_buffer := b, sock2buf_data_len := 0\<rparr>))
      else sock2buf_loop heap as c)"

subsection \<open>From the send buffers to the socket\<close>

text \<open>
  One iteration of the loop at \<open>tag2\<close>, which fills \<open>buf2sock_inner_buffer\<close>:
  \<open>Fill_again\<close> goes back to the test of the loop, \<open>Fill_return ret closed\<close> leaves
  \<open>buf2sock\<close>, \<open>Fill_throw\<close> lets an exception out.
\<close>

datatype fill = Fill_again | Fill_return bool bool | Fill_throw exn

definition fill_step :: "heap \<Rightarrow> ('c buffered_connection_scheme \<Rightarrow> bool option \<times> 'c buffered_connection_scheme) \<Rightarrow>
    'c buffered_connection_scheme \<Rightarrow> fill \<times> 'c buffered_connection_scheme" where
  "fill_step heap callback c =
     (case buffer_read heap False inner_buffer_size (m_send_buffer c) of
        (Inl e, sb) \<Rightarrow> (Fill_return False True, c\<lparr>m_send_buffer := sb\<rparr>)
      | (Inr data, sb) \<Rightarrow>
          let c = c\<lparr>m_send_buffer := sb, buf2sock_inner_buffer := store_at 0 data (buf2sock_inner_buffer c)\<rparr> in
          if 0 < length data
          then (Fill_again, c\<lparr>should_send_idx := 0, should_send_size := int (length data)\<rparr>)
          else (case blank_space heap (m_send_buffer c) of
            (Inl e, sb) \<Rightarrow> (Fill_throw e, c\<lparr>m_send_buffer := sb\<rparr>)
          | (Inr blank, sb) \<Rightarrow>
              let c = c\<lparr>m_send_buffer := sb\<rparr> in
              if 0 < blank
              then (case buffer_read heap False (if inner_buffer_size \<le> blank then inner_buffer_size else blank)
                          (m_wating_send_pack c) of
                (Inl e, wb) \<Rightarrow> (Fill_return False True, c\<lparr>m_wating_send_pack := wb\<rparr>)
              | (Inr temp, wb) \<Rightarrow>
                  let c = c\<lparr>m_wating_send_pack := wb\<rparr> in
                  if 0 < length temp
                  then (case buffer_write heap (Some temp) (m_send_buffer c) of
                    (Inl e, sb) \<Rightarrow> (Fill_return False True, c\<lparr>m_send_buffer := sb\<rparr>)
                  | (Inr writed_len, sb) \<Rightarrow>
                      (if writed_len \<noteq> length temp then Fill_return False True else Fill_again,
                       c\<lparr>m_send_buffer := sb\<rparr>))
                  else if write_end_callback c
                  then (case callback c of
                    (None, c) \<Rightarrow> (Fill_return False False, c)
                  | (Some bret, c) \<Rightarrow> (Fill_return bret False, c))
                  else (Fill_return False False, c))
              else (Fill_return False True, c)))"

partial_function (option) fill_loop :: "heap \<Rightarrow>
    ('c buffered_connection_scheme \<Rightarrow> bool option \<times> 'c buffered_connection_scheme) \<Rightarrow>
    'c buffered_connection_scheme \<Rightarrow> (fill \<times> 'c buffered_connection_scheme) option" where
  "fill_loop heap callback c =
     (if should_send_idx c < 0
      then (case fill_step heap callback c of
              (r, c') \<Rightarrow> if r = Fill_again then fill_loop heap callback c' else Some (r, c'))
      else Some (Fill_again, c))"

text \<open>
  The outer loop. The result is the outcome (an exception, or the returned bool and
  \<open>closed\<close>), the connection, the trace of the successful writes (the bytes offered and how
  many of them the kernel took) and the unused answers.
\<close>

fun buf2sock :: "heap \<Rightarrow> ('c buffered_connection_scheme \<Rightarrow> bool option \<times> 'c buffered_connection_scheme) \<Rightarrow>
    send_answer list \<Rightarrow> 'c buffered_connection_scheme \<Rightarrow>
    ((bool \<times> bool) res \<times> 'c buffered_connection_scheme \<times> (bytes \<times> nat) list \<times> send_answer list) option" where
  "buf2sock heap callback as c =
     (case fill_loop heap callback c of
        None \<Rightarrow> None
      | Some (Fill_throw e, c) \<Rightarrow> Some (Inl e, c, [], as)
      | Some (Fill_return ret closed, c) \<Rightarrow> Some (Inr (ret, closed), c, [], as)
      | Some (Fill_again, c) \<Rightarrow>
          (case socket_ptr c of None \<Rightarrow> None | Some s \<Rightarrow>
           (case as of [] \<Rightarrow> None | a # as' \<Rightarrow>
            (let buf = take (nat (should_send_size c)) (drop (nat (should_send_idx c)) (buf2sock_inner_buffer c));
                 (len, oper_errno) = socket_send a 0 s in
             if len < 0
             then (if oper_errno = EINTR then buf2sock heap callback as' c
                   else if oper_errno = EAGAIN then Some (Inr (True, False), c, [], as')
                   else Some (Inr (False, True), c, [], as'))
             else if len = 0 then Some (Inr (True, True), c, [], as')
             else (let c = c\<lparr>should_send_size := should_send_size c - len\<rparr>;
                       c = (if should_send_size c \<le> 0 then c\<lparr>should_send_size := 0, should_send_idx := -1\<rparr> else c)
                   in map_option (\<lambda>(r, c, trace, rest). (r, c, (buf, nat len) # trace, rest))
                        (buf2sock heap callback as' c))))))"

declare buf2sock.simps [simp del]

subsection \<open>Sending, closing, reuse\<close>

definition buffered_send :: "heap \<Rightarrow> bytes option \<Rightarrow> 'c buffered_connection_scheme \<Rightarrow>
    bool \<times> request list \<times> 'c buffered_connection_scheme" where
  "buffered_send heap data c =
     (case data of
        None \<Rightarrow> (False, [], c)
      | Some bs \<Rightarrow>
          (case buffer_write heap (Some bs) (m_wating_send_pack c) of
             (Inl e, b) \<Rightarrow> (False, [], c\<lparr>m_wating_send_pack := b\<rparr>)
           | (Inr len, b) \<Rightarrow>
               if 0 < c_gid c then (True, [Do_task (c_gid c) False True], c\<lparr>m_wating_send_pack := b\<rparr>)
               else (False, [], c\<lparr>m_wating_send_pack := b\<rparr>)))"

definition buffered_on_mark_close :: "'c buffered_connection_scheme \<Rightarrow> request list \<times> 'c buffered_connection_scheme" where
  "buffered_on_mark_close c =
     ([Do_task (c_gid c) False True],
      c\<lparr>m_send_buffer := buffer_clear (m_send_buffer c), m_recv_buffer := buffer_clear (m_recv_buffer c),
        m_wating_send_pack := buffer_clear (m_wating_send_pack c)\<rparr>)"

definition buffered_reuse :: "'c buffered_connection_scheme \<Rightarrow> 'c buffered_connection_scheme" where
  "buffered_reuse c =
     (connection_reuse c)
       \<lparr>m_send_buffer := set_limit_max (mem_buffer_size_max) (buffer_clear (m_send_buffer c)),
        m_recv_buffer := set_limit_max (mem_buffer_size_max) (buffer_clear (m_recv_buffer c)),
        m_wating_send_pack := set_limit_max (mem_buffer_size_max) (buffer_clear (m_wating_send_pack c)),
        should_send_idx := -1, should_send_size := 0, sock2buf_data_len := 0, write_end_callback := False\<rparr>"

subsection \<open>WebSocket connections\<close>

text \<open>
  The HTTP parser is third-party code: its state is a type parameter \<open>'p\<close>, the state after
  \<open>http_parser_init\<close> a parameter.
\<close>

type_synonym headers = "string \<Rightarrow> string list option"

definition add_header :: "string \<Rightarrow> string \<Rightarrow> headers \<Rightarrow> headers" where
  "add_header key val headers =
     (let headers = (if headers key = None then headers(key \<mapsto> []) else headers) in
      headers(key \<mapsto> the (headers key) @ [val]))"

record 'p websocket_connection = buffered_connection +
  url :: string
  method_name :: string
  sec_websocket_key :: string
  sec_websocket_version :: string
  headers :: headers
  recv_array :: bytes
  buffer_used_len :: int
  buffer_start_use :: int
  head_filed_tmp :: string
  http_processed :: bool
  everything_end :: bool
  is_upgrade :: bool
  destory_callback :: bool
  m_http_parser :: 'p
  connected :: bool

definition http_buffer_size :: nat where
  "http_buffer_size = 20230"

definition websocket_connection_new :: "'p \<Rightarrow> socket option \<Rightarrow> 'p websocket_connection" where
  "websocket_connection_new parser_init sp =
     buffered_connection.extend (stream_connection_new sp)
       (websocket_connection.fields [] [] [] [] (\<lambda>_. None) (replicate http_buffer_size 0) 0 0 [] False False False
          False parser_init False)"

definition websocket_add_header :: "string \<Rightarrow> string \<Rightarrow> 'p websocket_connection \<Rightarrow> 'p websocket_connection" where
  "websocket_add_header key val c = c\<lparr>headers := add_header key val (headers c)\<rparr>"

definition websocket_sock2buf :: "heap \<Rightarrow> recv_answer list \<Rightarrow> 'p websocket_connection \<Rightarrow>
    (bool \<times> bool \<times> 'p websocket_connection \<times> recv_answer list) option" where
  "websocket_sock2buf = sock2buf"

definition websocket_buf2sock :: "heap \<Rightarrow> ('p websocket_connection \<Rightarrow> bool option \<times> 'p websocket_connection) \<Rightarrow>
    send_answer list \<Rightarrow> 'p websocket_connection \<Rightarrow>
    ((bool \<times> bool) res \<times> 'p websocket_connection \<times> (bytes \<times> nat) list \<times> send_answer list) option" where
  "websocket_buf2sock = buf2sock"

definition websocket_send :: "heap \<Rightarrow> bytes option \<Rightarrow> bool \<Rightarrow> 'p websocket_connection \<Rightarrow>
    bool \<times> request list \<times> 'p websocket_connection" where
  "websocket_send heap data check_connected c =
     (if check_connected \<and> \<not> connected c then (False, [], c) else buffered_send heap data c)"

definition websocket_on_mark_close :: "'p websocket_connection \<Rightarrow> request list \<times> 'p websocket_connection" where
  "websocket_on_mark_close c = buffered_on_mark_close c"

definition websocket_reuse :: "'p \<Rightarrow> 'p websocket_connection \<Rightarrow> 'p websocket_connection" where
  "websocket_reuse parser_init c =
     (buffered_reuse c)
       \<lparr>url := [], method_name := [], sec_websocket_key := [], sec_websocket_version := [],
        headers := (\<lambda>_. None), buffer_used_len := 0, buffer_start_use := 0, head_filed_tmp := [],
        http_processed := False, everything_end := False, is_upgrade := False, destory_callback := False,
        m_http_parser := parser_init, connected := False\<rparr>"

subsection \<open>HTTP connections\<close>

record 'p http_connection = "socket connection" +
  h_url :: string
  h_method :: string
  h_headers :: headers
  body :: bytes
  chunks :: "bytes list"
  h_data :: bytes
  h_send_buffer :: buffer
  h_array :: bytes
  h_used_len :: int
  h_start_use :: int
  head_field_tmp :: string
  process_callback :: bool
  h_write_end_callback :: bool
  h_destory_callback :: bool
  h_ptr :: bool
  h_parser :: 'p
  recv_end :: bool
  process_end :: bool
  response_end :: bool
  h_everything_end :: bool

definition http_connection_new :: "'p \<Rightarrow> socket option \<Rightarrow> 'p http_connection" where
  "http_connection_new parser_init sp =
     \<lparr>close_flag = False, c_gid = 0, socket_ptr = sp, h_url = [], h_method = [], h_headers = (\<lambda>_. None),
      body = [], chunks = [], h_data = [], h_send_buffer = buffer_new,
      h_array = replicate http_buffer_size 0, h_used_len = 0, h_start_use = 0, head_field_tmp = [],
      process_callback = False, h_write_end_callback = False, h_destory_callback = False, h_ptr = False,
      h_parser = parser_init, recv_end = False, process_end = False, response_end = False,
      h_everything_end = False\<rparr>"

definition http_add_header :: "string \<Rightarrow> string \<Rightarrow> 'p http_connection \<Rightarrow> 'p http_connection" where
  "http_add_header key val c = c\<lparr>h_headers := add_header key val (h_headers c)\<rparr>"

definition add_to_body :: "bytes option \<Rightarrow> 'p http_connection \<Rightarrow> 'p http_connection" where
  "add_to_body data c =
     (case data of None \<Rightarrow> c | Some bs \<Rightarrow> if bs = [] then c else c\<lparr>body := body c @ bs\<rparr>)"

definition add_chunk :: "bytes \<Rightarrow> 'p http_connection \<Rightarrow> 'p http_connection" where
  "add_chunk chunk c = c\<lparr>chunks := chunks c @ [chunk]\<rparr>"

definition http_on_mark_close :: "'p http_connection \<Rightarrow> request list \<times> 'p http_connection" where
  "http_on_mark_close c =
     ([Do_task (c_gid c) False True], c\<lparr>h_send_buffer := buffer_clear (h_send_buffer c)\<rparr>)"

definition http_reuse :: "'p \<Rightarrow> 'p http_connection \<Rightarrow> 'p http_connection" where
  "http_reuse parser_init c =
     (connection_reuse c)
       \<lparr>h_url := [], h_method := [], h_headers := (\<lambda>_. None), body := [], chunks := [], h_data := [],
        h_send_buffer := set_limit_max 1048576 (buffer_clear (h_send_buffer c)),
        h_used_len := 0, h_start_use := 0, head_field_tmp := [], process_callback := False,
        h_write_end_callback := False, h_destory_callback := False, h_ptr := False,
        recv_end := False, process_end := False, response_end := False, h_everything_end := False,
        h_parser := parser_init\<rparr>"

subsection \<open>Invariant and the bytes in flight\<close>

text \<open>
  \<open>conn_ok\<close>: every buffer is well formed and has the limit of \<open>reuse\<close>; the send buffer
  has never grown past the size of one transfer; the arrays keep their size; a transfer in progress
  starts at index 0.
\<close>

definition conn_ok :: "'c buffered_connection_scheme \<Rightarrow> bool" where
  "conn_ok c \<longleftrightarrow>
     buffer_inv (m_send_buffer c) \<and> buffer_inv (m_recv_buffer c) \<and> buffer_inv (m_wating_send_pack c) \<and>
     m_limit_max (m_send_buffer c) = mem_buffer_size_max \<and>
     m_limit_max (m_recv_buffer c) = mem_buffer_size_max \<and>
     m_limit_max (m_wating_send_pack c) = mem_buffer_size_max \<and>
     m_size (m_send_buffer c) \<le> inner_buffer_size \<and>
     length (buf2sock_inner_buffer c) = inner_buffer_size \<and>
     length (sock2buf_inner_buffer c) = inner_buffer_size \<and>
     (should_send_idx c = -1 \<and> should_send_size c = 0 \<or>
      should_send_idx c = 0 \<and> 0 < should_send_size c \<and> should_send_size c \<le> int inner_buffer_size) \<and>
     sock2buf_data_len c \<le> int inner_buffer_size"

definition in_transfer :: "'c buffered_connection_scheme \<Rightarrow> bytes" where
  "in_transfer c = (if should_send_idx c < 0 then [] else take (nat (should_send_size c)) (buf2sock_inner_buffer c))"

definition outgoing :: "'c buffered_connection_scheme \<Rightarrow> bytes" where
  "outgoing c = in_transfer c @ content (m_send_buffer c) @ content (m_wating_send_pack c)"

definition incoming :: "'c buffered_connection_scheme \<Rightarrow> bytes" where
  "incoming c = content (m_recv_buffer c) @ take (nat (sock2buf_data_len c)) (sock2buf_inner_buffer c)"

lemma set_limit_after_clear:
  "m_limit_max (set_limit_max (mem_buffer_size_max) (buffer_clear b)) = mem_buffer_size_max"
  "m_size (set_limit_max n (buffer_clear b)) = 0"
  "buffer_inv (set_limit_max (mem_buffer_size_max) (buffer_clear b))"
  by (simp_all add: set_limit_max_def buffer_clear_def mem_buffer_size_max_def inner_buffer_size_def
      buffer_inv_def mem_def)

lemma buffered_reuse_ok:
  assumes "length (buf2sock_inner_buffer c) = inner_buffer_size" "length (sock2buf_inner_buffer c) = inner_buffer_size"
  shows "conn_ok (buffered_reuse c)" "outgoing (buffered_reuse c) = []" "incoming (buffered_reuse c) = []"
  using assms
  by (simp_all add: conn_ok_def buffered_reuse_def connection_reuse_def set_limit_after_clear outgoing_def
      in_transfer_def incoming_def)

subsection \<open>Receiving loses nothing\<close>

definition received :: "socket \<Rightarrow> recv_answer \<Rightarrow> bytes" where
  "received s a = fst (snd (socket_recv a 0 s))"

fun recv_fits :: "recv_answer \<Rightarrow> bool" where
  "recv_fits (Received data) \<longleftrightarrow> length data \<le> inner_buffer_size"
| "recv_fits (Recv_failed e) \<longleftrightarrow> True"

lemma socket_recv_cases:
  obtains (failed) e where "socket_recv a 0 s = (-1, [], e)" "received s a = []"
    | (data) data where "socket_recv a 0 s = (int (length data), data, 0)" "received s a = data" "a = Received data"
proof (cases "m_ssl_instance s \<and> \<not> m_ssl_accepted s")
  case True
  then show ?thesis by (intro failed [of 0]) (simp_all add: socket_recv_def received_def)
next
  case False
  show ?thesis
  proof (cases a)
    case (Received d)
    with False show ?thesis by (intro data [of d]) (auto simp: socket_recv_def received_def)
  next
    case (Recv_failed e)
    with False show ?thesis
      by (intro failed [of "if m_ssl_instance s then ssl_errno e else e"]) (auto simp: socket_recv_def received_def)
  qed
qed

lemma inner_pos [simp]: "0 < inner_buffer_size"
  by (simp add: inner_buffer_size_def)

lemma conn_ok_size: "conn_ok c \<Longrightarrow> max (m_size (m_send_buffer c)) 1024 \<le> inner_buffer_size"
  by (simp add: conn_ok_def) (simp add: inner_buffer_size_def)

lemma take_store_at_front [simp]: "take (length data) (store_at 0 data xs) = data"
  by (simp add: store_at_def)

lemma fits_object_limit: "length data \<le> inner_buffer_size \<Longrightarrow> length data < object_limit"
  by (simp add: inner_buffer_size_def)

context total_heap
begin

lemma sock2buf_loop_lossless:
  assumes "conn_ok c" "sock2buf_data_len c \<le> 0" "list_all recv_fits as" "socket_ptr c = Some s"
    "sock2buf_loop heap as c = Some (ret, need, c', rest)"
  shows "\<exists>used. as = used @ rest \<and> conn_ok c' \<and>
      incoming c' = incoming c @ concat (map (received s) used)"
  using assms
proof (induction as arbitrary: c)
  case (Cons a as)
  have fits: "recv_fits a" "list_all recv_fits as" using Cons.prems(3) by simp_all
  show ?case
  proof (cases rule: socket_recv_cases [of a s])
    case (failed e)
    let ?c = "c\<lparr>sock2buf_inner_buffer := store_at 0 [] (sock2buf_inner_buffer c), sock2buf_data_len := -1\<rparr>"
    have c: "conn_ok ?c" "incoming ?c = incoming c"
      using Cons.prems(1,2) by (auto simp: conn_ok_def incoming_def store_at_def)
    show ?thesis
    proof (cases "e = EINTR")
      case True
      then have "sock2buf_loop heap as ?c = Some (ret, need, c', rest)"
        using Cons.prems(4,5) failed by simp
      with Cons.IH [OF c(1)] fits Cons.prems(4) obtain used where
        "as = used @ rest" "conn_ok c'" "incoming c' = incoming ?c @ concat (map (received s) used)"
        by auto
      then show ?thesis using c failed by (intro exI [of _ "a # used"]) simp
    next
      case False
      then have "c' = ?c" "rest = as"
        using Cons.prems(4,5) failed by (auto simp: Let_def split: if_splits)
      then show ?thesis using c failed by (intro exI [of _ "[a]"]) simp
    qed
  next
    case (data data)
    let ?c = "c\<lparr>sock2buf_inner_buffer := store_at 0 data (sock2buf_inner_buffer c), sock2buf_data_len := int (length data)\<rparr>"
    have len: "length data \<le> inner_buffer_size" using fits data by simp
    have c: "conn_ok ?c" "incoming ?c = incoming c @ data"
      using Cons.prems(1,2) len by (auto simp: conn_ok_def incoming_def)
    show ?thesis
    proof (cases "data = []")
      case True
      then have "c' = ?c" "rest = as" using Cons.prems(4,5) data by auto
      then show ?thesis using c data by (intro exI [of _ "[a]"]) simp
    next
      case False
      have inv: "buffer_inv (m_recv_buffer ?c)" using c(1) by (simp add: conn_ok_def)
      from inv False fits_object_limit [OF len] show ?thesis
      proof (cases rule: put_cases)
        case (accepted b)
        let ?d = "?c\<lparr>m_recv_buffer := b, sock2buf_data_len := 0\<rparr>"
        have d: "conn_ok ?d" "incoming ?d = incoming ?c"
          using c(1) accepted len by (auto simp: conn_ok_def incoming_def)
        have "sock2buf_loop heap as ?d = Some (ret, need, c', rest)"
          using Cons.prems(4,5) data False accepted len Cons.prems(1)
          by (simp add: conn_ok_def)
        with Cons.IH [OF d(1)] fits Cons.prems(4) obtain used where
          "as = used @ rest" "conn_ok c'" "incoming c' = incoming ?d @ concat (map (received s) used)"
          by auto
        then show ?thesis using c d data by (intro exI [of _ "a # used"]) simp
      next
        case (rejected e b)
        have "c' = ?c\<lparr>m_recv_buffer := b\<rparr>" "rest = as"
          using Cons.prems(4,5) data False rejected len Cons.prems(1)
          by (simp_all add: conn_ok_def)
        then show ?thesis using c rejected data
          by (intro exI [of _ "[a]"]) (simp add: conn_ok_def incoming_def)
      qed
    qed
  qed
qed simp

lemma sock2buf_lossless:
  assumes c: "conn_ok c" "list_all recv_fits as" "socket_ptr c = Some s"
    and run: "sock2buf heap as c = Some (ret, need, c', rest)"
  shows "\<exists>used. as = used @ rest \<and> conn_ok c' \<and>
      incoming c' = incoming c @ concat (map (received s) used)"
proof (cases "0 < sock2buf_data_len c")
  case False
  then show ?thesis
    using sock2buf_loop_lossless [OF c(1) _ c(2,3)] run by (simp add: sock2buf_def)
next
  case True
  let ?data = "take (nat (sock2buf_data_len c)) (sock2buf_inner_buffer c)"
  have data: "?data \<noteq> []" "length ?data \<le> inner_buffer_size" "buffer_inv (m_recv_buffer c)"
    using True c(1) by (auto simp: conn_ok_def inner_buffer_size_def)
  from data(3,1) fits_object_limit [OF data(2)] show ?thesis
  proof (cases rule: put_cases)
    case (accepted b)
    let ?d = "c\<lparr>m_recv_buffer := b, sock2buf_data_len := 0\<rparr>"
    have "conn_ok ?d" "incoming ?d = incoming c"
      using accepted c(1) by (auto simp: conn_ok_def incoming_def)
    then show ?thesis
      using sock2buf_loop_lossless [of ?d as s ret need c' rest] True run accepted c(2,3)
      by (simp add: sock2buf_def)
  next
    case (rejected e b)
    then have "c' = c\<lparr>m_recv_buffer := b\<rparr>" "rest = as"
      using run True by (simp_all add: sock2buf_def)
    then show ?thesis
      using rejected c(1) by (simp add: conn_ok_def incoming_def)
  qed
qed

end

subsection \<open>Sending in order\<close>

lemma in_transfer_idle: "should_send_idx c < 0 \<Longrightarrow> in_transfer c = []"
  by (simp add: in_transfer_def)

context total_heap
begin

lemma fill_from_send_buffer:
  assumes ok: "conn_ok c" and idle: "should_send_idx c < 0" and ne: "content (m_send_buffer c) \<noteq> []"
  obtains c' where "fill_step heap callback c = (Fill_again, c')" "conn_ok c'" "outgoing c' = outgoing c"
    "should_send_idx c' = 0" "socket_ptr c' = socket_ptr c" "write_end_callback c' = write_end_callback c"
proof -
  let ?data = "take inner_buffer_size (content (m_send_buffer c))"
  have inv: "buffer_inv (m_send_buffer c)" using ok by (simp add: conn_ok_def)
  obtain b where b: "buffer_read heap False inner_buffer_size (m_send_buffer c) = (Inr ?data, b)" "buffer_inv b"
      "content b = drop inner_buffer_size (content (m_send_buffer c))" "m_limit_max b = m_limit_max (m_send_buffer c)"
    by (rule buffer_read_ok [OF total inv inner_pos])
  have size: "m_size b \<le> inner_buffer_size"
    using buffer_read_size [of heap False inner_buffer_size "m_send_buffer c"] b(1) conn_ok_size [OF ok]
    by (auto simp: le_max_iff_disj)
  let ?c = "c\<lparr>m_send_buffer := b, buf2sock_inner_buffer := store_at 0 ?data (buf2sock_inner_buffer c),
              should_send_idx := 0, should_send_size := int (length ?data)\<rparr>"
  have data: "0 < length ?data" "length ?data \<le> inner_buffer_size" using ne by (simp_all add: inner_buffer_size_def)
  have "fill_step heap callback c = (Fill_again, ?c)"
    using b(1) data(1) by (simp add: fill_step_def)
  moreover have "conn_ok ?c"
    using ok b size data by (auto simp: conn_ok_def)
  moreover have "outgoing ?c = outgoing c"
    using b(3) idle take_store_at_front [of ?data "buf2sock_inner_buffer c"]
    by (simp add: outgoing_def in_transfer_def del: take_store_at_front)
  ultimately show ?thesis by (intro that [of ?c]) simp_all
qed

lemma send_buffer_read_empty:
  assumes ok: "conn_ok c" and empty: "content (m_send_buffer c) = []"
  obtains sb blank sb' where "buffer_read heap False inner_buffer_size (m_send_buffer c) = (Inr [], sb)"
    "blank_space heap sb = (Inr blank, sb')" "2 \<le> blank" "blank \<le> mem_buffer_size_max" "buffer_inv sb'"
    "content sb' = []" "m_limit_max sb' = mem_buffer_size_max" "m_size sb' \<le> inner_buffer_size"
proof -
  have inv: "buffer_inv (m_send_buffer c)" and limit: "m_limit_max (m_send_buffer c) = mem_buffer_size_max"
    using ok by (simp_all add: conn_ok_def)
  obtain sb where sb: "buffer_read heap False inner_buffer_size (m_send_buffer c) = (Inr [], sb)" "buffer_inv sb"
      "content sb = []" "m_limit_max sb = mem_buffer_size_max"
    using buffer_read_ok [OF total inv inner_pos] empty limit by auto
  have size: "m_size sb \<le> inner_buffer_size" "1024 \<le> inner_buffer_size"
    using buffer_read_size [of heap False inner_buffer_size "m_send_buffer c"] sb(1) conn_ok_size [OF ok]
    by (auto simp: le_max_iff_disj)
  obtain sb' where sb': "blank_space heap sb = (Inr (mem_buffer_size_max - m_write_ptr sb'), sb')" "ready sb'"
      "content sb' = []" "m_limit_max sb' = mem_buffer_size_max" "m_size sb' \<le> max (m_size sb) 1024"
    using blank_space_eq [OF total sb(2)] sb(3,4) by metis
  have "m_write_ptr sb' \<le> m_size sb'" using sb'(2) by (auto simp: ready_def buffer_inv_def)
  then have "2 \<le> mem_buffer_size_max - m_write_ptr sb'" "m_size sb' \<le> inner_buffer_size"
    using sb'(5) size by (simp_all add: mem_buffer_size_max_def)
  then show ?thesis using that sb(1) sb' by auto
qed

lemma fill_from_waiting_pack:
  assumes ok: "conn_ok c" and idle: "should_send_idx c < 0"
    and empty: "content (m_send_buffer c) = []" and ne: "content (m_wating_send_pack c) \<noteq> []"
  obtains c' where "fill_step heap callback c = (Fill_again, c')" "conn_ok c'" "outgoing c' = outgoing c"
    "should_send_idx c' < 0" "content (m_send_buffer c') \<noteq> []" "socket_ptr c' = socket_ptr c"
    "write_end_callback c' = write_end_callback c"
proof -
  obtain sb blank sb' where sb: "buffer_read heap False inner_buffer_size (m_send_buffer c) = (Inr [], sb)"
    "blank_space heap sb = (Inr blank, sb')" "2 \<le> blank" "blank \<le> mem_buffer_size_max" "buffer_inv sb'"
    "content sb' = []" "m_limit_max sb' = mem_buffer_size_max" "m_size sb' \<le> inner_buffer_size"
    using send_buffer_read_empty [OF ok empty] .
  let ?n = "if inner_buffer_size \<le> blank then inner_buffer_size else blank"
  let ?temp = "take ?n (content (m_wating_send_pack c))"
  have n: "0 < ?n" "?n \<le> inner_buffer_size" "?n \<le> mem_buffer_size_max" using sb(3,4) by auto
  have inv: "buffer_inv (m_wating_send_pack c)" using ok by (simp add: conn_ok_def)
  obtain wb where wb: "buffer_read heap False ?n (m_wating_send_pack c) = (Inr ?temp, wb)" "buffer_inv wb"
      "content wb = drop ?n (content (m_wating_send_pack c))" "m_limit_max wb = m_limit_max (m_wating_send_pack c)"
    by (rule buffer_read_ok [OF total inv n(1)])
  have temp: "?temp \<noteq> []" "length ?temp \<le> inner_buffer_size" "length ?temp \<le> mem_buffer_size_max"
    using ne n by auto
  obtain sb3 where sb3: "buffer_write heap (Some ?temp) sb' = (Inr (length ?temp), sb3)" "buffer_inv sb3"
      "content sb3 = ?temp" "m_limit_max sb3 = mem_buffer_size_max"
    using put_ok [OF sb(5) temp(1)] sb(6,7) temp(3) by auto
  have size: "m_size sb3 \<le> inner_buffer_size"
    using buffer_write_size [OF total sb(5) fits_object_limit [OF temp(2)]] sb3(1) sb(6,8) temp(2) conn_ok_size [OF ok]
    by (auto simp: le_max_iff_disj simp del: length_take)
  let ?c = "c\<lparr>m_send_buffer := sb3, buf2sock_inner_buffer := store_at 0 [] (buf2sock_inner_buffer c), m_wating_send_pack := wb\<rparr>"
  have "fill_step heap callback c = (Fill_again, ?c)"
    using sb(1,2,3) wb(1) sb3(1) temp(1) unfolding fill_step_def by (simp add: Let_def)
  moreover have "conn_ok ?c"
    using ok sb3 wb size by (auto simp: conn_ok_def store_at_def)
  moreover have "outgoing ?c = outgoing c"
    using idle sb3(3) wb(3) empty by (simp add: outgoing_def in_transfer_def)
  ultimately show ?thesis using that [of ?c] idle sb3(3) temp(1) by simp
qed

lemma fill_nothing:
  assumes ok: "conn_ok c" and idle: "should_send_idx c < 0" and none: "\<not> write_end_callback c"
    and empty: "content (m_send_buffer c) = []" "content (m_wating_send_pack c) = []"
  obtains c' where "fill_step heap callback c = (Fill_return False False, c')" "conn_ok c'" "outgoing c' = []"
    "socket_ptr c' = socket_ptr c" "write_end_callback c' = write_end_callback c"
proof -
  obtain sb blank sb' where sb: "buffer_read heap False inner_buffer_size (m_send_buffer c) = (Inr [], sb)"
    "blank_space heap sb = (Inr blank, sb')" "2 \<le> blank" "blank \<le> mem_buffer_size_max" "buffer_inv sb'"
    "content sb' = []" "m_limit_max sb' = mem_buffer_size_max" "m_size sb' \<le> inner_buffer_size"
    using send_buffer_read_empty [OF ok empty(1)] .
  let ?n = "if inner_buffer_size \<le> blank then inner_buffer_size else blank"
  have n: "0 < ?n" using sb(3) by auto
  have inv: "buffer_inv (m_wating_send_pack c)" using ok by (simp add: conn_ok_def)
  obtain wb where wb: "buffer_read heap False ?n (m_wating_send_pack c) = (Inr [], wb)" "buffer_inv wb"
      "content wb = []" "m_limit_max wb = m_limit_max (m_wating_send_pack c)"
    using buffer_read_ok [OF total inv n] empty(2) by auto
  let ?c = "c\<lparr>m_send_buffer := sb', buf2sock_inner_buffer := store_at 0 [] (buf2sock_inner_buffer c), m_wating_send_pack := wb\<rparr>"
  have "fill_step heap callback c = (Fill_return False False, ?c)"
    using sb(1,2,3) wb(1) none unfolding fill_step_def by (simp add: Let_def)
  moreover have "conn_ok ?c"
    using ok sb wb by (auto simp: conn_ok_def store_at_def)
  moreover have "outgoing ?c = []"
    using idle sb(6) wb(3) by (simp add: outgoing_def in_transfer_def)
  ultimately show ?thesis using that [of ?c] by simp
qed

lemma fill_loop_ok:
  assumes ok: "conn_ok c" and none: "\<not> write_end_callback c"
  obtains r c' where "fill_loop heap callback c = Some (r, c')" "conn_ok c'" "outgoing c' = outgoing c"
    "socket_ptr c' = socket_ptr c" "\<not> write_end_callback c'"
    "r = Fill_again \<and> should_send_idx c' = 0 \<or> r = Fill_return False False \<and> outgoing c = []"
proof (cases "should_send_idx c < 0")
  case False
  moreover from False have "should_send_idx c = 0" using ok by (auto simp: conn_ok_def)
  ultimately show ?thesis
    using that [of Fill_again c] ok none by (simp add: fill_loop.simps)
next
  case idle: True
  note result = that
  have transfer: ?thesis if d: "conn_ok d" "should_send_idx d < 0" "content (m_send_buffer d) \<noteq> []"
      "outgoing d = outgoing c" "socket_ptr d = socket_ptr c" "\<not> write_end_callback d"
      "fill_loop heap callback c = fill_loop heap callback d" for d
  proof -
    obtain e where "fill_step heap callback d = (Fill_again, e)" "conn_ok e" "outgoing e = outgoing d"
      "should_send_idx e = 0" "socket_ptr e = socket_ptr d" "write_end_callback e = write_end_callback d"
      using fill_from_send_buffer [OF d(1-3)] .
    with d show ?thesis
      by (intro result [of Fill_again e]) (simp_all add: fill_loop.simps [of heap callback d] fill_loop.simps [of heap callback e])
  qed
  show ?thesis
  proof (cases "content (m_send_buffer c) = []")
    case False
    with transfer [of c] ok idle none show ?thesis by simp
  next
    case empty: True
    show ?thesis
    proof (cases "content (m_wating_send_pack c) = []")
      case True
      obtain d where d: "fill_step heap callback c = (Fill_return False False, d)" "conn_ok d" "outgoing d = []"
        "socket_ptr d = socket_ptr c" "write_end_callback d = write_end_callback c"
        using fill_nothing [OF ok idle none empty True] .
      moreover have "outgoing c = []"
        using empty True idle by (simp add: outgoing_def in_transfer_def)
      ultimately show ?thesis
        using idle none by (intro that [of "Fill_return False False" d]) (simp_all add: fill_loop.simps)
    next
      case False
      obtain d where d: "fill_step heap callback c = (Fill_again, d)" "conn_ok d" "outgoing d = outgoing c"
        "should_send_idx d < 0" "content (m_send_buffer d) \<noteq> []" "socket_ptr d = socket_ptr c"
        "write_end_callback d = write_end_callback c"
        using fill_from_waiting_pack [OF ok idle empty False] .
      then show ?thesis
        using transfer [of d] idle none by (simp add: fill_loop.simps [of heap callback c])
    qed
  qed
qed

end

definition blocked :: "socket \<Rightarrow> send_answer \<Rightarrow> bool" where
  "blocked s a \<longleftrightarrow> socket_send a 0 s = (-1, EAGAIN)"

definition fatal :: "socket \<Rightarrow> send_answer \<Rightarrow> bool" where
  "fatal s a \<longleftrightarrow> (case socket_send a 0 s of (len, e) \<Rightarrow> len = 0 \<or> len < 0 \<and> e \<noteq> EINTR \<and> e \<noteq> EAGAIN)"

definition interrupted :: "socket \<Rightarrow> send_answer \<Rightarrow> bool" where
  "interrupted s a \<longleftrightarrow> (case socket_send a 0 s of (len, e) \<Rightarrow> len < 0 \<and> e = EINTR)"

text \<open>The answers end the loop when \<open>k\<close> bytes are queued: one of them is a refusal or a failure, or there are as
  many as bytes, not counting interruptions.\<close>

definition enough_answers :: "socket \<Rightarrow> nat \<Rightarrow> send_answer list \<Rightarrow> bool" where
  "enough_answers s k as \<longleftrightarrow> (\<exists>a \<in> set as. blocked s a \<or> fatal s a) \<or> k \<le> length (filter (\<lambda>a. \<not> interrupted s a) as)"

definition complete :: "(bytes \<times> nat) list \<Rightarrow> bool" where
  "complete trace \<longleftrightarrow> list_all (\<lambda>(offered, taken). taken = length offered) trace"

definition wire :: "(bytes \<times> nat) list \<Rightarrow> bytes" where
  "wire trace = concat (map (\<lambda>(offered, taken). take taken offered) trace)"

lemma socket_send_range:
  assumes "socket_send a 0 s = (len, e)"
  shows "len = -1 \<or> 0 \<le> len"
  using assms by (auto simp: socket_send_def split: if_splits send_answer.splits)

definition after_send :: "int \<Rightarrow> 'c buffered_connection_scheme \<Rightarrow> 'c buffered_connection_scheme" where
  "after_send len c =
     (let c = c\<lparr>should_send_size := should_send_size c - len\<rparr> in
      if should_send_size c \<le> 0 then c\<lparr>should_send_size := 0, should_send_idx := -1\<rparr> else c)"

lemma after_send_ok:
  assumes "conn_ok c" "should_send_idx c = 0" "0 < len"
  shows "conn_ok (after_send len c)" "socket_ptr (after_send len c) = socket_ptr c"
    "write_end_callback (after_send len c) = write_end_callback c"
    "nat len = length (in_transfer c) \<Longrightarrow> in_transfer c @ outgoing (after_send len c) = outgoing c"
  using assms by (auto simp: conn_ok_def after_send_def Let_def outgoing_def in_transfer_def)

lemma after_send_shrinks:
  assumes "conn_ok c" "should_send_idx c = 0" "0 < len"
  shows "length (outgoing (after_send len c)) < length (outgoing c)"
  using assms by (auto simp: conn_ok_def after_send_def Let_def outgoing_def in_transfer_def)

context total_heap
begin

lemma buf2sock_run:
  assumes "conn_ok c" "\<not> write_end_callback c" "socket_ptr c = Some s"
    "buf2sock heap callback as c = Some (r, c', trace, rest)"
  shows "conn_ok c' \<and> (complete trace \<longrightarrow> wire trace @ outgoing c' = outgoing c) \<and>
    (case r of Inl e \<Rightarrow> False
     | Inr (ret, closed) \<Rightarrow>
         if closed then \<exists>used a. as = used @ a # rest \<and> fatal s a
         else if ret then \<exists>used a. as = used @ a # rest \<and> blocked s a
         else outgoing c' = [])"
  using assms
proof (induction as arbitrary: c r trace)
  case (Nil c r trace)
  obtain f d where d: "fill_loop heap callback c = Some (f, d)" "conn_ok d" "outgoing d = outgoing c"
    "socket_ptr d = socket_ptr c" "\<not> write_end_callback d"
    "f = Fill_again \<and> should_send_idx d = 0 \<or> f = Fill_return False False \<and> outgoing c = []"
    using fill_loop_ok [OF Nil(1,2)] .
  with Nil(3,4) show ?case
    by (auto simp: buf2sock.simps complete_def wire_def)
next
  case (Cons a as c r trace)
  obtain f d where d: "fill_loop heap callback c = Some (f, d)" "conn_ok d" "outgoing d = outgoing c"
    "socket_ptr d = socket_ptr c" "\<not> write_end_callback d"
    "f = Fill_again \<and> should_send_idx d = 0 \<or> f = Fill_return False False \<and> outgoing c = []"
    using fill_loop_ok [OF Cons.prems(1,2)] .
  obtain len e where snd: "socket_send a 0 s = (len, e)" by fastforce
  show ?case
  proof (cases "f = Fill_again")
    case False
    with d Cons.prems(3,4) show ?thesis
      by (auto simp: buf2sock.simps complete_def wire_def)
  next
    case f: True
    then have idx: "should_send_idx d = 0" using d(6) by simp
    have run: "buf2sock heap callback (a # as) c =
       (if len < 0
        then (if e = EINTR then buf2sock heap callback as d
              else if e = EAGAIN then Some (Inr (True, False), d, [], as)
              else Some (Inr (False, True), d, [], as))
        else if len = 0 then Some (Inr (True, True), d, [], as)
        else map_option (\<lambda>(r, c, trace, rest). (r, c, (in_transfer d, nat len) # trace, rest))
               (buf2sock heap callback as (after_send len d)))"
      using d(1,4) f idx snd Cons.prems(3)
      by (subst buf2sock.simps) (simp add: Let_def after_send_def in_transfer_def)
    consider (sent) "0 < len" | (retry) "len = -1" "e = EINTR"
      | (stop) "len = 0 \<or> len = -1 \<and> e \<noteq> EINTR"
      using socket_send_range [OF snd] by linarith
    then show ?thesis
    proof cases
      case sent
      note after = after_send_ok [OF d(2) idx sent]
      obtain trace' where t: "buf2sock heap callback as (after_send len d) = Some (r, c', trace', rest)"
        "trace = (in_transfer d, nat len) # trace'"
        using Cons.prems(4) run sent by auto
      have "\<not> write_end_callback (after_send len d)" "socket_ptr (after_send len d) = Some s"
        using after(2,3) d(4,5) Cons.prems(3) by simp_all
      from Cons.IH [OF after(1) this t(1)] have IH:
        "conn_ok c'" "complete trace' \<longrightarrow> wire trace' @ outgoing c' = outgoing (after_send len d)"
        "case r of Inl e \<Rightarrow> False | Inr (ret, closed) \<Rightarrow>
           if closed then \<exists>used a. as = used @ a # rest \<and> fatal s a
           else if ret then \<exists>used a. as = used @ a # rest \<and> blocked s a else outgoing c' = []"
        by auto
      have "complete trace \<longrightarrow> wire trace @ outgoing c' = outgoing c"
        using IH(2) after(4) d(3) t(2) by (auto simp: complete_def wire_def)
      then show ?thesis
        using IH(1,3) by (auto split: sum.splits if_splits intro: exI [of _ "a # _"])
    next
      case retry
      have t: "buf2sock heap callback as d = Some (r, c', trace, rest)"
        using Cons.prems(4) run retry by simp
      have "socket_ptr d = Some s" using d(4) Cons.prems(3) by simp
      from Cons.IH [OF d(2,5) this t] show ?thesis
        using d(3) by (auto split: sum.splits if_splits intro: exI [of _ "a # _"])
    next
      case stop
      then have "c' = d" "trace = []" "rest = as"
        "r = (if len = 0 then Inr (True, True) else if e = EAGAIN then Inr (True, False) else Inr (False, True))"
        using Cons.prems(4) run by (auto split: if_splits)
      then show ?thesis
        using stop snd d(2,3) by (auto simp: complete_def wire_def fatal_def blocked_def)
    qed
  qed
qed

lemma buf2sock_unfold:
  assumes "conn_ok c" "should_send_idx c = 0" "socket_ptr c = Some s" "socket_send a 0 s = (len, e)" "0 < len"
  shows "buf2sock heap callback (a # as) c =
    map_option (\<lambda>(r, d, trace, rest). (r, d, (in_transfer c, nat len) # trace, rest))
      (buf2sock heap callback as (after_send len c))"
  using assms
  by (subst buf2sock.simps) (simp add: fill_loop.simps Let_def after_send_def in_transfer_def)

lemma buf2sock_returns:
  assumes "conn_ok c" "\<not> write_end_callback c" "socket_ptr c = Some s" "enough_answers s (length (outgoing c)) as"
  shows "\<exists>x. buf2sock heap callback as c = Some x"
  using assms
proof (induction as arbitrary: c)
  case (Nil c)
  obtain f d where d: "fill_loop heap callback c = Some (f, d)" "conn_ok d" "outgoing d = outgoing c"
    "f = Fill_again \<and> should_send_idx d = 0 \<or> f = Fill_return False False \<and> outgoing c = []"
    using fill_loop_ok [OF Nil(1,2)] by metis
  have "outgoing c = []" using Nil(4) by (simp add: enough_answers_def)
  then have "f = Fill_return False False" using d(2-4) by (auto simp: outgoing_def in_transfer_def conn_ok_def)
  then show ?case using d(1) by (subst buf2sock.simps) simp
next
  case (Cons a as c)
  obtain f d where d: "fill_loop heap callback c = Some (f, d)" "conn_ok d" "outgoing d = outgoing c"
    "socket_ptr d = socket_ptr c" "\<not> write_end_callback d"
    "f = Fill_again \<and> should_send_idx d = 0 \<or> f = Fill_return False False \<and> outgoing c = []"
    using fill_loop_ok [OF Cons.prems(1,2)] .
  obtain len e where snd: "socket_send a 0 s = (len, e)" by fastforce
  have s: "socket_ptr d = Some s" using d(4) Cons.prems(3) by simp
  consider (sent) "f = Fill_again" "0 < len" | (retry) "f = Fill_again" "len = -1" "e = EINTR"
    | (stop) "f \<noteq> Fill_again \<or> len = 0 \<or> len = -1 \<and> e \<noteq> EINTR"
    using socket_send_range [OF snd] by linarith
  then show ?case
  proof cases
    case sent
    then have idx: "should_send_idx d = 0" using d(6) by auto
    note after = after_send_ok [OF d(2) idx sent(2)]
    have "enough_answers s (length (outgoing (after_send len d))) as"
      using Cons.prems(4) snd sent(2) after_send_shrinks [OF d(2) idx sent(2)] d(3)
      by (auto simp: enough_answers_def blocked_def fatal_def interrupted_def)
    then have "\<exists>x. buf2sock heap callback as (after_send len d) = Some x"
      using after d(5) s by (intro Cons.IH) simp_all
    then show ?thesis using sent d(1) snd s by (subst buf2sock.simps) (auto simp: Let_def after_send_def)
  next
    case retry
    then have "enough_answers s (length (outgoing d)) as"
      using Cons.prems(4) snd d(3) by (auto simp: enough_answers_def blocked_def fatal_def interrupted_def)
    then have "\<exists>x. buf2sock heap callback as d = Some x" using d(2,5) s by (intro Cons.IH) simp_all
    then show ?thesis using retry d(1) snd s by (subst buf2sock.simps) (auto simp: Let_def)
  next
    case stop
    then show ?thesis using d(1,6) snd s socket_send_range [OF snd] by (subst buf2sock.simps) (auto simp: Let_def)
  qed
qed

end

lemma sock2buf_loop_returns:
  fixes c :: "'c buffered_connection_scheme"
  assumes "socket_ptr c = Some s" "\<exists>a \<in> set as. socket_recv a 0 s = (-1, [], EAGAIN)"
  shows "\<exists>x. sock2buf_loop heap as c = Some x"
  using assms
proof (induction as arbitrary: c)
  case (Cons a as c)
  obtain len data e where r: "socket_recv a 0 s = (len, data, e)" by (metis prod_cases3)
  show ?case
  proof (cases "len = -1 \<and> e = EAGAIN")
    case True
    then show ?thesis using Cons.prems(1) r by (simp del: split_paired_Ex)
  next
    case False
    then have "\<exists>a \<in> set as. socket_recv a 0 s = (-1, [], EAGAIN)" using Cons.prems(2) r by auto
    then have IH: "\<exists>x. sock2buf_loop heap as d = Some x" if "socket_ptr d = Some s" for d :: "'c buffered_connection_scheme"
      using Cons.IH that by blast
    show ?thesis
      using False Cons.prems(1) r
      by (auto simp: Let_def simp del: split_paired_Ex intro!: IH split: sum.splits prod.splits)
  qed
qed simp

subsection \<open>Properties\<close>

text \<open>A connection of the pool after \<open>reuse\<close>, with a plain socket.\<close>

definition demo_connection :: stream_connection where
  "demo_connection = (buffered_reuse (stream_connection_new None))\<lparr>socket_ptr := Some (socket_new [] 0)\<rparr>"

lemma socket_ptr_irrelevant [simp]:
  "conn_ok (c\<lparr>socket_ptr := sp\<rparr>) = conn_ok c" "incoming (c\<lparr>socket_ptr := sp\<rparr>) = incoming c"
  "outgoing (c\<lparr>socket_ptr := sp\<rparr>) = outgoing c"
  by (simp_all add: conn_ok_def incoming_def outgoing_def in_transfer_def)

lemma demo_connection_ok:
  "conn_ok demo_connection" "socket_ptr demo_connection = Some (socket_new [] 0)" "\<not> write_end_callback demo_connection"
  "incoming demo_connection = []" "outgoing demo_connection = []" "should_send_idx demo_connection = -1"
proof -
  have "length (buf2sock_inner_buffer (stream_connection_new None)) = inner_buffer_size"
    "length (sock2buf_inner_buffer (stream_connection_new None)) = inner_buffer_size"
    by (simp_all add: stream_connection_new_def)
  note reused = buffered_reuse_ok [OF this]
  show "conn_ok demo_connection" "incoming demo_connection = []" "outgoing demo_connection = []"
    using reused by (simp_all add: demo_connection_def)
  show "socket_ptr demo_connection = Some (socket_new [] 0)" "\<not> write_end_callback demo_connection"
    "should_send_idx demo_connection = -1"
    by (simp_all add: demo_connection_def buffered_reuse_def)
qed

text \<open>The same connection in the middle of a transfer of four bytes.\<close>

definition demo_sending :: stream_connection where
  "demo_sending = demo_connection
     \<lparr>buf2sock_inner_buffer := store_at 0 [1, 2, 3, 4] (replicate inner_buffer_size 0),
      should_send_idx := 0, should_send_size := 4\<rparr>"

lemma demo_sending_ok:
  "conn_ok demo_sending" "socket_ptr demo_sending = Some (socket_new [] 0)" "\<not> write_end_callback demo_sending"
  "in_transfer demo_sending = [1, 2, 3, 4]" "should_send_idx demo_sending = 0" "should_send_size demo_sending = 4"
proof -
  have "length (store_at 0 [1, 2, 3, 4] (replicate inner_buffer_size (0 :: byte))) = inner_buffer_size"
    by (rule trans [OF length_store_at]) (simp_all add: inner_buffer_size_def)
  then show "conn_ok demo_sending"
    using demo_connection_ok(1) by (auto simp: demo_sending_def conn_ok_def inner_buffer_size_def)
  show "in_transfer demo_sending = [1, 2, 3, 4]"
    using take_store_at_front [of "[1, 2, 3, 4 :: byte]" "replicate inner_buffer_size 0"]
    by (simp add: in_transfer_def demo_sending_def numeral_nat)
qed (use demo_connection_ok in \<open>simp_all add: demo_sending_def\<close>)

lemma socket_send_plain: "socket_send (Sent n) 0 (socket_new ip port) = (int n, 0)"
  by (simp add: socket_send_def socket_new_def)

lemma demo_sending_run:
  assumes "0 < n"
  shows "buf2sock zero_heap callback (Sent n # as) demo_sending =
    map_option (\<lambda>(r, d, trace, rest). (r, d, ([1, 2, 3, 4], n) # trace, rest))
      (buf2sock zero_heap callback as (after_send (int n) demo_sending))"
  using zbuf.buf2sock_unfold [OF demo_sending_ok(1,5,2) socket_send_plain] assms demo_sending_ok(4) by simp

lemma after_demo_sending:
  "conn_ok (after_send 4 demo_sending)" "\<not> write_end_callback (after_send 4 demo_sending)"
  "outgoing (after_send 4 demo_sending) = []"
proof -
  note after = after_send_ok [OF demo_sending_ok(1,5), of 4]
  show "conn_ok (after_send 4 demo_sending)" "\<not> write_end_callback (after_send 4 demo_sending)"
    using after(1,3) demo_sending_ok(3) by simp_all
  have "outgoing demo_sending = [1, 2, 3, 4]"
    using demo_connection_ok(5) demo_sending_ok(4) by (simp add: outgoing_def demo_sending_def)
  then show "outgoing (after_send 4 demo_sending) = []"
    using after(4) demo_sending_ok(4) by simp
qed

lemma drained:
  assumes "conn_ok c" "\<not> write_end_callback c" "outgoing c = []"
  shows "\<exists>d. buf2sock zero_heap callback [] c = Some (Inr (False, False), d, [], [])"
proof -
  obtain r d where "fill_loop zero_heap callback c = Some (r, d)"
    "r = Fill_again \<and> should_send_idx d = 0 \<or> r = Fill_return False False \<and> outgoing c = []"
    "conn_ok d" "outgoing d = outgoing c"
    using zbuf.fill_loop_ok [OF assms(1,2)] by metis
  then show ?thesis
    using assms(3) by (subst buf2sock.simps) (auto simp: outgoing_def in_transfer_def conn_ok_def)
qed

text \<open>C20: \<open>sock2buf\<close> loses no byte, whatever the socket answers and however full the receive
  buffer is: what was readable, what was parked in the array of the connection and what the consumed
  answers delivered is, in this order, what is readable or parked afterwards, and the connection
  stays well formed.\<close>

theorem sock2buf_loses_nothing:
  assumes "heap_total heap" "conn_ok c" "list_all recv_fits as" "socket_ptr c = Some s"
    and "sock2buf heap as c = Some (ret, need, c', rest)"
  shows "\<exists>used. as = used @ rest \<and> conn_ok c' \<and> incoming c' = incoming c @ concat (map (received s) used)"
  by (rule total_heap.sock2buf_lossless [OF total_heap.intro, OF assms])

theorem sock2buf_loses_nothing_witness:
  "\<exists>ret need c' rest used.
     sock2buf zero_heap [Received [1, 2], Recv_failed EINTR, Received [3], Recv_failed EAGAIN] demo_connection =
       Some (ret, need, c', rest) \<and>
     [Received [1, 2], Recv_failed EINTR, Received [3], Recv_failed EAGAIN] = used @ rest \<and>
     incoming c' = incoming demo_connection @ concat (map (received (socket_new [] 0)) used)"
proof -
  let ?as = "[Received [1, 2], Recv_failed EINTR, Received [3], Recv_failed EAGAIN]"
  have "\<exists>x. sock2buf_loop zero_heap ?as demo_connection = Some x"
    by (rule sock2buf_loop_returns [OF demo_connection_ok(2)]) (simp add: socket_recv_def socket_new_def)
  moreover have "sock2buf_data_len demo_connection = 0"
    by (simp add: demo_connection_def buffered_reuse_def)
  ultimately obtain ret need c' rest where r: "sock2buf zero_heap ?as demo_connection = Some (ret, need, c', rest)"
    by (auto simp: sock2buf_def)
  have fits: "list_all recv_fits ?as" by (simp add: inner_buffer_size_def)
  from sock2buf_loses_nothing [OF heap_total_zero_heap demo_connection_ok(1) fits demo_connection_ok(2) r] r
  show ?thesis by blast
qed

text \<open>C15: \<open>buf2sock\<close> sends the outgoing bytes in order, each exactly once, as long as the socket
  takes every write completely: what went out followed by what is still queued (array, send buffer,
  waiting pack) is what was queued before, across retries, interruptions and refills.\<close>

theorem buf2sock_in_order:
  assumes "heap_total heap" "conn_ok c" "\<not> write_end_callback c" "socket_ptr c = Some s"
    and "buf2sock heap callback as c = Some (r, c', trace, rest)" "complete trace"
  shows "wire trace @ outgoing c' = outgoing c \<and> conn_ok c'"
  using total_heap.buf2sock_run [OF total_heap.intro, OF assms(1-5)] assms(6) by blast

theorem buf2sock_in_order_witness:
  "\<exists>r c' rest. buf2sock zero_heap (\<lambda>c. (None, c)) [Sent 4] demo_sending =
     Some (r, c', [([1, 2, 3, 4], 4)], rest) \<and> [1, 2, 3, 4] @ outgoing c' = outgoing demo_sending \<and> conn_ok c'"
proof -
  obtain r c' rest where run: "buf2sock zero_heap (\<lambda>c. (None, c)) [Sent 4] demo_sending =
      Some (r, c', [([1, 2, 3, 4], 4)], rest)"
    using demo_sending_run [of 4 "\<lambda>c. (None, c)" "[]"] drained [OF after_demo_sending, of "\<lambda>c. (None, c)"] by auto
  have "complete [([1 :: byte, 2, 3, 4], 4)]" by (simp add: complete_def)
  from buf2sock_in_order [OF heap_total_zero_heap demo_sending_ok(1,3,2) run this] run show ?thesis
    by (auto simp: wire_def)
qed

text \<open>\<open>buf2sock\<close> gives up on a connection only for what the socket answers: it lets no
  exception out, reports \<open>closed\<close> only after a fatal answer, asks to be called again only when
  the socket would block, and otherwise returns because nothing is left to send. In particular the
  send buffer always has room for the next piece of the waiting pack.\<close>

lemma buf2sock_outcome:
  assumes "heap_total heap" "conn_ok c" "\<not> write_end_callback c" "socket_ptr c = Some s"
    and "buf2sock heap callback as c = Some (r, c', trace, rest)"
  shows "\<exists>ret closed. r = Inr (ret, closed) \<and>
      (if closed then \<exists>used a. as = used @ a # rest \<and> fatal s a
       else if ret then \<exists>used a. as = used @ a # rest \<and> blocked s a
       else outgoing c' = [])"
proof -
  note run = total_heap.buf2sock_run [OF total_heap.intro, OF assms, THEN conjunct2, THEN conjunct2]
  obtain ret closed where r: "r = Inr (ret, closed)" 
  proof (cases r)
    case (Inr p)
    then show ?thesis using that by (cases p) simp
  qed (use run in simp)
  show ?thesis
    by (rule exI [of _ ret], rule exI [of _ closed], rule conjI [OF r]) (rule run [unfolded r sum.case prod.case])
qed

text \<open>C22: \<open>buf2sock\<close> returns, on a connection without a write-end callback. It needs at most as many answers of the
  socket as bytes are queued, not counting interruptions, also when every write takes a single byte and the queue is
  refilled and drained; a refusal or a failure ends it at once. Only a socket that answers
  \<open>EINTR\<close> for ever keeps it in its loop.\<close>

theorem buf2sock_terminates:
  assumes "heap_total heap" "conn_ok c" "\<not> write_end_callback c" "socket_ptr c = Some s"
    and "length (outgoing c) \<le> length (filter (\<lambda>a. \<not> interrupted s a) as) \<or> (\<exists>a \<in> set as. blocked s a \<or> fatal s a)"
  shows "\<exists>r c' trace rest. buf2sock heap callback as c = Some (r, c', trace, rest)"
proof -
  have "enough_answers s (length (outgoing c)) as" using assms(5) by (auto simp: enough_answers_def)
  from total_heap.buf2sock_returns [OF total_heap.intro, OF assms(1-4) this] show ?thesis by (metis prod_cases4)
qed

theorem buf2sock_terminates_witness:
  "\<exists>r c' trace rest. buf2sock zero_heap (\<lambda>c. (None, c)) [Sent 1, Send_failed EINTR, Sent 1, Sent 1, Sent 1] demo_sending =
     Some (r, c', trace, rest)"
proof -
  have "length (outgoing demo_sending) = 4"
    using demo_connection_ok(5) demo_sending_ok(4) by (simp add: outgoing_def demo_sending_def)
  moreover have "filter (\<lambda>a. \<not> interrupted (socket_new [] 0) a) [Sent 1, Send_failed EINTR, Sent 1, Sent 1, Sent 1] =
      [Sent 1, Sent 1, Sent 1, Sent 1]"
    by (simp add: interrupted_def socket_send_def socket_new_def)
  ultimately show ?thesis
    by (intro buf2sock_terminates [OF heap_total_zero_heap demo_sending_ok(1,3,2)]) simp
qed

text \<open>C32: when the socket takes only \<open>n\<close> of the bytes \<open>xs\<close> of a write, the next write offers the beginning of \<open>xs\<close> again
  instead of the rest, because \<open>should_send_idx\<close> is not advanced. When the socket then takes the \<open>m\<close> bytes that the
  code believes to be left, the array counts as sent: what leaves after that is what was queued behind it. So the peer receives the
  first \<open>n\<close> and then the first \<open>m\<close> bytes of \<open>xs\<close>, followed by the queue, and the end of \<open>xs\<close> never leaves.\<close>

theorem partial_send_repeats:
  assumes "heap_total heap" "conn_ok c" "\<not> write_end_callback c" "should_send_idx c = 0" "socket_ptr c = Some s"
    and "\<not> m_ssl_instance s" "0 < n" "0 < m" "in_transfer c = xs" "length xs = n + m"
    and "buf2sock heap callback (Sent n # Sent m # as) c = Some (r, c', trace, rest)"
  shows "\<exists>t. trace = (xs, n) # (take m xs, m) # t \<and>
    (complete t \<longrightarrow> wire trace @ outgoing c' = take n xs @ take m xs @ content (m_send_buffer c) @ content (m_wating_send_pack c))"
proof -
  have th: "total_heap heap" using assms(1) by (rule total_heap.intro)
  have snd: "socket_send (Sent k) 0 s = (int k, 0)" for k
    using assms(6) by (simp add: socket_send_def)
  have size: "should_send_size c = int (n + m)" using assms(2,4,9,10) by (auto simp: conn_ok_def in_transfer_def)
  let ?d = "after_send (int n) c"
  let ?e = "after_send (int m) ?d"
  have d: "conn_ok ?d" "socket_ptr ?d = Some s" "should_send_idx ?d = 0" "\<not> write_end_callback ?d"
    using after_send_ok [OF assms(2,4), of "int n"] assms(3-5,7,8) size by (simp_all add: after_send_def)
  have e: "conn_ok ?e" "socket_ptr ?e = Some s" "\<not> write_end_callback ?e"
    using after_send_ok [OF d(1,3), of "int m"] d(2,4) assms(8) by simp_all
  have queue: "outgoing ?e = content (m_send_buffer c) @ content (m_wating_send_pack c)"
    using assms(4,8) size by (simp add: after_send_def Let_def outgoing_def in_transfer_def)
  have second: "in_transfer ?d = take m xs"
    using assms(2,4,8,9) size by (auto simp: in_transfer_def after_send_def Let_def)
  have eq: "buf2sock heap callback (Sent n # Sent m # as) c =
    map_option (\<lambda>(r, d, trace, rest). (r, d, (xs, n) # (take m xs, m) # trace, rest)) (buf2sock heap callback as ?e)"
    using total_heap.buf2sock_unfold [OF th assms(2,4,5) snd, of n callback "Sent m # as"]
      total_heap.buf2sock_unfold [OF th d(1,3,2) snd, of m callback as] assms(7-9)
    by (simp add: option.map_comp o_def split_def second)
  obtain t where t: "buf2sock heap callback as ?e = Some (r, c', t, rest)" "trace = (xs, n) # (take m xs, m) # t"
    using assms(11) [unfolded eq] by auto
  have "complete t \<longrightarrow> wire t @ outgoing c' = outgoing ?e"
    using total_heap.buf2sock_run [OF th e(1,3,2) t(1)] by blast
  then show ?thesis using t(2) queue by (auto simp: wire_def)
qed

theorem partial_send_repeats_witness:
  "\<exists>r c' rest. buf2sock zero_heap (\<lambda>c. (None, c)) [Sent 3, Sent 1] demo_sending =
     Some (r, c', [([1, 2, 3, 4], 3), ([1], 1)], rest) \<and> wire [([1, 2, 3, 4], 3), ([1], 1)] @ outgoing c' = [1, 2, 3, 1]"
proof -
  let ?d = "after_send 3 demo_sending"
  let ?e = "after_send 1 ?d"
  have d: "conn_ok ?d" "socket_ptr ?d = Some (socket_new [] 0)" "should_send_idx ?d = 0" "\<not> write_end_callback ?d"
    using after_send_ok [OF demo_sending_ok(1,5), of 3] demo_sending_ok by (simp_all add: after_send_def)
  have queue: "content (m_send_buffer demo_sending) = []" "content (m_wating_send_pack demo_sending) = []"
    using demo_connection_ok(5) by (simp_all add: outgoing_def demo_sending_def)
  have e: "conn_ok ?e" "\<not> write_end_callback ?e" "outgoing ?e = []"
    using after_send_ok [OF d(1,3), of 1] d(4) queue demo_sending_ok(5,6)
    by (simp_all add: after_send_def Let_def outgoing_def in_transfer_def)
  have "\<exists>r c' rest. buf2sock zero_heap (\<lambda>c. (None, c)) [Sent 3, Sent 1] demo_sending =
      Some (r, c', [([1, 2, 3, 4], 3), (in_transfer ?d, 1)], rest)"
    using demo_sending_run [of 3 "\<lambda>c. (None, c)" "[Sent 1]"] drained [OF e, of "\<lambda>c. (None, c)"]
      zbuf.buf2sock_unfold [OF d(1,3,2) socket_send_plain, of 1 "\<lambda>c. (None, c)" "[]"] by auto
  then obtain r c' rest where run: "buf2sock zero_heap (\<lambda>c. (None, c)) [Sent 3, Sent 1] demo_sending =
      Some (r, c', [([1, 2, 3, 4], 3), (in_transfer ?d, 1)], rest)" by blast
  from partial_send_repeats [OF heap_total_zero_heap demo_sending_ok(1,3,5,2) _ _ _ demo_sending_ok(4) _ run] queue
  have "in_transfer ?d = [1]" "wire [([1, 2, 3, 4], 3), (in_transfer ?d, 1)] @ outgoing c' = [1, 2, 3, 1]"
    by (auto simp: socket_new_def complete_def)
  with run show ?thesis by auto
qed

text \<open>\<open>reuse\<close> makes a connection taken from the pool as good as new: whatever the previous
  owner left in it, it is well formed, open, without socket, owner or callback, and has no byte to
  send or to deliver.\<close>

lemma reuse_forgets_everything:
  assumes "length (buf2sock_inner_buffer c) = inner_buffer_size" "length (sock2buf_inner_buffer c) = inner_buffer_size"
  shows "conn_ok (buffered_reuse c) \<and> outgoing (buffered_reuse c) = [] \<and> incoming (buffered_reuse c) = [] \<and>
    \<not> close_flag (buffered_reuse c) \<and> c_gid (buffered_reuse c) = 0 \<and> socket_ptr (buffered_reuse c) = None \<and>
    \<not> write_end_callback (buffered_reuse c)"
  using buffered_reuse_ok [OF assms] by (simp add: buffered_reuse_def connection_reuse_def)

end
