(* ===== verification/Tk_Poller.thy ===== *)
theory Tk_Poller
  imports Tk_Prelude
begin

unbundle bit_operations_syntax

section \<open>The event poller (src/socket/even_poller.cpp)\<close>

text \<open>
  A thin layer over \<open>epoll\<close> that remembers, per descriptor, the events it registered. The
  kernel is a parameter \<open>ctl\<close>: the result and \<open>errno\<close> of \<open>epoll_ctl\<close> for an
  operation, a descriptor and an event mask. \<open>operator[]\<close> of the C++ map yields 0 for an
  unknown descriptor, so the map is a total function.
\<close>

abbreviation EPOLLIN :: u32 where "EPOLLIN \<equiv> 0x1"
abbreviation EPOLLOUT :: u32 where "EPOLLOUT \<equiv> 0x4"
abbreviation EPOLLERR :: u32 where "EPOLLERR \<equiv> 0x8"
abbreviation EPOLLHUP :: u32 where "EPOLLHUP \<equiv> 0x10"
abbreviation EPOLLRDHUP :: u32 where "EPOLLRDHUP \<equiv> 0x2000"
abbreviation EPOLLONESHOT :: u32 where "EPOLLONESHOT \<equiv> 0x40000000"
abbreviation EPOLLET :: u32 where "EPOLLET \<equiv> 0x80000000"
abbreviation EEXIST :: int where "EEXIST \<equiv> 17"

datatype epoll_op = EPOLL_CTL_ADD | EPOLL_CTL_MOD | EPOLL_CTL_DEL

type_synonym epoll_ctl = "epoll_op \<Rightarrow> int \<Rightarrow> u32 \<Rightarrow> int \<times> int"

record event_poller =
  m_epfd :: int
  ep_max_connections :: int
  m_events :: bool
  m_et :: bool
  m_map_fd_envets :: "int \<Rightarrow> u32"

definition event_poller_new :: "bool \<Rightarrow> event_poller" where
  "event_poller_new et =
     \<lparr>m_epfd = 0, ep_max_connections = 0, m_events = False, m_et = et, m_map_fd_envets = (\<lambda>_. 0)\<rparr>"

definition poller_create :: "int \<Rightarrow> int \<Rightarrow> event_poller \<Rightarrow> event_poller" where
  "poller_create epfd max_connections p =
     (let p = p\<lparr>ep_max_connections := max_connections, m_epfd := epfd\<rparr> in
      if epfd < 0 then p else p\<lparr>m_events := True\<rparr>)"

definition poller_ctrl :: "epoll_ctl \<Rightarrow> int \<Rightarrow> u32 \<Rightarrow> epoll_op \<Rightarrow> event_poller \<Rightarrow> int \<times> int" where
  "poller_ctrl ctl fd events op p = ctl op fd (if m_et p then events OR EPOLLET else events)"

definition poller_add :: "epoll_ctl \<Rightarrow> int \<Rightarrow> u32 \<Rightarrow> event_poller \<Rightarrow> (int \<times> int) \<times> event_poller" where
  "poller_add ctl fd events p =
     (let r = poller_ctrl ctl fd events EPOLL_CTL_ADD p in
      (r, if fst r = 0 then p\<lparr>m_map_fd_envets := (m_map_fd_envets p)(fd := events)\<rparr> else p))"

definition poller_mod :: "epoll_ctl \<Rightarrow> int \<Rightarrow> u32 \<Rightarrow> event_poller \<Rightarrow> (int \<times> int) \<times> event_poller" where
  "poller_mod ctl fd events p =
     (let r = poller_ctrl ctl fd events EPOLL_CTL_MOD p in
      (r, if fst r = 0 then p\<lparr>m_map_fd_envets := (m_map_fd_envets p)(fd := events)\<rparr> else p))"

definition poller_del :: "epoll_ctl \<Rightarrow> int \<Rightarrow> u32 \<Rightarrow> event_poller \<Rightarrow> (int \<times> int) \<times> event_poller" where
  "poller_del ctl fd events p =
     (let r = poller_ctrl ctl fd events EPOLL_CTL_DEL p in
      (r, if fst r = 0 then p\<lparr>m_map_fd_envets := (m_map_fd_envets p)(fd := 0)\<rparr> else p))"

definition get_events_by_fd :: "int \<Rightarrow> event_poller \<Rightarrow> u32" where
  "get_events_by_fd fd p = m_map_fd_envets p fd"

text \<open>
  What the manual of \<open>epoll_ctl\<close> promises about one interest list: \<open>ADD\<close> registers a new
  descriptor and fails with \<open>EEXIST\<close> on a known one, \<open>MOD\<close> and \<open>DEL\<close> succeed on a
  known one and fail on an unknown one. \<open>ctl_of reg\<close> is the kernel whose interest list holds the
  descriptors \<open>reg\<close>.
\<close>

definition epoll_documented :: "(int \<Rightarrow> bool) \<Rightarrow> epoll_ctl \<Rightarrow> bool" where
  "epoll_documented reg ctl \<longleftrightarrow>
     (\<forall>fd ev. ctl EPOLL_CTL_ADD fd ev = (if reg fd then (-1, EEXIST) else (0, 0)) \<and>
              (fst (ctl EPOLL_CTL_MOD fd ev) = 0 \<longleftrightarrow> reg fd) \<and> (fst (ctl EPOLL_CTL_DEL fd ev) = 0 \<longleftrightarrow> reg fd))"

definition kernel :: "(int \<Rightarrow> bool) \<Rightarrow> epoll_ctl" where
  "kernel reg op fd ev =
     (case op of EPOLL_CTL_ADD \<Rightarrow> if reg fd then (-1, EEXIST) else (0, 0)
      | _ \<Rightarrow> if reg fd then (0, 0) else (-1, 2))"

lemma epoll_documented_kernel: "epoll_documented reg (kernel reg)"
  by (simp add: epoll_documented_def kernel_def)

end
