(* ===== verification/Tk_Conn_Mgr.thy ===== *)
theory Tk_Conn_Mgr
  imports Tk_Pool
begin

section \<open>The connection manager (src/connection/connection_mgr.cpp)\<close>

text \<open>
  The manager maps the id (gid) of a connection to its socket and connection object. The map is cut
  into one \<open>safe_mapping\<close> per worker thread, chosen by \<open>gid % m_thread_size\<close>, each under
  its own mutex. The methods take callbacks, which run under the mutex; here a callback
  is a function on a state \<open>'s\<close> of the caller, an absent callback is \<open>None\<close>. With
  \<open>m_thread_size = 0\<close> the code divides by zero: the methods have no result.

  The theory shows that the sharded table is a plain map from ids to entries, that every entry is
  closed at most once, and that the object a caller gets from \<open>create\<close> has the class that
  \<open>release\<close> expects.
\<close>

datatype task_type = HTTP_TASK | STREAM_TASK | WEBSOCKET_TASK | NONE

type_synonym 'v safe_mapping = "nat \<Rightarrow> 'v option"

type_synonym ('v, 's) succ_callback = "(nat \<Rightarrow> 'v \<Rightarrow> 's \<Rightarrow> 's) option"
type_synonym 's failed_callback = "(nat \<Rightarrow> 's \<Rightarrow> 's) option"

definition safe_mapping_if_exist :: "nat \<Rightarrow> ('v, 's) succ_callback \<Rightarrow> 's failed_callback \<Rightarrow>
    'v safe_mapping \<Rightarrow> 's \<Rightarrow> 's" where
  "safe_mapping_if_exist gid succ failed m s =
     (case m gid of
        Some v \<Rightarrow> (case succ of None \<Rightarrow> s | Some f \<Rightarrow> f gid v s)
      | None \<Rightarrow> (case failed of None \<Rightarrow> s | Some f \<Rightarrow> f gid s))"

definition safe_mapping_remove :: "nat \<Rightarrow> ('v, 's) succ_callback \<Rightarrow> 's failed_callback \<Rightarrow>
    'v safe_mapping \<Rightarrow> 's \<Rightarrow> 'v safe_mapping \<times> 's" where
  "safe_mapping_remove gid succ failed m s =
     (case m gid of
        Some v \<Rightarrow> (m(gid := None), case succ of None \<Rightarrow> s | Some f \<Rightarrow> f gid v s)
      | None \<Rightarrow> (m, case failed of None \<Rightarrow> s | Some f \<Rightarrow> f gid s))"

definition safe_mapping_insert :: "nat \<Rightarrow> 'v \<Rightarrow> ('v, 's) succ_callback \<Rightarrow> ('v, 's) succ_callback \<Rightarrow>
    'v safe_mapping \<Rightarrow> 's \<Rightarrow> 'v safe_mapping \<times> 's" where
  "safe_mapping_insert gid v succ failed m s =
     (case m gid of
        Some _ \<Rightarrow> (m, case failed of None \<Rightarrow> s | Some f \<Rightarrow> f gid v s)
      | None \<Rightarrow> (m(gid \<mapsto> v), case succ of None \<Rightarrow> s | Some f \<Rightarrow> f gid v s))"

record 'v connection_mgr =
  m_safe_mapping :: "'v safe_mapping list"
  m_thread_size :: nat
  mgr_task_type :: task_type

definition connection_mgr_new :: "'v connection_mgr" where
  "connection_mgr_new = \<lparr>m_safe_mapping = [], m_thread_size = 0, mgr_task_type = NONE\<rparr>"

text \<open>The number of shards is a \<open>uint32_t\<close>; the caller's \<open>size_t\<close> is cut to it at the call.\<close>

definition connection_mgr_init :: "task_type \<Rightarrow> 32 word \<Rightarrow> 'v connection_mgr \<Rightarrow> int \<times> 'v connection_mgr" where
  "connection_mgr_init tt thread_size mgr =
     (0, mgr\<lparr>mgr_task_type := tt, m_thread_size := unat thread_size,
             m_safe_mapping := replicate (unat thread_size) (\<lambda>_. None)\<rparr>)"

definition mgr_if_exist :: "nat \<Rightarrow> ('v, 's) succ_callback \<Rightarrow> 's failed_callback \<Rightarrow>
    'v connection_mgr \<Rightarrow> 's \<Rightarrow> 's option" where
  "mgr_if_exist gid succ failed mgr s =
     (if m_thread_size mgr = 0 then None
      else Some (safe_mapping_if_exist gid succ failed (m_safe_mapping mgr ! (gid mod m_thread_size mgr)) s))"

definition mgr_insert :: "nat \<Rightarrow> 'v \<Rightarrow> ('v, 's) succ_callback \<Rightarrow> ('v, 's) succ_callback \<Rightarrow>
    'v connection_mgr \<Rightarrow> 's \<Rightarrow> ('v connection_mgr \<times> 's) option" where
  "mgr_insert gid v succ failed mgr s =
     (if m_thread_size mgr = 0 then None
      else (let hash_idx = gid mod m_thread_size mgr in
            case safe_mapping_insert gid v succ failed (m_safe_mapping mgr ! hash_idx) s of
              (m, s) \<Rightarrow> Some (mgr\<lparr>m_safe_mapping := (m_safe_mapping mgr)[hash_idx := m]\<rparr>, s)))"

text \<open>
  \<open>remove\<close> wraps the callback: the hook of the application runs first, and an exception of the
  hook (or the call of an absent callback) is swallowed, in which case the callback of the caller
  does not run. The hook is a parameter; it does nothing for an HTTP connection.
\<close>

definition mgr_remove :: "('v \<Rightarrow> 's \<Rightarrow> unit res \<times> 's) \<Rightarrow> nat \<Rightarrow> ('v, 's) succ_callback \<Rightarrow> 's failed_callback \<Rightarrow>
    'v connection_mgr \<Rightarrow> 's \<Rightarrow> ('v connection_mgr \<times> 's) option" where
  "mgr_remove on_close gid succ failed mgr s =
     (if m_thread_size mgr = 0 then None
      else (let hash_idx = gid mod m_thread_size mgr;
                wrapped = (\<lambda>key v s.
                  case on_close v s of
                    (Inl e, s) \<Rightarrow> s
                  | (Inr _, s) \<Rightarrow> (case succ of None \<Rightarrow> s | Some f \<Rightarrow> f key v s)) in
            case safe_mapping_remove gid (Some wrapped) failed (m_safe_mapping mgr ! hash_idx) s of
              (m, s) \<Rightarrow> Some (mgr\<lparr>m_safe_mapping := (m_safe_mapping mgr)[hash_idx := m]\<rparr>, s)))"

definition mgr_on_new_connection :: "('v \<Rightarrow> 's \<Rightarrow> unit res \<times> 's) \<Rightarrow> nat \<Rightarrow> 'v connection_mgr \<Rightarrow> 's \<Rightarrow> 's option" where
  "mgr_on_new_connection on_new gid mgr s = mgr_if_exist gid (Some (\<lambda>key v s. snd (on_new v s))) None mgr s"

definition mgr_mark_close :: "('v \<Rightarrow> 's \<Rightarrow> 's) \<Rightarrow> nat \<Rightarrow> 'v connection_mgr \<Rightarrow> 's \<Rightarrow> 's option" where
  "mgr_mark_close conn_mark_close gid mgr s = mgr_if_exist gid (Some (\<lambda>key v s. conn_mark_close v s)) None mgr s"

subsection \<open>Connection objects and their class\<close>

text \<open>
  A connection pointer is the class of the object (what \<open>typeid\<close> and \<open>dynamic_cast\<close> see)
  and its slot in the pool of that class; \<open>None\<close> is null.
\<close>

datatype conn_class = Http_connection | Stream_connection | Websocket_connection

type_synonym conn_ptr = "(conn_class \<times> nat) option"

definition has_class :: "conn_class \<Rightarrow> conn_ptr \<Rightarrow> bool" where
  "has_class k p = (case p of None \<Rightarrow> False | Some (c, _) \<Rightarrow> c = k)"

definition is_http :: "conn_ptr \<Rightarrow> bool" where "is_http = has_class Http_connection"
definition is_stream :: "conn_ptr \<Rightarrow> bool" where "is_stream = has_class Stream_connection"
definition is_websocket :: "conn_ptr \<Rightarrow> bool" where "is_websocket = has_class Websocket_connection"

definition convert_to_http :: "conn_ptr \<Rightarrow> nat option" where
  "convert_to_http p = (if is_http p then map_option snd p else None)"

definition convert_to_stream :: "conn_ptr \<Rightarrow> nat option" where
  "convert_to_stream p = (if is_stream p then map_option snd p else None)"

definition convert_to_websocket :: "conn_ptr \<Rightarrow> nat option" where
  "convert_to_websocket p = (if is_websocket p then map_option snd p else None)"

record conn_pools =
  http_pool :: pool
  stream_pool :: pool
  websocket_pool :: pool

definition conn_release :: "task_type \<Rightarrow> conn_ptr \<Rightarrow> conn_pools \<Rightarrow> conn_pools" where
  "conn_release tt p pools =
     (if p = None then pools
      else (case tt of
              STREAM_TASK \<Rightarrow> pools\<lparr>stream_pool := pool_release (convert_to_stream p) (stream_pool pools)\<rparr>
            | HTTP_TASK \<Rightarrow> pools\<lparr>http_pool := pool_release (convert_to_http p) (http_pool pools)\<rparr>
            | WEBSOCKET_TASK \<Rightarrow> pools\<lparr>websocket_pool := pool_release (convert_to_websocket p) (websocket_pool pools)\<rparr>
            | NONE \<Rightarrow> pools))"

fun as_conn :: "conn_class \<Rightarrow> alloc \<Rightarrow> conn_ptr" where
  "as_conn k (Allocated t) = Some (k, t)"
| "as_conn k _ = None"

text \<open>The connection pools are created non-blocking, so \<open>allocate\<close> never waits.\<close>

definition conn_create :: "(nat set \<Rightarrow> nat) \<Rightarrow> task_type \<Rightarrow> conn_pools \<Rightarrow> conn_ptr \<times> conn_pools" where
  "conn_create set_begin tt pools =
     (case tt of
        STREAM_TASK \<Rightarrow>
          (case pool_allocate set_begin (stream_pool pools) of
             (a, p) \<Rightarrow> (as_conn Stream_connection a, pools\<lparr>stream_pool := p\<rparr>))
      | HTTP_TASK \<Rightarrow>
          (case pool_allocate set_begin (http_pool pools) of
             (a, p) \<Rightarrow> (as_conn Http_connection a, pools\<lparr>http_pool := p\<rparr>))
      | WEBSOCKET_TASK \<Rightarrow>
          (case pool_allocate set_begin (websocket_pool pools) of
             (a, p) \<Rightarrow> (as_conn Websocket_connection a, pools\<lparr>websocket_pool := p\<rparr>))
      | NONE \<Rightarrow> (None, pools))"

subsection \<open>The table as seen by its clients\<close>

text \<open>
  The event loop inserts with a callback that raises a flag; the tasks look an entry up with a
  callback that copies it; a task that closes removes with a callback that releases it.
\<close>

definition mgr_add :: "nat \<Rightarrow> 'v \<Rightarrow> 'v connection_mgr \<Rightarrow> bool \<times> 'v connection_mgr" where
  "mgr_add gid v mgr =
     (case mgr_insert gid v (Some (\<lambda>_ _ _. True)) None mgr False of
        None \<Rightarrow> (False, mgr) | Some (mgr, res) \<Rightarrow> (res, mgr))"

definition mgr_find :: "nat \<Rightarrow> 'v connection_mgr \<Rightarrow> 'v option" where
  "mgr_find gid mgr = (case mgr_if_exist gid (Some (\<lambda>_ v _. Some v)) None mgr None of None \<Rightarrow> None | Some r \<Rightarrow> r)"

definition mgr_take :: "nat \<Rightarrow> 'v connection_mgr \<Rightarrow> 'v option \<times> 'v connection_mgr" where
  "mgr_take gid mgr =
     (case mgr_remove (\<lambda>_ s. (Inr (), s)) gid (Some (\<lambda>_ v _. Some v)) None mgr None of
        None \<Rightarrow> (None, mgr) | Some (mgr, r) \<Rightarrow> (r, mgr))"

text \<open>The contract: a finite map whose insertion refuses an id that is in use.\<close>

locale conn_table =
  fixes invar :: "'t \<Rightarrow> bool" and lookup :: "nat \<Rightarrow> 't \<Rightarrow> 'v option"
    and add :: "nat \<Rightarrow> 'v \<Rightarrow> 't \<Rightarrow> bool \<times> 't" and take_out :: "nat \<Rightarrow> 't \<Rightarrow> 'v option \<times> 't"
  assumes add_new: "invar t \<Longrightarrow> lookup k t = None \<Longrightarrow>
      \<exists>t'. add k v t = (True, t') \<and> invar t' \<and> (\<forall>i. lookup i t' = (if i = k then Some v else lookup i t))"
    and add_used: "invar t \<Longrightarrow> lookup k t \<noteq> None \<Longrightarrow>
      \<exists>t'. add k v t = (False, t') \<and> invar t' \<and> (\<forall>i. lookup i t' = lookup i t)"
    and take_out_lookup: "invar t \<Longrightarrow>
      \<exists>t'. take_out k t = (lookup k t, t') \<and> invar t' \<and>
           (\<forall>i. lookup i t' = (if i = k then None else lookup i t))"

datatype 'v table_op = Add nat 'v | Take nat

fun table_run :: "(nat \<Rightarrow> 'v \<Rightarrow> 't \<Rightarrow> bool \<times> 't) \<Rightarrow> (nat \<Rightarrow> 't \<Rightarrow> 'v option \<times> 't) \<Rightarrow>
    'v table_op list \<Rightarrow> 't \<Rightarrow> (nat \<times> 'v) list \<times> (nat \<times> 'v) list \<times> 't" where
  "table_run add take_out [] t = ([], [], t)"
| "table_run add take_out (Add k v # ops) t =
     (case add k v t of (ok, t') \<Rightarrow>
        (case table_run add take_out ops t' of
           (ins, outs, r) \<Rightarrow> (if ok then (k, v) # ins else ins, outs, r)))"
| "table_run add take_out (Take k # ops) t =
     (case take_out k t of (found, t') \<Rightarrow>
        (case table_run add take_out ops t' of
           (ins, outs, r) \<Rightarrow> (ins, (case found of None \<Rightarrow> outs | Some v \<Rightarrow> (k, v) # outs), r)))"

definition occurs :: "nat \<Rightarrow> (nat \<times> 'v) list \<Rightarrow> nat" where
  "occurs k xs = length (filter (\<lambda>(i, _). i = k) xs)"

lemma occurs_simps [simp]:
  "occurs k [] = 0" "occurs k ((i, v) # xs) = (if i = k then Suc (occurs k xs) else occurs k xs)"
  by (simp_all add: occurs_def)

context conn_table
begin

text \<open>Every entry that was put in is taken out at most once, and what is left is still there.\<close>

lemma run_balance:
  assumes "invar t" "table_run add take_out ops t = (ins, outs, t')"
  shows "invar t' \<and> occurs k outs + (if lookup k t' = None then 0 else 1) =
      occurs k ins + (if lookup k t = None then 0 else 1)"
  using assms
proof (induction ops arbitrary: t ins outs)
  case (Cons op ops)
  show ?case
  proof (cases op)
    case (Add i v)
    obtain t1 where t1: "add i v t = (lookup i t = None, t1)" "invar t1"
        "\<forall>j. lookup j t1 = (if j = i \<and> lookup i t = None then Some v else lookup j t)"
      using add_new [OF Cons.prems(1), of i v] add_used [OF Cons.prems(1), of i v]
      by (cases "lookup i t") auto
    obtain ins1 where r: "table_run add take_out ops t1 = (ins1, outs, t')"
        "ins = (if lookup i t = None then (i, v) # ins1 else ins1)"
      using Cons.prems(2) Add t1(1) by (auto split: prod.splits)
    from Cons.IH [OF t1(2) r(1)] show ?thesis
      using t1(3) r(2) by (cases "i = k"; cases "lookup i t") auto
  next
    case (Take i)
    obtain t1 where t1: "take_out i t = (lookup i t, t1)" "invar t1"
        "\<forall>j. lookup j t1 = (if j = i then None else lookup j t)"
      using take_out_lookup [OF Cons.prems(1), of i] by auto
    obtain outs1 where r: "table_run add take_out ops t1 = (ins, outs1, t')"
        "outs = (case lookup i t of None \<Rightarrow> outs1 | Some v \<Rightarrow> (i, v) # outs1)"
      using Cons.prems(2) Take t1(1) by (auto split: prod.splits)
    from Cons.IH [OF t1(2) r(1)] show ?thesis
      using t1(3) r(2) by (cases "i = k"; cases "lookup i t") auto
  qed
qed simp

end

subsection \<open>The sharded table meets the contract\<close>

definition mgr_ok :: "'v connection_mgr \<Rightarrow> bool" where
  "mgr_ok mgr \<longleftrightarrow>
     0 < m_thread_size mgr \<and> length (m_safe_mapping mgr) = m_thread_size mgr \<and>
     (\<forall>i < m_thread_size mgr. \<forall>gid. (m_safe_mapping mgr ! i) gid \<noteq> None \<longrightarrow> gid mod m_thread_size mgr = i)"

definition mgr_abs :: "'v connection_mgr \<Rightarrow> nat \<Rightarrow> 'v option" where
  "mgr_abs mgr gid = (m_safe_mapping mgr ! (gid mod m_thread_size mgr)) gid"

lemma mgr_ok_init: "0 < n \<Longrightarrow> mgr_ok (snd (connection_mgr_init tt n mgr))"
  by (simp add: mgr_ok_def connection_mgr_init_def unat_gt_0 word_gt_0)

lemma mgr_abs_init: "0 < n \<Longrightarrow> mgr_abs (snd (connection_mgr_init tt n mgr)) = (\<lambda>_. None)"
  by (simp add: mgr_abs_def connection_mgr_init_def fun_eq_iff unat_gt_0 word_gt_0)

lemma shard_update_ok:
  assumes "mgr_ok mgr" "\<And>g. m g \<noteq> None \<Longrightarrow> g = gid \<or> (m_safe_mapping mgr ! (gid mod m_thread_size mgr)) g \<noteq> None"
  shows "mgr_ok (mgr\<lparr>m_safe_mapping := (m_safe_mapping mgr)[gid mod m_thread_size mgr := m]\<rparr>)"
  unfolding mgr_ok_def
proof (intro conjI allI impI)
  fix i g
  assume i: "i < m_thread_size (mgr\<lparr>m_safe_mapping := (m_safe_mapping mgr)[gid mod m_thread_size mgr := m]\<rparr>)"
    and g: "(m_safe_mapping (mgr\<lparr>m_safe_mapping := (m_safe_mapping mgr)[gid mod m_thread_size mgr := m]\<rparr>) ! i) g \<noteq> None"
  have "g = gid \<or> (m_safe_mapping mgr ! (gid mod m_thread_size mgr)) g \<noteq> None" if "m g \<noteq> None"
    using assms(2) [OF that] .
  with i g assms(1)
  show "g mod m_thread_size (mgr\<lparr>m_safe_mapping := (m_safe_mapping mgr)[gid mod m_thread_size mgr := m]\<rparr>) = i"
    by (cases "i = gid mod m_thread_size mgr") (auto simp: mgr_ok_def)
qed (use assms(1) in \<open>auto simp: mgr_ok_def\<close>)

lemma shard_update_abs:
  assumes "mgr_ok mgr" "\<And>g. g \<noteq> gid \<Longrightarrow> m g = (m_safe_mapping mgr ! (gid mod m_thread_size mgr)) g"
  shows "mgr_abs (mgr\<lparr>m_safe_mapping := (m_safe_mapping mgr)[gid mod m_thread_size mgr := m]\<rparr>) = (mgr_abs mgr)(gid := m gid)"
proof
  fix g
  show "mgr_abs (mgr\<lparr>m_safe_mapping := (m_safe_mapping mgr)[gid mod m_thread_size mgr := m]\<rparr>) g = ((mgr_abs mgr)(gid := m gid)) g"
    using assms(1) assms(2) [of g]
    by (cases "g = gid"; cases "g mod m_thread_size mgr = gid mod m_thread_size mgr")
       (auto simp: mgr_abs_def mgr_ok_def nth_list_update)
qed

lemma mgr_find_abs: "mgr_ok mgr \<Longrightarrow> mgr_find gid mgr = mgr_abs mgr gid"
  by (auto simp: mgr_find_def mgr_if_exist_def safe_mapping_if_exist_def mgr_abs_def mgr_ok_def split: option.split)

text \<open>The general form of the three methods on a well-formed manager.\<close>

lemma mgr_insert_refines:
  assumes "mgr_ok mgr"
  obtains mgr' where
    "mgr_insert gid v succ failed mgr s =
       Some (mgr', case (if mgr_abs mgr gid = None then succ else failed) of None \<Rightarrow> s | Some f \<Rightarrow> f gid v s)"
    "mgr_ok mgr'" "mgr_abs mgr' = (if mgr_abs mgr gid = None then (mgr_abs mgr)(gid \<mapsto> v) else mgr_abs mgr)"
    "m_thread_size mgr' = m_thread_size mgr"
proof -
  let ?m = "m_safe_mapping mgr ! (gid mod m_thread_size mgr)"
  let ?m' = "if ?m gid = None then ?m(gid \<mapsto> v) else ?m"
  let ?mgr = "mgr\<lparr>m_safe_mapping := (m_safe_mapping mgr)[gid mod m_thread_size mgr := ?m']\<rparr>"
  have "mgr_ok ?mgr" by (rule shard_update_ok [OF assms]) (auto split: if_splits)
  moreover have "mgr_abs ?mgr = (mgr_abs mgr)(gid := ?m' gid)" by (rule shard_update_abs [OF assms]) auto
  then have "mgr_abs ?mgr = (if mgr_abs mgr gid = None then (mgr_abs mgr)(gid \<mapsto> v) else mgr_abs mgr)"
    by (auto simp: mgr_abs_def fun_eq_iff)
  moreover have "mgr_insert gid v succ failed mgr s =
      Some (?mgr, case (if mgr_abs mgr gid = None then succ else failed) of None \<Rightarrow> s | Some f \<Rightarrow> f gid v s)"
    using assms by (auto simp: mgr_insert_def safe_mapping_insert_def mgr_ok_def mgr_abs_def Let_def split: option.split)
  ultimately show ?thesis by (intro that [of ?mgr]) simp_all
qed

lemma mgr_remove_refines:
  assumes "mgr_ok mgr"
  obtains mgr' where
    "mgr_remove on_close gid succ failed mgr s =
       Some (mgr', case mgr_abs mgr gid of
                     None \<Rightarrow> (case failed of None \<Rightarrow> s | Some f \<Rightarrow> f gid s)
                   | Some v \<Rightarrow> (case on_close v s of (Inl e, s) \<Rightarrow> s
                               | (Inr _, s) \<Rightarrow> (case succ of None \<Rightarrow> s | Some f \<Rightarrow> f gid v s)))"
    "mgr_ok mgr'" "mgr_abs mgr' = (mgr_abs mgr)(gid := None)" "m_thread_size mgr' = m_thread_size mgr"
proof -
  let ?m = "m_safe_mapping mgr ! (gid mod m_thread_size mgr)"
  let ?mgr = "mgr\<lparr>m_safe_mapping := (m_safe_mapping mgr)[gid mod m_thread_size mgr := ?m(gid := None)]\<rparr>"
  have same: "?m(gid := None) = ?m" if "?m gid = None" using that by (auto simp: fun_eq_iff)
  have "mgr_ok ?mgr" by (rule shard_update_ok [OF assms]) (auto split: if_splits)
  moreover have "mgr_abs ?mgr = (mgr_abs mgr)(gid := (?m(gid := None)) gid)"
    by (rule shard_update_abs [OF assms]) auto
  moreover have "mgr_remove on_close gid succ failed mgr s =
      Some (?mgr, case mgr_abs mgr gid of
                    None \<Rightarrow> (case failed of None \<Rightarrow> s | Some f \<Rightarrow> f gid s)
                  | Some v \<Rightarrow> (case on_close v s of (Inl e, s) \<Rightarrow> s
                               | (Inr _, s) \<Rightarrow> (case succ of None \<Rightarrow> s | Some f \<Rightarrow> f gid v s)))"
    using assms same
    by (auto simp: mgr_remove_def safe_mapping_remove_def mgr_ok_def mgr_abs_def Let_def split: option.split)
  ultimately show ?thesis by (intro that [of ?mgr]) simp_all
qed

lemma mgr_add_refines:
  assumes "mgr_ok mgr"
  obtains mgr' where "mgr_add gid v mgr = (mgr_abs mgr gid = None, mgr')" "mgr_ok mgr'"
    "mgr_abs mgr' = (if mgr_abs mgr gid = None then (mgr_abs mgr)(gid \<mapsto> v) else mgr_abs mgr)"
    "m_thread_size mgr' = m_thread_size mgr"
proof (rule mgr_insert_refines [OF assms, of gid v "Some (\<lambda>_ _ _. True)" None False])
  fix m assume "mgr_insert gid v (Some (\<lambda>_ _ _. True)) None mgr False =
      Some (m, case if mgr_abs mgr gid = None then Some (\<lambda>_ _ _. True) else None of None \<Rightarrow> False | Some f \<Rightarrow> f gid v False)"
    and m: "mgr_ok m" "mgr_abs m = (if mgr_abs mgr gid = None then (mgr_abs mgr)(gid \<mapsto> v) else mgr_abs mgr)"
    "m_thread_size m = m_thread_size mgr"
  then have "mgr_add gid v mgr = (mgr_abs mgr gid = None, m)"
    by (cases "mgr_abs mgr gid") (simp_all add: mgr_add_def)
  from this m show ?thesis by (rule that)
qed

lemma mgr_take_refines:
  assumes "mgr_ok mgr"
  obtains mgr' where "mgr_take gid mgr = (mgr_abs mgr gid, mgr')" "mgr_ok mgr'"
    "mgr_abs mgr' = (mgr_abs mgr)(gid := None)" "m_thread_size mgr' = m_thread_size mgr"
proof (rule mgr_remove_refines [OF assms, of "\<lambda>_ s. (Inr (), s)" gid "Some (\<lambda>_ v _. Some v)" None None])
  fix m assume "mgr_remove (\<lambda>_ s. (Inr (), s)) gid (Some (\<lambda>_ v _. Some v)) None mgr None =
      Some (m, case mgr_abs mgr gid of None \<Rightarrow> (case None of None \<Rightarrow> None | Some f \<Rightarrow> f gid None)
        | Some v \<Rightarrow> (case (Inr (), None) of (Inl e, s) \<Rightarrow> s
             | (Inr _, s) \<Rightarrow> (case Some (\<lambda>_ v _. Some v) of None \<Rightarrow> s | Some f \<Rightarrow> f gid v s)))"
    and m: "mgr_ok m" "mgr_abs m = (mgr_abs mgr)(gid := None)" "m_thread_size m = m_thread_size mgr"
  then have "mgr_take gid mgr = (mgr_abs mgr gid, m)"
    by (cases "mgr_abs mgr gid") (simp_all add: mgr_take_def)
  from this m show ?thesis by (rule that)
qed

lemma mgr_add_type: "mgr_task_type (snd (mgr_add gid v m)) = mgr_task_type m"
  by (auto simp: mgr_add_def mgr_insert_def Let_def split: option.splits prod.splits if_splits)

lemma mgr_remove_type: "mgr_remove on_close gid succ failed m s = Some (m', s') \<Longrightarrow> mgr_task_type m' = mgr_task_type m"
  by (auto simp: mgr_remove_def Let_def split: prod.splits if_splits)

interpretation mgr: conn_table mgr_ok mgr_find mgr_add mgr_take
proof (unfold_locales, goal_cases)
  case (1 t k v)
  obtain m where "mgr_add k v t = (mgr_abs t k = None, m)" "mgr_ok m"
    "mgr_abs m = (if mgr_abs t k = None then (mgr_abs t)(k \<mapsto> v) else mgr_abs t)" "m_thread_size m = m_thread_size t"
    by (rule mgr_add_refines [OF 1(1)])
  with 1 show ?case by (intro exI [of _ m]) (simp add: mgr_find_abs)
next
  case (2 t k v)
  obtain m where "mgr_add k v t = (mgr_abs t k = None, m)" "mgr_ok m"
    "mgr_abs m = (if mgr_abs t k = None then (mgr_abs t)(k \<mapsto> v) else mgr_abs t)" "m_thread_size m = m_thread_size t"
    by (rule mgr_add_refines [OF 2(1)])
  with 2 show ?case by (intro exI [of _ m]) (simp add: mgr_find_abs)
next
  case (3 t k)
  obtain m where "mgr_take k t = (mgr_abs t k, m)" "mgr_ok m" "mgr_abs m = (mgr_abs t)(k := None)"
    "m_thread_size m = m_thread_size t"
    by (rule mgr_take_refines [OF 3])
  with 3 show ?case by (intro exI [of _ m]) (simp add: mgr_find_abs)
qed

subsection \<open>Properties\<close>

text \<open>C13: the sharded manager is one map from ids to entries: a lookup, an insertion and a removal do on
  the shards what they do on that map, with the callbacks the caller passed, an insertion refuses an
  id in use, and every entry stays in the shard of its id.\<close>

theorem connection_mgr_is_a_map:
  assumes "mgr_ok mgr"
  shows "mgr_find gid mgr = mgr_abs mgr gid \<and>
    (\<exists>m. mgr_insert gid v succ failed mgr s =
            Some (m, case (if mgr_abs mgr gid = None then succ else failed) of None \<Rightarrow> s | Some f \<Rightarrow> f gid v s) \<and>
         mgr_ok m \<and> mgr_abs m = (if mgr_abs mgr gid = None then (mgr_abs mgr)(gid \<mapsto> v) else mgr_abs mgr)) \<and>
    (\<exists>m s'. mgr_remove on_close gid succ' failed' mgr s = Some (m, s') \<and> mgr_ok m \<and>
         mgr_abs m = (mgr_abs mgr)(gid := None))"
proof (intro conjI)
  show "mgr_find gid mgr = mgr_abs mgr gid" by (rule mgr_find_abs [OF assms])
  show "\<exists>m. mgr_insert gid v succ failed mgr s =
            Some (m, case (if mgr_abs mgr gid = None then succ else failed) of None \<Rightarrow> s | Some f \<Rightarrow> f gid v s) \<and>
         mgr_ok m \<and> mgr_abs m = (if mgr_abs mgr gid = None then (mgr_abs mgr)(gid \<mapsto> v) else mgr_abs mgr)"
    by (rule mgr_insert_refines [OF assms]) (intro exI conjI)
  show "\<exists>m s'. mgr_remove on_close gid succ' failed' mgr s = Some (m, s') \<and> mgr_ok m \<and>
         mgr_abs m = (mgr_abs mgr)(gid := None)"
    by (rule mgr_remove_refines [OF assms]) (intro exI conjI)
qed

definition demo_mgr :: "nat connection_mgr" where
  "demo_mgr = snd (connection_mgr_init STREAM_TASK 4 connection_mgr_new)"

lemma demo_mgr_ok: "mgr_ok demo_mgr" "mgr_abs demo_mgr = (\<lambda>_. None)" "mgr_find gid demo_mgr = None"
proof -
  show ok: "mgr_ok demo_mgr" unfolding demo_mgr_def by (rule mgr_ok_init) simp
  show abs: "mgr_abs demo_mgr = (\<lambda>_. None)" unfolding demo_mgr_def by (rule mgr_abs_init) simp
  show "mgr_find gid demo_mgr = None" using mgr_find_abs [OF ok] abs by simp
qed

theorem connection_mgr_is_a_map_witness:
  "mgr_find 6 demo_mgr = mgr_abs demo_mgr 6 \<and>
   (\<exists>m. mgr_insert 6 (1 :: nat) (Some (\<lambda>_ _ _. True)) None demo_mgr False = Some (m, True) \<and>
        mgr_abs m = (mgr_abs demo_mgr)(6 \<mapsto> 1))"
proof -
  from connection_mgr_is_a_map [OF demo_mgr_ok(1), of 6 1 "Some (\<lambda>_ _ _. True)" None False "\<lambda>_ s. (Inr (), s)" None None]
  show ?thesis by (auto simp: demo_mgr_ok)
qed

text \<open>C18: whatever sequence of insertions and removals the event loop and the workers perform, an entry is
  taken out exactly as often as it was put in, but for the one that may still be inside: a connection
  is closed and released at most once.\<close>

theorem every_connection_closed_once:
  assumes "mgr_ok mgr" "table_run mgr_add mgr_take ops mgr = (ins, outs, mgr')"
  shows "occurs gid outs + (if mgr_find gid mgr' = None then 0 else 1) =
         occurs gid ins + (if mgr_find gid mgr = None then 0 else 1)"
  using mgr.run_balance [OF assms] by blast

theorem every_connection_closed_once_witness:
  "\<exists>ins outs m. table_run mgr_add mgr_take [Add 6 1, Add 6 2, Take 6, Take 6] demo_mgr = (ins, outs, m) \<and>
     occurs 6 outs + (if mgr_find 6 m = None then 0 else 1) = occurs 6 ins"
proof -
  obtain ins outs m where run: "table_run mgr_add mgr_take [Add 6 1, Add 6 2, Take 6, Take 6] demo_mgr = (ins, outs, m)"
    by (metis prod_cases3)
  from every_connection_closed_once [OF demo_mgr_ok(1) run, of 6] run show ?thesis by (simp add: demo_mgr_ok)
qed

text \<open>When the hook of the application throws while a connection is removed, the entry is gone but the
  callback that releases the connection and its socket does not run: both objects stay out of their
  pools.\<close>

lemma throwing_close_hook_skips_release:
  assumes "mgr_ok mgr" "mgr_abs mgr gid = Some v" "on_close v s = (Inl e, s')"
  shows "\<exists>m. mgr_remove on_close gid (Some release) failed mgr s = Some (m, s') \<and> mgr_find gid m = None"
proof -
  obtain m where "mgr_remove on_close gid (Some release) failed mgr s = Some (m, s')" "mgr_ok m"
    "mgr_abs m = (mgr_abs mgr)(gid := None)"
    by (rule mgr_remove_refines [OF assms(1), of on_close gid "Some release" failed s]) (simp add: assms(2,3))
  then show ?thesis by (auto simp: mgr_find_abs)
qed

text \<open>A connection that \<open>create\<close> returned goes back to the pool it came from: creating one and
  releasing it restores the pools, for every kind of server, and what was created has the class the
  kind asks for.\<close>

lemma create_release_restores:
  assumes "begin_ok set_begin" "finite (m_set (http_pool pools))" "finite (m_set (stream_pool pools))"
    "finite (m_set (websocket_pool pools))" "conn_create set_begin tt pools = (p, pools')"
  shows "conn_release tt p pools' = pools \<and> (p \<noteq> None \<longrightarrow> is_http p = (tt = HTTP_TASK) \<and>
    is_stream p = (tt = STREAM_TASK) \<and> is_websocket p = (tt = WEBSOCKET_TASK))"
proof -
  have restore: "(case fst (pool_allocate set_begin q) of Allocated t \<Rightarrow> pool_release (Some t) (snd (pool_allocate set_begin q)) = q
      | _ \<Rightarrow> snd (pool_allocate set_begin q) = q)" if "finite (m_set q)" for q
    using assms(1) that by (auto simp: pool_allocate_def pool_release_def Let_def begin_ok_def insert_absorb)
  show ?thesis
    using assms(5) restore [OF assms(2)] restore [OF assms(3)] restore [OF assms(4)]
    by (cases tt; cases "fst (pool_allocate set_begin (http_pool pools))";
        cases "fst (pool_allocate set_begin (stream_pool pools))";
        cases "fst (pool_allocate set_begin (websocket_pool pools))")
       (auto simp: conn_create_def conn_release_def is_http_def is_stream_def is_websocket_def has_class_def
          convert_to_http_def convert_to_stream_def convert_to_websocket_def split: prod.splits)
qed

end
