(* ===== verification/Tk_Server.thy ===== *)
theory Tk_Server
  imports Tk_Conn_Mgr Tk_Thread "HOL-Library.Multiset"
begin

section \<open>Server settings and task dispatch (src/server, src/task/task_mgr.cpp)\<close>

text \<open>
  The settings of the server object and the part of it the event loop asks at run time, and the way
  from an event to a worker: \<open>task_mgr\<close> takes a task from the pool of the configured kind,
  \<open>do_task\<close> fills it and hands it to the worker pool, and a task that is finished or refused
  goes back to its pool.
\<close>

record server =
  sv_ip :: string
  sv_port :: int
  m_threads :: nat
  m_connects :: nat
  sv_wait_time :: nat
  m_accept_per_tick :: nat
  m_http_static_dir :: string
  m_lua_dir :: string
  m_task_type :: string
  m_daemon :: bool
  m_use_ssl :: bool
  m_crt_pem :: string
  m_key_pem :: string
  sv_stop_flag :: bool

definition server_new :: server where
  "server_new =
     \<lparr>sv_ip = ''0.0.0.0'', sv_port = 0, m_threads = 1024, m_connects = 1024, sv_wait_time = 10,
      m_accept_per_tick = 0, m_http_static_dir = [], m_lua_dir = [], m_task_type = [], m_daemon = False,
      m_use_ssl = False, m_crt_pem = [], m_key_pem = [], sv_stop_flag = False\<rparr>"

definition server_config :: "string \<Rightarrow> int \<Rightarrow> nat \<Rightarrow> nat \<Rightarrow> nat \<Rightarrow> nat \<Rightarrow> string \<Rightarrow> string \<Rightarrow> string \<Rightarrow>
    bool \<Rightarrow> string \<Rightarrow> string \<Rightarrow> bool \<Rightarrow> server \<Rightarrow> server" where
  "server_config ip port threads connects wait_time accept_per_tick tt http_static_dir lua_dir daemon
     crt_pem key_pem use_ssl sv =
     sv\<lparr>sv_ip := ip, sv_port := port, m_threads := threads, m_connects := connects,
        sv_wait_time := wait_time, m_accept_per_tick := accept_per_tick, m_task_type := tt,
        m_http_static_dir := http_static_dir, m_lua_dir := lua_dir, m_daemon := daemon,
        m_use_ssl := use_ssl, m_crt_pem := crt_pem, m_key_pem := key_pem\<rparr>"

definition get_task_type :: "server \<Rightarrow> task_type" where
  "get_task_type sv =
     (if m_task_type sv = ''HTTP_TASK'' then HTTP_TASK
      else if m_task_type sv = ''STREAM_TASK'' then STREAM_TASK
      else if m_task_type sv = ''WEBSOCKET_TASK'' then WEBSOCKET_TASK
      else NONE)"

definition is_stop :: "server \<Rightarrow> bool" where
  "is_stop sv = sv_stop_flag sv"

definition to_stop :: "server \<Rightarrow> server" where
  "to_stop sv = sv\<lparr>sv_stop_flag := True\<rparr>"

definition on_stop :: "server \<Rightarrow> worker list \<Rightarrow> bool \<times> worker list" where
  "on_stop sv ws = (if sv_stop_flag sv then (True, worker_pool_stop ws) else (False, ws))"

subsection \<open>Tasks\<close>

text \<open>
  The dispatcher: the task pools, one per kind and only the configured one in use, the reasons stored
  in the task objects, and the workers. A task of the pool of kind \<open>tt\<close> in slot \<open>t\<close> is the
  pointer \<open>t\<close> of the task record.
\<close>

record dispatcher =
  task_pool :: "task_type \<Rightarrow> pool"
  reasons :: "nat \<Rightarrow> bool \<times> bool"
  workers :: "worker list"
  mgr_type :: task_type

definition task_mgr_init :: "task_type \<Rightarrow> dispatcher \<Rightarrow> int \<times> dispatcher" where
  "task_mgr_init tt d = (0, d\<lparr>mgr_type := tt\<rparr>)"

definition task_mgr_create :: "(nat set \<Rightarrow> nat) \<Rightarrow> nat \<Rightarrow> dispatcher \<Rightarrow> task option option \<times> dispatcher" where
  "task_mgr_create set_begin gid d =
     (if mgr_type d = NONE then (Some None, d)
      else (case pool_allocate set_begin (task_pool d (mgr_type d)) of
              (Waiting, p) \<Rightarrow> (None, d)
            | (Null, p) \<Rightarrow> (Some None, d\<lparr>task_pool := (task_pool d)(mgr_type d := p)\<rparr>)
            | (Allocated t, p) \<Rightarrow>
                (Some (Some \<lparr>t_ptr = t, m_gid = gid\<rparr>), d\<lparr>task_pool := (task_pool d)(mgr_type d := p)\<rparr>)))"

definition task_mgr_release :: "task option \<Rightarrow> dispatcher \<Rightarrow> dispatcher" where
  "task_mgr_release task_ptr d =
     (case task_ptr of
        None \<Rightarrow> d
      | Some t \<Rightarrow>
          if mgr_type d = NONE then d
          else d\<lparr>task_pool := (task_pool d)(mgr_type d := pool_release (Some (t_ptr t)) (task_pool d (mgr_type d)))\<rparr>)"

definition task_destory_execute :: "task option \<Rightarrow> dispatcher \<Rightarrow> dispatcher" where
  "task_destory_execute task_ptr d = (if task_ptr = None then d else task_mgr_release task_ptr d)"

text \<open>
  \<open>do_task\<close>: \<open>Dispatch_exit\<close> is the \<open>exit(EXIT_FAILURE)\<close> of the code when there is no
  task, \<open>Dispatch_waits\<close> the sleep in the blocking task pool until a worker returns one. A task
  that the worker refuses (a task of the same connection is already queued) is released.
\<close>

datatype dispatch = Dispatched | Dispatch_waits | Dispatch_exit

definition set_reasons :: "server \<Rightarrow> bool \<Rightarrow> bool \<Rightarrow> task \<Rightarrow> dispatcher \<Rightarrow> dispatcher" where
  "set_reasons sv recv_event send_event t d =
     (case get_task_type sv of
        STREAM_TASK \<Rightarrow> d\<lparr>reasons := (reasons d)(t_ptr t := (recv_event, send_event))\<rparr>
      | HTTP_TASK \<Rightarrow> d\<lparr>reasons := (reasons d)(t_ptr t := (recv_event, send_event))\<rparr>
      | _ \<Rightarrow> d)"

definition do_task :: "(nat set \<Rightarrow> nat) \<Rightarrow> server \<Rightarrow> nat \<Rightarrow> bool \<Rightarrow> bool \<Rightarrow> dispatcher \<Rightarrow> dispatch \<times> dispatcher" where
  "do_task set_begin sv gid recv_event send_event d =
     (case task_mgr_create set_begin gid d of
        (None, d) \<Rightarrow> (Dispatch_waits, d)
      | (Some None, d) \<Rightarrow> (Dispatch_exit, d)
      | (Some (Some t), d) \<Rightarrow>
          let d = set_reasons sv recv_event send_event t d in
          (case worker_pool_assign (Some t) (m_gid t) (workers d) of
             None \<Rightarrow> (Dispatch_exit, d)
           | Some (destroyed, ws) \<Rightarrow>
               (Dispatched, fold (\<lambda>x. task_destory_execute (Some x)) destroyed (d\<lparr>workers := ws\<rparr>))))"

subsection \<open>Properties\<close>

definition free_tasks :: "dispatcher \<Rightarrow> nat set" where
  "free_tasks d = m_set (task_pool d (mgr_type d))"

definition queued_tasks :: "dispatcher \<Rightarrow> task list" where
  "queued_tasks d = concat (map (\<lambda>w. pending (w_queue w)) (workers d))"

text \<open>
  Every task object is either free or queued, and no object is queued twice (tasks that a worker is
  running are counted as neither; the worker returns them when it is done).
\<close>

definition tasks_accounted :: "nat set \<Rightarrow> dispatcher \<Rightarrow> bool" where
  "tasks_accounted busy d \<longleftrightarrow>
     distinct (map t_ptr (queued_tasks d)) \<and> t_ptr ` set (queued_tasks d) \<inter> free_tasks d = {} \<and>
     t_ptr ` set (queued_tasks d) \<inter> busy = {} \<and> busy \<inter> free_tasks d = {}"

definition all_tasks :: "nat set \<Rightarrow> dispatcher \<Rightarrow> nat set" where
  "all_tasks busy d = free_tasks d \<union> t_ptr ` set (queued_tasks d) \<union> busy"

lemma queued_update:
  assumes "k < length ws"
  shows "concat (map (\<lambda>w. pending (w_queue w)) (ws[k := w])) =
    concat (map (\<lambda>w. pending (w_queue w)) (take k ws)) @ pending (w_queue w) @
    concat (map (\<lambda>w. pending (w_queue w)) (drop (Suc k) ws))"
  using assms by (simp add: upd_conv_take_nth_drop)

lemma queued_split:
  assumes "k < length ws"
  shows "concat (map (\<lambda>w. pending (w_queue w)) ws) =
    concat (map (\<lambda>w. pending (w_queue w)) (take k ws)) @ pending (w_queue (ws ! k)) @
    concat (map (\<lambda>w. pending (w_queue w)) (drop (Suc k) ws))"
  using queued_update [OF assms, of "ws ! k"] by simp

lemma worker_push_outcome:
  obtains (refused) w' where "worker_push (Some t) w = ([t], w')" "pending (w_queue w') = pending (w_queue w)"
    | (queued) w' where "worker_push (Some t) w = ([], w')" "pending (w_queue w') = pending (w_queue w) @ [t]"
proof (cases "stop_flag w \<or> m_gid t \<in> m_in_task (w_queue w)")
  case True
  then show ?thesis
    by (intro refused [of "snd (worker_push (Some t) w)"])
       (auto simp: worker_push_def task_queue_push_def)
next
  case False
  then show ?thesis
    by (intro queued [of "snd (worker_push (Some t) w)"])
       (auto simp: worker_push_def task_queue_push_def pending_def)
qed

lemma task_created:
  assumes "begin_ok set_begin" "finite (free_tasks d)" "task_mgr_create set_begin gid d = (Some (Some t), d')"
  shows "t_ptr t \<in> free_tasks d" "m_gid t = gid" "free_tasks d' = free_tasks d - {t_ptr t}" "workers d' = workers d"
    "mgr_type d' = mgr_type d" "mgr_type d \<noteq> NONE"
proof -
  let ?p = "task_pool d (mgr_type d)"
  have type: "mgr_type d \<noteq> NONE" "m_set ?p \<noteq> {}"
    using assms(3) by (auto simp: task_mgr_create_def pool_allocate_def split: if_splits)
  have mem: "set_begin (m_set ?p) \<in> m_set ?p"
    using assms(1,2) type(2) by (simp add: begin_ok_def free_tasks_def)
  have "t = \<lparr>t_ptr = set_begin (m_set ?p), m_gid = gid\<rparr>"
    "d' = d\<lparr>task_pool := (task_pool d)(mgr_type d := ?p\<lparr>m_set := m_set ?p - {set_begin (m_set ?p)}\<rparr>)\<rparr>"
    using assms(3) type by (simp_all add: task_mgr_create_def pool_allocate_def Let_def)
  with mem type show "t_ptr t \<in> free_tasks d" "m_gid t = gid" "free_tasks d' = free_tasks d - {t_ptr t}"
    "workers d' = workers d" "mgr_type d' = mgr_type d" "mgr_type d \<noteq> NONE"
    by (simp_all add: free_tasks_def)
qed

lemma set_reasons_frame [simp]:
  "task_pool (set_reasons sv r s t d) = task_pool d" "workers (set_reasons sv r s t d) = workers d"
  "mgr_type (set_reasons sv r s t d) = mgr_type d"
  by (simp_all add: set_reasons_def split: task_type.split)

lemma dispatch_conserves:
  assumes begin_set: "begin_ok set_begin" and fin: "finite (free_tasks d)" and acc: "tasks_accounted busy d"
    and run: "do_task set_begin sv gid r s d = (Dispatched, d')"
  shows "tasks_accounted busy d' \<and> all_tasks busy d' = all_tasks busy d"
proof -
  obtain t d1 where t: "task_mgr_create set_begin gid d = (Some (Some t), d1)"
    using run by (auto simp: do_task_def split: prod.splits option.splits)
  note c = task_created [OF begin_set fin t]
  have ne: "workers d \<noteq> []"
    using run t c(4) by (auto simp: do_task_def worker_pool_assign_def)
  let ?k = "gid mod length (workers d)"
  have k: "?k < length (workers d)" using ne by simp
  let ?d = "set_reasons sv r s t d1"
  have queue: "queued_tasks (?d\<lparr>workers := (workers d)[?k := w]\<rparr>) =
      concat (map (\<lambda>w. pending (w_queue w)) (take ?k (workers d))) @ pending (w_queue w) @
      concat (map (\<lambda>w. pending (w_queue w)) (drop (Suc ?k) (workers d)))" for w
    using queued_update [OF k] by (simp add: queued_tasks_def)
  have before: "queued_tasks d = concat (map (\<lambda>w. pending (w_queue w)) (take ?k (workers d))) @
      pending (w_queue (workers d ! ?k)) @ concat (map (\<lambda>w. pending (w_queue w)) (drop (Suc ?k) (workers d)))"
    using queued_split [OF k] by (simp add: queued_tasks_def)
  have d': "d' = (case worker_push (Some t) (workers d ! ?k) of (destroyed, w) \<Rightarrow>
      fold (\<lambda>x. task_destory_execute (Some x)) destroyed (?d\<lparr>workers := (workers d)[?k := w]\<rparr>))"
    using run t c(2,4) ne by (simp add: do_task_def worker_pool_assign_def Let_def split: prod.splits)
  show ?thesis
  proof (cases rule: worker_push_outcome [of t "workers d ! ?k"])
    case (refused w)
    then have "queued_tasks d' = queued_tasks d" "free_tasks d' = free_tasks d"
      using d' c queue [of w] before
      by (auto simp: task_destory_execute_def task_mgr_release_def free_tasks_def pool_release_def queued_tasks_def)
    then show ?thesis using acc by (simp add: tasks_accounted_def all_tasks_def)
  next
    case (queued w)
    then have "mset (queued_tasks d') = mset (t # queued_tasks d)" "free_tasks d' = free_tasks d - {t_ptr t}"
      using d' c queue [of w] before by (auto simp: free_tasks_def)
    then have "set (queued_tasks d') = insert t (set (queued_tasks d))"
      "distinct (map t_ptr (queued_tasks d')) = distinct (map t_ptr (t # queued_tasks d))"
      by (metis list.simps(15) set_mset_mset, metis mset_eq_imp_distinct_iff mset_map)
    then show ?thesis
      using acc c(1) \<open>free_tasks d' = free_tasks d - {t_ptr t}\<close>
      by (auto simp: tasks_accounted_def all_tasks_def)
  qed
qed

lemma do_task_dispatched:
  assumes "begin_ok set_begin" "finite (free_tasks d)" "free_tasks d \<noteq> {}" "workers d \<noteq> []" "mgr_type d \<noteq> NONE"
  shows "\<exists>d'. do_task set_begin sv gid r s d = (Dispatched, d')"
proof -
  obtain t d1 where t: "task_mgr_create set_begin gid d = (Some (Some t), d1)"
    using assms(3,5) by (simp add: task_mgr_create_def pool_allocate_def free_tasks_def Let_def)
  then show ?thesis
    using assms(4) task_created(4) [OF assms(1,2) t]
    by (cases "worker_push (Some t) (workers d ! (m_gid t mod length (workers d)))")
       (auto simp: do_task_def worker_pool_assign_def Let_def)
qed

definition demo_dispatcher :: dispatcher where
  "demo_dispatcher =
     \<lparr>task_pool = (\<lambda>_. snd (pool_init True (\<lambda>_. True) 3 True pool_new)), reasons = (\<lambda>_. (False, False)),
      workers = worker_pool_create 2, mgr_type = STREAM_TASK\<rparr>"

lemma demo_dispatcher_ok:
  "tasks_accounted {} demo_dispatcher" "finite (free_tasks demo_dispatcher)"
  "m_block (task_pool demo_dispatcher (mgr_type demo_dispatcher))" "workers demo_dispatcher \<noteq> []"
  "mgr_type demo_dispatcher \<noteq> NONE"
  by (simp_all add: demo_dispatcher_def tasks_accounted_def queued_tasks_def free_tasks_def pool_init_ok
      worker_pool_create_def worker_run_begin_def worker_new_def task_queue_new_def pending_def numeral_2_eq_2)

text \<open>C16: with the blocking task pool of the running server, \<open>do_task\<close> never reaches the
  \<open>exit\<close> of the process: it queues the new task, or returns it to the pool because one of the same
  connection is already queued (or the worker is stopped), or waits because all tasks are in use. No
  task object is lost or queued twice.\<close>

theorem do_task_accounts:
  assumes "begin_ok set_begin" "finite (free_tasks d)" "tasks_accounted busy d"
    and "m_block (task_pool d (mgr_type d))" "workers d \<noteq> []" "mgr_type d \<noteq> NONE"
  shows "case do_task set_begin sv gid r s d of
      (Dispatched, d') \<Rightarrow> tasks_accounted busy d' \<and> all_tasks busy d' = all_tasks busy d
    | (Dispatch_waits, d') \<Rightarrow> free_tasks d = {} \<and> d' = d
    | (Dispatch_exit, d') \<Rightarrow> False"
proof (cases "free_tasks d = {}")
  case True
  then have "do_task set_begin sv gid r s d = (Dispatch_waits, d)"
    using assms(4,6) by (simp add: do_task_def task_mgr_create_def pool_allocate_def free_tasks_def)
  then show ?thesis using True by simp
next
  case False
  then obtain d' where "do_task set_begin sv gid r s d = (Dispatched, d')"
    using do_task_dispatched [OF assms(1,2)] assms(5,6) by blast
  with dispatch_conserves [OF assms(1-3) this] show ?thesis by simp
qed

theorem do_task_accounts_witness:
  "case do_task Min server_new 5 True True demo_dispatcher of
      (Dispatched, d') \<Rightarrow> tasks_accounted {} d' \<and> all_tasks {} d' = all_tasks {} demo_dispatcher
    | (Dispatch_waits, d') \<Rightarrow> free_tasks demo_dispatcher = {} \<and> d' = demo_dispatcher
    | (Dispatch_exit, d') \<Rightarrow> False"
  by (rule do_task_accounts [OF begin_ok_Min demo_dispatcher_ok(2,1,3,4,5)])

end
