(* ===== verification/Tk_Handler.thy ===== *)
theory Tk_Handler
  imports Tk_Connection Tk_Poller Tk_Server
begin

unbundle bit_operations_syntax

section \<open>The event loop (src/socket/socket_handler.cpp)\<close>

text \<open>
  The socket handler runs on the main thread: it waits for events, accepts connections, gives each an
  id, and dispatches a task to the worker of that id. Its state is the world of the server: the
  socket objects and their pool, the connections (the base part of each object) and their pools, the
  connection manager, the dispatcher, the poller, and the two lists of sockets that wait for removal,
  which the workers fill and the loop empties. Sockets and connections are named by their pool slot.

  The kernel, OpenSSL and the hooks of the application are parameters: \<open>ctl\<close> for
  \<open>epoll_ctl\<close>, \<open>os\<close> for the socket options, \<open>ssl fd\<close> for the success of
  \<open>SSL_new\<close> and \<open>SSL_set_fd\<close>, \<open>on_new\<close> and \<open>tick\<close> for the hooks. A step
  that sleeps in the task pool or ends the process has no result: \<open>None\<close>.

  The theory shows that ids are never given twice, that sockets that wait for removal are removed
  exactly once, and that sockets and connections never leak: on every path of the accept loop and of
  closing, each object is in its pool, registered, or waiting for removal.
\<close>

record world =
  m_init :: bool
  m_max_connections :: int
  m_wait_time :: int
  m_epoll :: event_poller
  m_server :: socket
  sockets :: "nat \<Rightarrow> socket"
  socket_pool :: pool
  m_remove_list1 :: "nat list"
  m_remove_list2 :: "nat list"
  read_is_1 :: bool
  write_is_1 :: bool
  mgr :: "(nat \<times> conn_ptr) connection_mgr"
  pools :: conn_pools
  conns :: "conn_class \<Rightarrow> nat \<Rightarrow> nat connection"
  disp :: dispatcher
  server_obj :: server
  lastest_tick_time :: nat
  gid_seq :: nat
  calls :: "sys_call list"

subsection \<open>Registration with the poller\<close>

definition handler_attach :: "epoll_ctl \<Rightarrow> nat \<Rightarrow> bool \<Rightarrow> world \<Rightarrow> int \<times> world" where
  "handler_attach ctl k listen_send w =
     (if \<not> m_init w then (-1, w)
      else (let fd = m_sockfd (sockets w k); now_events = get_events_by_fd fd (m_epoll w) in
        if now_events AND EPOLLOUT \<noteq> 0 then (0, w)
        else (let target_events =
                    (if listen_send
                     then EPOLLONESHOT OR EPOLLIN OR EPOLLOUT OR EPOLLHUP OR EPOLLERR OR EPOLLRDHUP
                     else EPOLLONESHOT OR EPOLLIN OR EPOLLHUP OR EPOLLERR OR EPOLLRDHUP) in
          case poller_add ctl fd target_events (m_epoll w) of
            ((i_ret, errno), p) \<Rightarrow>
              let w = w\<lparr>m_epoll := p\<rparr> in
              if i_ret = 0 then (0, w)
              else if \<not> (i_ret = -1 \<and> errno = EEXIST) then (i_ret, w)
              else (case poller_mod ctl fd target_events (m_epoll w) of
                      ((i_ret, _), p) \<Rightarrow> (i_ret, w\<lparr>m_epoll := p\<rparr>)))))"

definition handler_detach :: "epoll_ctl \<Rightarrow> nat \<Rightarrow> world \<Rightarrow> int \<times> world" where
  "handler_detach ctl k w =
     (if \<not> m_init w then (-1, w)
      else (case poller_del ctl (m_sockfd (sockets w k)) 0 (m_epoll w) of
              ((i_ret, _), p) \<Rightarrow> (i_ret, w\<lparr>m_epoll := p\<rparr>)))"

subsection \<open>Removal of sockets\<close>

definition handler_remove :: "epoll_ctl \<Rightarrow> nat option \<Rightarrow> world \<Rightarrow> int \<times> world" where
  "handler_remove ctl p w =
     (case p of None \<Rightarrow> (-1, w) | Some k \<Rightarrow>
      if \<not> m_init w then (-1, w)
      else if m_sockfd (sockets w k) \<le> 0 then (-1, w)
      else (case handler_detach ctl k w of
              (iret, w) \<Rightarrow>
                (case socket_close (sockets w k) of
                   (cs, s) \<Rightarrow>
                     (iret, w\<lparr>sockets := (sockets w)(k := s), calls := calls w @ cs,
                              socket_pool := pool_release (Some k) (socket_pool w)\<rparr>))))"

definition alloc_socket :: "(nat set \<Rightarrow> nat) \<Rightarrow> world \<Rightarrow> nat option \<times> world" where
  "alloc_socket set_begin w =
     (if \<not> m_init w then (None, w)
      else (case pool_allocate set_begin (socket_pool w) of
              (Allocated k, p) \<Rightarrow> (Some k, w\<lparr>socket_pool := p\<rparr>)
            | (_, p) \<Rightarrow> (None, w\<lparr>socket_pool := p\<rparr>)))"

definition push_wait_remove :: "nat option \<Rightarrow> world \<Rightarrow> world" where
  "push_wait_remove p w =
     (case p of None \<Rightarrow> w | Some k \<Rightarrow>
      if \<not> m_init w then w
      else if write_is_1 w then w\<lparr>m_remove_list1 := m_remove_list1 w @ [k]\<rparr>
      else w\<lparr>m_remove_list2 := m_remove_list2 w @ [k]\<rparr>)"

text \<open>The result is the set of removed sockets and the world.\<close>

definition update_wait_remove :: "epoll_ctl \<Rightarrow> nat set \<Rightarrow> world \<Rightarrow> nat set \<times> world" where
  "update_wait_remove ctl removed w =
     (if \<not> m_init w then (removed, w)
      else (let w = w\<lparr>write_is_1 := \<not> write_is_1 w, read_is_1 := \<not> read_is_1 w\<rparr>;
                items = (if read_is_1 w then m_remove_list1 w else m_remove_list2 w);
                w = fold (\<lambda>k w. snd (handler_remove ctl (Some k) w)) items w in
            (set items,
             if read_is_1 w then w\<lparr>m_remove_list1 := []\<rparr> else w\<lparr>m_remove_list2 := []\<rparr>)))"

subsection \<open>Start-up of the handler\<close>

definition handler_init :: "os \<Rightarrow> epoll_ctl \<Rightarrow> int \<Rightarrow> string \<Rightarrow> int \<Rightarrow> int \<Rightarrow> int \<Rightarrow> world \<Rightarrow> int \<times> world" where
  "handler_init os ctl epfd ip port max_connections wait_time w =
     (if m_init w then (0, w)
      else (case server_socket_new os ip port max_connections of
        (cs, s) \<Rightarrow>
          let p = poller_create epfd max_connections (event_poller_new False);
              p = snd (poller_add ctl (m_sockfd s) (EPOLLIN OR EPOLLHUP OR EPOLLERR) p) in
          (0, w\<lparr>m_server := s, calls := calls w @ cs, m_max_connections := max_connections,
                m_wait_time := wait_time, m_epoll := p, m_init := True, read_is_1 := True,
                write_is_1 := False\<rparr>)))"

subsection \<open>Accepting\<close>

definition world_do_task :: "(nat set \<Rightarrow> nat) \<Rightarrow> nat \<Rightarrow> bool \<Rightarrow> bool \<Rightarrow> world \<Rightarrow> world option" where
  "world_do_task set_begin gid r s w =
     (case do_task set_begin (server_obj w) gid r s (disp w) of
        (Dispatched, d) \<Rightarrow> Some (w\<lparr>disp := d\<rparr>)
      | _ \<Rightarrow> None)"

definition next_gid :: "world \<Rightarrow> nat" where
  "next_gid w = uadd64 ((lastest_tick_time w * 2 ^ 32) mod u64_limit) (uadd64 (gid_seq w) 1)"

definition new_socket :: "os \<Rightarrow> int \<Rightarrow> nat \<Rightarrow> world \<Rightarrow> world" where
  "new_socket os fd k w =
     (let s = (sockets w k)\<lparr>m_sockfd := fd, s_gid := next_gid w, close_callback := False\<rparr> in
      w\<lparr>gid_seq := uadd64 (gid_seq w) 1, sockets := (sockets w)(k := s),
        calls := calls w @ fst (set_non_blocking os s) @ fst (set_linger os False 0 s) @
                 fst (set_send_buffer os 65536 s) @ fst (set_recv_buffer os 65536 s)\<rparr>)"

definition new_connection :: "nat \<Rightarrow> nat \<Rightarrow> conn_class \<Rightarrow> nat \<Rightarrow> world \<Rightarrow> world" where
  "new_connection gid k c i w =
     w\<lparr>conns := (conns w)(c := (conns w c)(i :=
        (connection_reuse (conns w c i))\<lparr>socket_ptr := Some k, c_gid := gid\<rparr>))\<rparr>"

text \<open>
  The second half of an iteration: the connection object and its registration. When the pool has no
  object, or the id is in use, the socket is queued for removal.
\<close>

definition accept_register :: "(nat set \<Rightarrow> nat) \<Rightarrow> (nat \<times> conn_ptr \<Rightarrow> world \<Rightarrow> unit res \<times> world) \<Rightarrow>
    nat \<Rightarrow> nat \<Rightarrow> world \<Rightarrow> (bool \<times> world) option" where
  "accept_register set_begin on_new loop_gid k w =
     (case conn_create set_begin (mgr_task_type (mgr w)) (pools w) of
        (None, ps) \<Rightarrow> Some (False, push_wait_remove (Some k) (w\<lparr>pools := ps\<rparr>))
      | (Some (c, i), ps) \<Rightarrow>
          let w = new_connection loop_gid k c i (w\<lparr>pools := ps\<rparr>) in
          (case mgr_add loop_gid (k, Some (c, i)) (mgr w) of
             (False, m) \<Rightarrow>
               Some (True, push_wait_remove (Some k)
                 (w\<lparr>mgr := m, pools := conn_release (mgr_task_type m) (Some (c, i)) (pools w)\<rparr>))
           | (True, m) \<Rightarrow>
               let w = w\<lparr>mgr := m\<rparr>;
                   w = (if m_use_ssl (server_obj w) then w
                        else (case mgr_on_new_connection on_new loop_gid (mgr w) w of None \<Rightarrow> w | Some w \<Rightarrow> w)) in
               map_option (Pair True) (world_do_task set_begin loop_gid True True w)))"

text \<open>
  One iteration of the accept loop for the result \<open>socket_fd\<close> of \<open>accept\<close>; the bool says
  whether the loop goes on.
\<close>

definition accept_one :: "(nat set \<Rightarrow> nat) \<Rightarrow> os \<Rightarrow> (int \<Rightarrow> bool \<times> bool) \<Rightarrow>
    (nat \<times> conn_ptr \<Rightarrow> world \<Rightarrow> unit res \<times> world) \<Rightarrow> int \<Rightarrow> world \<Rightarrow> (bool \<times> world) option" where
  "accept_one set_begin os ssl on_new socket_fd w =
     (if socket_fd \<le> 0 then Some (False, w)
      else (case alloc_socket set_begin w of
        (None, w) \<Rightarrow> Some (False, w\<lparr>calls := calls w @ [Sys_close socket_fd]\<rparr>)
      | (Some k, w) \<Rightarrow>
          let loop_gid = next_gid w; w = new_socket os socket_fd k w;
              (new_ok, fd_ok) = ssl socket_fd;
              w = (if m_use_ssl (server_obj w)
                   then w\<lparr>sockets := (sockets w)(k := (sockets w k)\<lparr>m_ssl_instance := new_ok\<rparr>)\<rparr> else w) in
          if m_use_ssl (server_obj w) \<and> (\<not> new_ok \<or> \<not> fd_ok)
          then Some (True, push_wait_remove (Some k) w)
          else accept_register set_begin on_new loop_gid k w))"

fun accept_loop :: "(nat set \<Rightarrow> nat) \<Rightarrow> os \<Rightarrow> (int \<Rightarrow> bool \<times> bool) \<Rightarrow>
    (nat \<times> conn_ptr \<Rightarrow> world \<Rightarrow> unit res \<times> world) \<Rightarrow> nat \<Rightarrow> int list \<Rightarrow> world \<Rightarrow> world option" where
  "accept_loop set_begin os ssl on_new 0 fds w = Some w"
| "accept_loop set_begin os ssl on_new (Suc n) [] w = Some w"
| "accept_loop set_begin os ssl on_new (Suc n) (fd # fds) w =
     (case accept_one set_begin os ssl on_new fd w of
        None \<Rightarrow> None
      | Some (False, w) \<Rightarrow> Some w
      | Some (True, w) \<Rightarrow> accept_loop set_begin os ssl on_new n fds w)"

subsection \<open>Events of connections\<close>

definition conn_mark_close :: "(nat set \<Rightarrow> nat) \<Rightarrow> nat \<times> conn_ptr \<Rightarrow> world \<Rightarrow> world option" where
  "conn_mark_close set_begin v w =
     (case snd v of
        None \<Rightarrow> None
      | Some (c, i) \<Rightarrow>
          (case mark_close (\<lambda>x. ([Do_task (c_gid x) False True], x)) (conns w c i) of
             (reqs, x) \<Rightarrow>
               let w = w\<lparr>conns := (conns w)(c := (conns w c)(i := x))\<rparr> in
               (case reqs of
                  [] \<Rightarrow> Some w
                | Do_task gid r s # _ \<Rightarrow> world_do_task set_begin gid r s w)))"

definition world_mark_close :: "(nat set \<Rightarrow> nat) \<Rightarrow> nat \<Rightarrow> world \<Rightarrow> world option" where
  "world_mark_close set_begin gid w =
     (case mgr_find gid (mgr w) of None \<Rightarrow> Some w | Some v \<Rightarrow> conn_mark_close set_begin v w)"

definition connection_event :: "(nat set \<Rightarrow> nat) \<Rightarrow> epoll_ctl \<Rightarrow> nat \<Rightarrow> u32 \<Rightarrow> world \<Rightarrow> world option" where
  "connection_event set_begin ctl k events w =
     (let w = snd (handler_detach ctl k w); gid = s_gid (sockets w k) in
      if events AND EPOLLHUP \<noteq> 0 \<or> events AND EPOLLERR \<noteq> 0 \<or> events AND EPOLLRDHUP \<noteq> 0
      then world_mark_close set_begin gid w
      else world_do_task set_begin gid (events AND EPOLLIN \<noteq> 0) (events AND EPOLLOUT \<noteq> 0) w)"

datatype event_ptr = Ev_null | Ev_server | Ev_socket nat

fun process_events :: "(nat set \<Rightarrow> nat) \<Rightarrow> os \<Rightarrow> (int \<Rightarrow> bool \<times> bool) \<Rightarrow> epoll_ctl \<Rightarrow>
    (nat \<times> conn_ptr \<Rightarrow> world \<Rightarrow> unit res \<times> world) \<Rightarrow> nat set \<Rightarrow> int list \<Rightarrow> (event_ptr \<times> u32) list \<Rightarrow>
    world \<Rightarrow> world option" where
  "process_events set_begin os ssl ctl on_new removed fds [] w = Some w"
| "process_events set_begin os ssl ctl on_new removed fds ((p, events) # evs) w =
     (case (case p of
              Ev_null \<Rightarrow> Some w
            | Ev_server \<Rightarrow> accept_loop set_begin os ssl on_new (m_accept_per_tick (server_obj w)) fds w
            | Ev_socket k \<Rightarrow> if k \<in> removed then Some w else connection_event set_begin ctl k events w) of
        None \<Rightarrow> None
      | Some w \<Rightarrow> process_events set_begin os ssl ctl on_new removed fds evs w)"

subsection \<open>One turn of the main loop\<close>

text \<open>
  What the environment contributes to a turn: the result and \<open>errno\<close> of \<open>epoll_wait\<close>, the
  events, the seconds of the clock, and the descriptors \<open>accept\<close> returns. The bool of the result
  says whether the loop goes on.
\<close>

record turn =
  num :: int
  wait_errno :: int
  events :: "(event_ptr \<times> u32) list"
  now_seconds :: nat
  accepted :: "int list"

definition clock_update :: "nat \<Rightarrow> world \<Rightarrow> world" where
  "clock_update now_tick_time w =
     (if lastest_tick_time w \<noteq> now_tick_time then w\<lparr>gid_seq := 0, lastest_tick_time := now_tick_time\<rparr> else w)"

definition handle_turn :: "(nat set \<Rightarrow> nat) \<Rightarrow> os \<Rightarrow> (int \<Rightarrow> bool \<times> bool) \<Rightarrow> epoll_ctl \<Rightarrow>
    (nat \<times> conn_ptr \<Rightarrow> world \<Rightarrow> unit res \<times> world) \<Rightarrow> (world \<Rightarrow> world) \<Rightarrow> turn \<Rightarrow> world \<Rightarrow> (bool \<times> world) option" where
  "handle_turn set_begin os ssl ctl on_new tick t w =
     (case update_wait_remove ctl {} w of (removed, w) \<Rightarrow>
      if lastest_tick_time w \<noteq> now_seconds t \<and> is_stop (server_obj w)
      then Some (False, w\<lparr>disp := (disp w)\<lparr>workers := snd (on_stop (server_obj w) (workers (disp w)))\<rparr>\<rparr>)
      else (let w = tick (clock_update (now_seconds t) w) in
            if num t = 0 then Some (True, w)
            else if num t < 0
            then (if wait_errno t = EINTR then Some (True, w)
                  else Some (True, w\<lparr>server_obj := to_stop (server_obj w)\<rparr>))
            else map_option (Pair True)
                   (process_events set_begin os ssl ctl on_new removed (accepted t)
                      (take (nat (num t)) (events t)) w)))"

text \<open>The branch of a task that finds its connection marked: the entry is removed and released.\<close>

definition close_connection :: "(nat \<times> conn_ptr \<Rightarrow> world \<Rightarrow> unit res \<times> world) \<Rightarrow> nat \<Rightarrow> world \<Rightarrow> world option" where
  "close_connection on_close gid w =
     (case mgr_remove on_close gid
             (Some (\<lambda>key v w. push_wait_remove (Some (fst v))
                      (w\<lparr>pools := conn_release (mgr_task_type (mgr w)) (snd v) (pools w)\<rparr>)))
             None (mgr w) w of
        None \<Rightarrow> None
      | Some (m, w) \<Rightarrow> Some (w\<lparr>mgr := m\<rparr>))"

subsection \<open>Who owns a socket\<close>

text \<open>
  Every socket object is in the pool, registered with the manager, waiting for removal, or
  \<open>held\<close> by the code that is running; it is in one place only, and a registered or waiting one
  has an open descriptor. Between turns of the loop the list that the loop reads is empty.
\<close>

definition listed :: "world \<Rightarrow> nat list" where
  "listed w = m_remove_list1 w @ m_remove_list2 w"

definition reg_of :: "(nat \<Rightarrow> (nat \<times> conn_ptr) option) \<Rightarrow> nat set" where
  "reg_of table = {k. \<exists>gid c. table gid = Some (k, c)}"

definition one_gid :: "(nat \<Rightarrow> (nat \<times> conn_ptr) option) \<Rightarrow> bool" where
  "one_gid table \<longleftrightarrow> (\<forall>g g' k c c'. table g = Some (k, c) \<longrightarrow> table g' = Some (k, c') \<longrightarrow> g = g')"

definition lists_ok :: "world \<Rightarrow> bool" where
  "lists_ok w \<longleftrightarrow> m_init w \<and> read_is_1 w = (\<not> write_is_1 w) \<and>
     (write_is_1 w \<longrightarrow> m_remove_list2 w = []) \<and> (\<not> write_is_1 w \<longrightarrow> m_remove_list1 w = [])"

definition owners_ok :: "nat \<Rightarrow> nat set \<Rightarrow> nat set \<Rightarrow> nat list \<Rightarrow> (nat \<Rightarrow> (nat \<times> conn_ptr) option) \<Rightarrow> (nat \<Rightarrow> socket) \<Rightarrow> bool" where
  "owners_ok N held free waiting table socks \<longleftrightarrow>
     free \<union> set waiting \<union> reg_of table \<union> held = {0..<N} \<and> distinct waiting \<and>
     free \<inter> (set waiting \<union> reg_of table \<union> held) = {} \<and> set waiting \<inter> (reg_of table \<union> held) = {} \<and>
     reg_of table \<inter> held = {} \<and> one_gid table \<and> (\<forall>k \<in> set waiting \<union> reg_of table. 0 < m_sockfd (socks k))"

definition world_ok :: "nat \<Rightarrow> nat set \<Rightarrow> world \<Rightarrow> bool" where
  "world_ok N held w \<longleftrightarrow> lists_ok w \<and> mgr_ok (mgr w) \<and>
     owners_ok N held (m_set (socket_pool w)) (listed w) (mgr_abs (mgr w)) (sockets w)"

lemma listed_lists_ok:
  "lists_ok w \<Longrightarrow> listed w = (if write_is_1 w then m_remove_list1 w else m_remove_list2 w)"
  by (auto simp: lists_ok_def listed_def split: if_splits)

lemma reg_of_insert: "table gid = None \<Longrightarrow> reg_of (table(gid \<mapsto> (k, c))) = insert k (reg_of table)"
  unfolding reg_of_def by (auto split: if_splits) (metis option.distinct(1))

lemma one_gid_insert: "one_gid table \<Longrightarrow> k \<notin> reg_of table \<Longrightarrow> one_gid (table(gid \<mapsto> (k, c)))"
  unfolding one_gid_def reg_of_def by auto

lemma reg_of_delete:
  assumes "one_gid table" "table gid = Some (k, c)"
  shows "reg_of (table(gid := None)) = reg_of table - {k}"
proof (rule set_eqI)
  fix j
  show "j \<in> reg_of (table(gid := None)) \<longleftrightarrow> j \<in> reg_of table - {k}"
  proof
    assume "j \<in> reg_of (table(gid := None))"
    then show "j \<in> reg_of table - {k}"
      using assms unfolding one_gid_def reg_of_def by (auto split: if_splits)
  next
    assume "j \<in> reg_of table - {k}"
    then obtain g d where "table g = Some (j, d)" "j \<noteq> k" by (auto simp: reg_of_def)
    moreover from this assms(2) have "g \<noteq> gid" by auto
    ultimately have "(table(gid := None)) g = Some (j, d)" by simp
    then show "j \<in> reg_of (table(gid := None))" unfolding reg_of_def by blast
  qed
qed

lemma one_gid_delete: "one_gid table \<Longrightarrow> one_gid (table(gid := None))"
  unfolding one_gid_def by auto

lemma owners_allocate:
  assumes "owners_ok N {} free waiting table socks" "k \<in> free"
  shows "owners_ok N {k} (free - {k}) waiting table socks"
  using assms unfolding owners_ok_def by (auto; blast)

lemma owners_update_socket:
  assumes "owners_ok N held free waiting table socks" "k \<in> held"
  shows "owners_ok N held free waiting table (socks(k := s))"
  using assms unfolding owners_ok_def by auto

lemma owners_wait:
  assumes "owners_ok N {k} free waiting table socks" "0 < m_sockfd (socks k)"
  shows "owners_ok N {} free (waiting @ [k]) table socks"
  using assms unfolding owners_ok_def by auto

lemma owners_register:
  assumes "owners_ok N {k} free waiting table socks" "0 < m_sockfd (socks k)" "table gid = None"
  shows "owners_ok N {} free waiting (table(gid \<mapsto> (k, c))) socks"
proof -
  have "k \<notin> reg_of table" using assms(1) unfolding owners_ok_def by auto
  then show ?thesis
    using assms one_gid_insert [of table k gid c] unfolding owners_ok_def reg_of_insert [of table gid, OF assms(3)] by auto
qed

lemma owners_unregister:
  assumes "owners_ok N {} free waiting table socks" "table gid = Some (k, c)"
  shows "owners_ok N {k} free waiting (table(gid := None)) socks" "0 < m_sockfd (socks k)"
proof -
  have one: "one_gid table" using assms(1) unfolding owners_ok_def by blast
  have k: "k \<in> reg_of table" using assms(2) unfolding reg_of_def by blast
  show "0 < m_sockfd (socks k)" using assms(1) k unfolding owners_ok_def by blast
  show "owners_ok N {k} free waiting (table(gid := None)) socks"
    using assms(1) k one_gid_delete [OF one, of gid]
    unfolding owners_ok_def reg_of_delete [of table gid, OF one assms(2)] by (auto; blast)
qed

lemma owners_release:
  assumes "owners_ok N {} free (k # waiting) table socks"
  shows "owners_ok N {} (insert k free) waiting table (socks(k := s))"
  using assms unfolding owners_ok_def by auto

subsection \<open>The operations keep the sockets accounted for\<close>

lemma push_wait_remove_ok:
  assumes "world_ok N {k} w" "0 < m_sockfd (sockets w k)"
  shows "world_ok N {} (push_wait_remove (Some k) w)"
proof -
  have l: "lists_ok w" using assms(1) by (simp add: world_ok_def)
  have "listed (push_wait_remove (Some k) w) = listed w @ [k]" "lists_ok (push_wait_remove (Some k) w)"
    using l by (auto simp: listed_lists_ok lists_ok_def push_wait_remove_def listed_def split: if_splits)
  then show ?thesis
    using assms owners_wait [of N k] by (auto simp: world_ok_def push_wait_remove_def)
qed

lemma alloc_socket_ok:
  assumes "world_ok N {} w" "begin_ok set_begin" "alloc_socket set_begin w = (Some k, w')"
  shows "world_ok N {k} w'" "w' = w\<lparr>socket_pool := (socket_pool w)\<lparr>m_set := m_set (socket_pool w) - {k}\<rparr>\<rparr>"
proof -
  have ow: "owners_ok N {} (m_set (socket_pool w)) (listed w) (mgr_abs (mgr w)) (sockets w)"
    using assms(1) by (simp add: world_ok_def)
  then have fin: "finite (m_set (socket_pool w))"
    unfolding owners_ok_def by (metis finite_Un finite_atLeastLessThan)
  have ne: "m_init w" "m_set (socket_pool w) \<noteq> {}" "k = set_begin (m_set (socket_pool w))"
    "w' = w\<lparr>socket_pool := (socket_pool w)\<lparr>m_set := m_set (socket_pool w) - {k}\<rparr>\<rparr>"
    using assms(3) by (auto simp: alloc_socket_def pool_allocate_def Let_def split: if_splits)
  have "k \<in> m_set (socket_pool w)" using assms(2) fin ne by (simp add: begin_ok_def)
  from owners_allocate [OF ow this] assms(1) ne(4) show "world_ok N {k} w'"
    by (simp add: world_ok_def lists_ok_def listed_def)
  show "w' = w\<lparr>socket_pool := (socket_pool w)\<lparr>m_set := m_set (socket_pool w) - {k}\<rparr>\<rparr>" by (rule ne)
qed

lemma alloc_socket_none:
  "alloc_socket set_begin w = (None, w') \<Longrightarrow> w' = w"
  by (auto simp: alloc_socket_def pool_allocate_def Let_def split: if_splits)

lemma world_ok_cong:
  assumes "world_ok N held w"
    "m_init w' = m_init w" "read_is_1 w' = read_is_1 w" "write_is_1 w' = write_is_1 w"
    "m_remove_list1 w' = m_remove_list1 w" "m_remove_list2 w' = m_remove_list2 w" "mgr w' = mgr w"
    "socket_pool w' = socket_pool w" "sockets w' = sockets w"
  shows "world_ok N held w'"
  using assms by (simp add: world_ok_def lists_ok_def listed_def)

lemma world_ok_socket:
  assumes "world_ok N held w" "k \<in> held"
    "m_init w' = m_init w" "read_is_1 w' = read_is_1 w" "write_is_1 w' = write_is_1 w"
    "m_remove_list1 w' = m_remove_list1 w" "m_remove_list2 w' = m_remove_list2 w" "mgr w' = mgr w"
    "socket_pool w' = socket_pool w" "sockets w' = (sockets w)(k := s)"
  shows "world_ok N held w'"
  using assms owners_update_socket [of N held _ _ _ _ k s] by (simp add: world_ok_def lists_ok_def listed_def)

text \<open>The fields that the hooks of the application and the dispatcher leave alone.\<close>

definition resources :: "world \<Rightarrow> (nat \<Rightarrow> socket) \<times> pool \<times> (nat \<times> conn_ptr) connection_mgr \<times> nat list \<times> nat list \<times> bool \<times> bool \<times> bool \<times> conn_pools" where
  "resources w = (sockets w, socket_pool w, mgr w, m_remove_list1 w, m_remove_list2 w, read_is_1 w, write_is_1 w,
     m_init w, pools w)"

lemma resources_disp: "resources (w\<lparr>disp := d\<rparr>) = resources w"
  by (simp add: resources_def)

lemma resources_server_obj: "resources (w\<lparr>server_obj := sv\<rparr>) = resources w"
  by (simp add: resources_def)

lemma world_ok_resources: "resources w' = resources w \<Longrightarrow> world_ok N held w \<Longrightarrow> world_ok N held w'"
  by (simp add: resources_def world_ok_def lists_ok_def listed_def)

lemma world_do_task_resources: "world_do_task set_begin gid r s w = Some w' \<Longrightarrow> resources w' = resources w"
  by (auto simp: world_do_task_def resources_def split: prod.splits dispatch.splits)

lemma on_new_resources:
  assumes "\<And>v w. resources (snd (on_new v w)) = resources w" "mgr_on_new_connection on_new gid m w = Some w'"
  shows "resources w' = resources w"
  using assms
  by (auto simp: mgr_on_new_connection_def mgr_if_exist_def safe_mapping_if_exist_def split: if_splits option.splits)

text \<open>The three ways the second half of an accept ends.\<close>

lemma accept_register_outcome:
  assumes m_ok: "mgr_ok (mgr w)" and hook: "\<And>v w. resources (snd (on_new v w)) = resources w"
    and run: "accept_register set_begin on_new gid k w = Some (go, w')"
  obtains (none) ps where "conn_create set_begin (mgr_task_type (mgr w)) (pools w) = (None, ps)"
      "w' = push_wait_remove (Some k) (w\<lparr>pools := ps\<rparr>)"
    | (known) c ps m where "conn_create set_begin (mgr_task_type (mgr w)) (pools w) = (Some c, ps)"
      "mgr_ok m" "mgr_abs m = mgr_abs (mgr w)" "mgr_task_type m = mgr_task_type (mgr w)"
      "w' = push_wait_remove (Some k) ((new_connection gid k (fst c) (snd c) (w\<lparr>pools := ps\<rparr>))
              \<lparr>mgr := m, pools := conn_release (mgr_task_type m) (Some c) ps\<rparr>)"
    | (new) c ps m where "conn_create set_begin (mgr_task_type (mgr w)) (pools w) = (Some c, ps)"
      "mgr_abs (mgr w) gid = None" "mgr_ok m" "mgr_abs m = (mgr_abs (mgr w))(gid \<mapsto> (k, Some c))"
      "mgr_task_type m = mgr_task_type (mgr w)"
      "resources w' = resources ((new_connection gid k (fst c) (snd c) (w\<lparr>pools := ps\<rparr>))\<lparr>mgr := m\<rparr>)"
proof -
  obtain p ps where c: "conn_create set_begin (mgr_task_type (mgr w)) (pools w) = (p, ps)" by fastforce
  show ?thesis
  proof (cases p)
    case None
    then show ?thesis using run c by (intro none [of ps]) (simp_all add: accept_register_def)
  next
    case (Some q)
    then obtain cl i where q: "p = Some (cl, i)" by (cases q) simp
    define w1 where "w1 = new_connection gid k cl i (w\<lparr>pools := ps\<rparr>)"
    have w1: "mgr w1 = mgr w" "pools w1 = ps" by (simp_all add: w1_def new_connection_def)
    obtain m where m: "mgr_add gid (k, Some (cl, i)) (mgr w1) = (mgr_abs (mgr w1) gid = None, m)" "mgr_ok m"
      "mgr_abs m = (if mgr_abs (mgr w1) gid = None then (mgr_abs (mgr w1))(gid \<mapsto> (k, Some (cl, i))) else mgr_abs (mgr w1))"
      "m_thread_size m = m_thread_size (mgr w1)"
      by (rule mgr_add_refines [OF m_ok [folded w1(1)]])
    have type: "mgr_task_type m = mgr_task_type (mgr w)"
      using mgr_add_type [of gid "(k, Some (cl, i))" "mgr w1"] m(1) by (simp add: w1)
    show ?thesis
    proof (cases "mgr_abs (mgr w1) gid = None")
      case False
      then have "mgr_add gid (k, Some (cl, i)) (mgr w1) = (False, m)" using m(1) by simp
      then have "w' = push_wait_remove (Some k) (w1\<lparr>mgr := m, pools := conn_release (mgr_task_type m) (Some (cl, i)) (pools w1)\<rparr>)"
        using run c q by (simp add: accept_register_def Let_def w1_def)
      then show ?thesis
        using m False c q type w1 by (intro known [of "(cl, i)" ps m]) (auto simp: w1_def)
    next
      case True
      let ?w = "w1\<lparr>mgr := m\<rparr>"
      let ?w3 = "if m_use_ssl (server_obj ?w) then ?w
        else (case mgr_on_new_connection on_new gid (mgr ?w) ?w of None \<Rightarrow> ?w | Some w \<Rightarrow> w)"
      have "mgr_add gid (k, Some (cl, i)) (mgr w1) = (True, m)" using m(1) True by simp
      then have run3: "world_do_task set_begin gid True True ?w3 = Some w'"
        using run c q unfolding accept_register_def w1_def by (auto simp: Let_def)
      have "resources ?w3 = resources ?w"
        using on_new_resources [where on_new = on_new, OF hook, of gid "mgr ?w" ?w]
        by (cases "mgr_on_new_connection on_new gid (mgr ?w) ?w") auto
      with world_do_task_resources [OF run3] show ?thesis
        using m True c q type w1 by (intro new [of "(cl, i)" ps m]) (simp_all add: w1_def)
    qed
  qed
qed

lemma accept_register_ok:
  assumes ok: "world_ok N {k} w" "0 < m_sockfd (sockets w k)"
    and hook: "\<And>v w. resources (snd (on_new v w)) = resources w"
    and run: "accept_register set_begin on_new gid k w = Some (go, w')"
  shows "world_ok N {} w'"
proof -
  have m_ok: "mgr_ok (mgr w)" using ok(1) by (simp add: world_ok_def)
  show ?thesis
  proof (cases rule: accept_register_outcome [where on_new = on_new, OF m_ok hook run])
    case (1 ps)
    then show ?thesis using push_wait_remove_ok world_ok_cong [OF ok(1), of "w\<lparr>pools := ps\<rparr>"] ok(2) by simp
  next
    case (2 c ps m)
    let ?w = "(new_connection gid k (fst c) (snd c) (w\<lparr>pools := ps\<rparr>))
              \<lparr>mgr := m, pools := conn_release (mgr_task_type m) (Some c) ps\<rparr>"
    have "world_ok N {k} ?w" "0 < m_sockfd (sockets ?w k)"
      using ok 2 by (simp_all add: world_ok_def lists_ok_def listed_def new_connection_def)
    then show ?thesis using 2 push_wait_remove_ok by simp
  next
    case (3 c ps m)
    let ?w = "(new_connection gid k (fst c) (snd c) (w\<lparr>pools := ps\<rparr>))\<lparr>mgr := m\<rparr>"
    have "world_ok N {} ?w"
      using ok 3 owners_register [of N k _ _ "mgr_abs (mgr w)" "sockets w" gid]
      by (simp add: world_ok_def lists_ok_def listed_def new_connection_def)
    then show ?thesis using world_ok_resources [OF 3(6)] by simp
  qed
qed

lemma accept_one_ok:
  assumes ok: "world_ok N {} w" and bo: "begin_ok set_begin"
    and hook: "\<And>v w. resources (snd (on_new v w)) = resources w"
    and run: "accept_one set_begin os ssl on_new fd w = Some (go, w')"
  shows "world_ok N {} w'"
proof (cases "fd \<le> 0")
  case True
  then show ?thesis using run ok by (simp add: accept_one_def)
next
  case fd: False
  obtain ko w1 where a: "alloc_socket set_begin w = (ko, w1)" by fastforce
  show ?thesis
  proof (cases ko)
    case None
    then have "w1 = w" using a alloc_socket_none by simp
    then have "w' = w\<lparr>calls := calls w @ [Sys_close fd]\<rparr>" using run a fd None by (simp add: accept_one_def)
    then show ?thesis using world_ok_cong [OF ok, of w'] by simp
  next
    case (Some k)
    note w1 = alloc_socket_ok [OF ok bo a [unfolded Some]]
    obtain new_ok fd_ok where ssl: "ssl fd = (new_ok, fd_ok)" by fastforce
    define w2 where "w2 = new_socket os fd k w1"
    define w3 where "w3 = (if m_use_ssl (server_obj w2)
       then w2\<lparr>sockets := (sockets w2)(k := (sockets w2 k)\<lparr>m_ssl_instance := new_ok\<rparr>)\<rparr> else w2)"
    have w2: "world_ok N {k} w2" "0 < m_sockfd (sockets w2 k)"
      using fd world_ok_socket [OF w1(1), of k w2] by (auto simp: w2_def new_socket_def Let_def)
    have w3: "world_ok N {k} w3" "0 < m_sockfd (sockets w3 k)"
      using w2 world_ok_socket [OF w2(1), of k w3] by (auto simp: w3_def)
    have "accept_one set_begin os ssl on_new fd w = (if m_use_ssl (server_obj w3) \<and> (\<not> new_ok \<or> \<not> fd_ok)
        then Some (True, push_wait_remove (Some k) w3) else accept_register set_begin on_new (next_gid w1) k w3)"
      unfolding accept_one_def w2_def w3_def using a Some fd ssl by (simp add: Let_def)
    with run show ?thesis
      using push_wait_remove_ok [OF w3] accept_register_ok [where on_new = on_new, OF w3 hook]
      by (auto split: if_splits)
  qed
qed

lemma accept_loop_ok:
  assumes "world_ok N {} w" "begin_ok set_begin" "\<And>v w. resources (snd (on_new v w)) = resources w"
    "accept_loop set_begin os ssl on_new n fds w = Some w'"
  shows "world_ok N {} w'"
  using assms(1,4)
proof (induction n arbitrary: fds w)
  case 0
  then show ?case by simp
next
  case (Suc n)
  show ?case
  proof (cases fds)
    case Nil
    then show ?thesis using Suc.prems by simp
  next
    case (Cons fd rest)
    with Suc.prems(2) obtain go w1 where one: "accept_one set_begin os ssl on_new fd w = Some (go, w1)"
      by (auto split: option.splits)
    have "world_ok N {} w1" by (rule accept_one_ok [OF Suc.prems(1) assms(2,3) one])
    with Suc.IH [of w1 rest] Suc.prems(2) Cons one show ?thesis by (cases go) auto
  qed
qed

lemma handler_remove_fields:
  assumes "m_init w" "0 < m_sockfd (sockets w k)"
  obtains e s cs where "snd (handler_remove ctl (Some k) w) =
    w\<lparr>m_epoll := e, sockets := (sockets w)(k := s), calls := cs,
      socket_pool := (socket_pool w)\<lparr>m_set := insert k (m_set (socket_pool w))\<rparr>\<rparr>"
proof -
  obtain r p where d: "poller_del ctl (m_sockfd (sockets w k)) 0 (m_epoll w) = (r, p)" by fastforce
  obtain i where r: "r = (i, snd r)" by (cases r) simp
  have dt: "handler_detach ctl k w = (i, w\<lparr>m_epoll := p\<rparr>)"
    using d r assms(1) by (auto simp: handler_detach_def split: prod.splits)
  obtain cs s where "socket_close (sockets w k) = (cs, s)" by fastforce
  then show ?thesis
    using that [where e = p and s = s and cs = "calls w @ cs"] assms dt by (simp add: handler_remove_def pool_release_def)
qed

lemma remove_all_ok:
  assumes "m_init w" "owners_ok N {} (m_set (socket_pool w)) ks table (sockets w)"
  shows "\<exists>e p s cs. fold (\<lambda>k w. snd (handler_remove ctl (Some k) w)) ks w =
       w\<lparr>m_epoll := e, socket_pool := p, sockets := s, calls := cs\<rparr> \<and> owners_ok N {} (m_set p) [] table s"
  using assms
proof (induction ks arbitrary: w)
  case Nil
  then show ?case
    by (intro exI [of _ "m_epoll w"] exI [of _ "socket_pool w"] exI [of _ "sockets w"] exI [of _ "calls w"]) simp
next
  case (Cons k ks)
  have "0 < m_sockfd (sockets w k)" using Cons.prems(2) by (simp add: owners_ok_def)
  then obtain e s cs where r: "snd (handler_remove ctl (Some k) w) =
    w\<lparr>m_epoll := e, sockets := (sockets w)(k := s), calls := cs,
      socket_pool := (socket_pool w)\<lparr>m_set := insert k (m_set (socket_pool w))\<rparr>\<rparr>" (is "_ = ?w")
    by (rule handler_remove_fields [OF Cons.prems(1)])
  have "m_init ?w" "owners_ok N {} (m_set (socket_pool ?w)) ks table (sockets ?w)"
    using Cons.prems owners_release [OF Cons.prems(2)] by simp_all
  from Cons.IH [OF this] show ?case by (auto simp: r)
qed

lemma update_wait_remove_eq:
  assumes "world_ok N {} w" "update_wait_remove ctl removed w = (r, w')"
  shows "r = set (listed w)" "world_ok N {} w'" "listed w' = []" "mgr w' = mgr w"
    "m_set (socket_pool w') = m_set (socket_pool w) \<union> set (listed w)"
proof -
  define w1 where "w1 = w\<lparr>write_is_1 := \<not> write_is_1 w, read_is_1 := \<not> read_is_1 w\<rparr>"
  define ks where "ks = (if read_is_1 w1 then m_remove_list1 w1 else m_remove_list2 w1)"
  have init: "m_init w" and l: "lists_ok w" using assms(1) by (simp_all add: world_ok_def lists_ok_def)
  have ks: "ks = listed w" using l listed_lists_ok [OF l] by (auto simp: ks_def w1_def lists_ok_def)
  have ow: "owners_ok N {} (m_set (socket_pool w1)) ks (mgr_abs (mgr w)) (sockets w1)"
    using assms(1) by (simp add: ks w1_def world_ok_def)
  have "m_init w1" using init by (simp add: w1_def)
  from remove_all_ok [OF this ow, of ctl] obtain e p s cs where
    f: "fold (\<lambda>k w. snd (handler_remove ctl (Some k) w)) ks w1 =
       w1\<lparr>m_epoll := e, socket_pool := p, sockets := s, calls := cs\<rparr>"
    and p: "owners_ok N {} (m_set p) [] (mgr_abs (mgr w)) s" by blast
  let ?w = "w1\<lparr>m_epoll := e, socket_pool := p, sockets := s, calls := cs\<rparr>"
  have res: "(r, w') = (set ks, if read_is_1 ?w then ?w\<lparr>m_remove_list1 := []\<rparr> else ?w\<lparr>m_remove_list2 := []\<rparr>)"
    using assms(2) init f [unfolded ks_def] 
    by (cases "read_is_1 w1") (auto simp: update_wait_remove_def Let_def w1_def [symmetric] ks_def)
  show "r = set (listed w)" using res ks by simp
  show "listed w' = []" using res l by (auto simp: listed_def lists_ok_def w1_def split: if_splits)
  show "mgr w' = mgr w" using res by (auto simp: w1_def)
  have "lists_ok w'" using res l by (auto simp: lists_ok_def w1_def split: if_splits)
  moreover have f': "socket_pool w' = p" "sockets w' = s" "mgr w' = mgr w" using res by (auto simp: w1_def)
  ultimately show "world_ok N {} w'"
    using p assms(1) \<open>listed w' = []\<close> by (simp add: world_ok_def)
  have "owners_ok N {} (m_set (socket_pool w)) (listed w) (mgr_abs (mgr w)) (sockets w)"
    using assms(1) by (simp add: world_ok_def)
  then show "m_set (socket_pool w') = m_set (socket_pool w) \<union> set (listed w)"
    using p f' by (auto simp: owners_ok_def)
qed

lemma push_wait_remove_mgr: "push_wait_remove p (w\<lparr>mgr := m\<rparr>) = (push_wait_remove p w)\<lparr>mgr := m\<rparr>"
  by (simp add: push_wait_remove_def split: option.split)

lemma close_connection_ok:
  assumes ok: "world_ok N {} w"
    and hook: "\<And>v w. fst (on_close v w) = Inr ()" "\<And>v w. resources (snd (on_close v w)) = resources w"
    and run: "close_connection on_close gid w = Some w'"
  shows "world_ok N {} w'"
proof -
  let ?release = "\<lambda>key v w. push_wait_remove (Some (fst v))
                      (w\<lparr>pools := conn_release (mgr_task_type (mgr w)) (snd v) (pools w)\<rparr>)"
  have m_ok: "mgr_ok (mgr w)" using ok by (simp add: world_ok_def)
  show ?thesis
  proof (rule mgr_remove_refines [OF m_ok, of on_close gid "Some ?release" None w])
    fix m
    assume m: "mgr_remove on_close gid (Some ?release) None (mgr w) w = Some (m, case mgr_abs (mgr w) gid of
         None \<Rightarrow> (case None of None \<Rightarrow> w | Some f \<Rightarrow> f gid w)
       | Some v \<Rightarrow> (case on_close v w of (Inl e, s) \<Rightarrow> s | (Inr _, s) \<Rightarrow> (case Some ?release of None \<Rightarrow> s | Some f \<Rightarrow> f gid v s)))"
      "mgr_ok m" "mgr_abs m = (mgr_abs (mgr w))(gid := None)" "m_thread_size m = m_thread_size (mgr w)"
    show ?thesis
    proof (cases "mgr_abs (mgr w) gid")
      case None
      then have "w' = w\<lparr>mgr := m\<rparr>" using run m(1) by (simp add: close_connection_def)
      moreover have "(mgr_abs (mgr w))(gid := None) = mgr_abs (mgr w)" using None by auto
      ultimately show ?thesis using ok m by (simp add: world_ok_def lists_ok_def listed_def)
    next
      case (Some v)
      obtain k c where v: "v = (k, c)" by fastforce
      obtain w1 where w1: "on_close v w = (Inr (), w1)" using hook(1) [of v w] by (cases "on_close v w") auto
      then have r: "resources w1 = resources w" using hook(2) [of v w] by simp
      let ?w = "w1\<lparr>pools := conn_release (mgr_task_type (mgr w1)) c (pools w1), mgr := m\<rparr>"
      have ow: "owners_ok N {} (m_set (socket_pool w)) (listed w) (mgr_abs (mgr w)) (sockets w)"
        using ok by (simp add: world_ok_def)
      note un = owners_unregister [OF ow Some [unfolded v]]
      have "world_ok N {k} ?w" "0 < m_sockfd (sockets ?w k)"
        using un m ok r by (simp_all add: world_ok_def lists_ok_def listed_def resources_def)
      moreover have "w' = push_wait_remove (Some k) ?w"
        using run m(1) Some v w1 by (simp add: close_connection_def push_wait_remove_mgr)
      ultimately show ?thesis using push_wait_remove_ok by simp
    qed
  qed
qed

lemma conn_mark_close_resources:
  "conn_mark_close set_begin v w = Some w' \<Longrightarrow> resources w' = resources w"
  by (auto simp: conn_mark_close_def Let_def resources_def dest!: world_do_task_resources
      split: option.splits prod.splits list.splits request.splits)

lemma handler_detach_resources: "resources (snd (handler_detach ctl k w)) = resources w"
  by (auto simp: handler_detach_def resources_def split: prod.splits)

lemma handler_attach_resources: "resources (snd (handler_attach ctl k b w)) = resources w"
  by (auto simp: handler_attach_def resources_def Let_def split: prod.splits)

lemma connection_event_resources:
  assumes "connection_event set_begin ctl k ev w = Some w'"
  shows "resources w' = resources w"
  using assms world_do_task_resources conn_mark_close_resources handler_detach_resources [of ctl k w]
  by (fastforce simp: connection_event_def Let_def world_mark_close_def split: if_splits option.splits)

subsection \<open>The interleaving of the event loop with the workers\<close>

text \<open>
  One step is one critical section: a sweep of the removal list, one accepted connection, one event,
  one close by a worker, or anything that leaves the resources alone (the clock, the hooks, the
  workers, \<open>attach\<close>). The answers of the kernel may differ from step to step. The hooks of the
  application leave the resources alone, and its close hook does not throw.
\<close>

inductive world_step :: "(nat set \<Rightarrow> nat) \<Rightarrow> world \<Rightarrow> world \<Rightarrow> bool" for set_begin where
  Sweep: "update_wait_remove ctl removed w = (r, w') \<Longrightarrow> world_step set_begin w w'"
| Accept: "(\<And>v w. resources (snd (on_new v w)) = resources w) \<Longrightarrow>
    accept_one set_begin os ssl on_new fd w = Some (go, w') \<Longrightarrow> world_step set_begin w w'"
| Event: "connection_event set_begin ctl k ev w = Some w' \<Longrightarrow> world_step set_begin w w'"
| Close: "(\<And>v w. fst (on_close v w) = Inr ()) \<Longrightarrow> (\<And>v w. resources (snd (on_close v w)) = resources w) \<Longrightarrow>
    close_connection on_close gid w = Some w' \<Longrightarrow> world_step set_begin w w'"
| Other: "resources w' = resources w \<Longrightarrow> world_step set_begin w w'"

lemma world_step_ok:
  assumes "world_step set_begin w w'" "begin_ok set_begin" "world_ok N {} w"
  shows "world_ok N {} w'"
  using assms
proof (induction rule: world_step.induct)
  case (Sweep ctl removed w r w')
  then show ?case by (blast intro: update_wait_remove_eq(2))
next
  case (Accept on_new os ssl fd w go w')
  then show ?case by (blast intro: accept_one_ok)
next
  case (Event ctl k ev w w')
  then show ?case by (blast intro: world_ok_resources connection_event_resources)
next
  case (Close on_close gid w w')
  then show ?case by (blast intro: close_connection_ok)
next
  case (Other w' w)
  then show ?case by (blast intro: world_ok_resources)
qed

lemma world_reachable_ok:
  assumes "(world_step set_begin)\<^sup>*\<^sup>* w w'" "begin_ok set_begin" "world_ok N {} w"
  shows "world_ok N {} w'"
  using assms by (induction rule: rtranclp_induct) (blast intro: world_step_ok)+

text \<open>A turn of the main loop is a sequence of such steps.\<close>

lemma accept_loop_steps:
  assumes "\<And>v w. resources (snd (on_new v w)) = resources w"
    "accept_loop set_begin os ssl on_new n fds w = Some w'"
  shows "(world_step set_begin)\<^sup>*\<^sup>* w w'"
  using assms(2)
proof (induction n arbitrary: fds w)
  case (Suc n)
  show ?case
  proof (cases fds)
    case (Cons fd rest)
    with Suc.prems obtain go w1 where one: "accept_one set_begin os ssl on_new fd w = Some (go, w1)"
      by (auto split: option.splits)
    have "world_step set_begin w w1" by (rule Accept [OF assms(1) one])
    moreover have "(world_step set_begin)\<^sup>*\<^sup>* w1 w'"
      using Suc.IH [of rest w1] Suc.prems Cons one by (cases go) auto
    ultimately show ?thesis by (rule converse_rtranclp_into_rtranclp)
  qed (use Suc.prems in simp)
qed simp

lemma process_events_steps:
  assumes "\<And>v w. resources (snd (on_new v w)) = resources w"
    "process_events set_begin os ssl ctl on_new removed fds evs w = Some w'"
  shows "(world_step set_begin)\<^sup>*\<^sup>* w w'"
  using assms(2)
proof (induction evs arbitrary: w)
  case (Cons e evs)
  obtain p ev where e: "e = (p, ev)" by fastforce
  have "\<exists>w1. (world_step set_begin)\<^sup>*\<^sup>* w w1 \<and> process_events set_begin os ssl ctl on_new removed fds evs w1 = Some w'"
  proof (cases p)
    case Ev_null
    then show ?thesis using Cons.prems e by auto
  next
    case Ev_server
    with Cons.prems e obtain w1
      where "accept_loop set_begin os ssl on_new (m_accept_per_tick (server_obj w)) fds w = Some w1"
        "process_events set_begin os ssl ctl on_new removed fds evs w1 = Some w'"
      by (auto split: option.splits)
    then show ?thesis using accept_loop_steps [where on_new = on_new, OF assms(1)] by meson
  next
    case (Ev_socket k)
    show ?thesis
    proof (cases "k \<in> removed")
      case True
      then show ?thesis using Cons.prems e Ev_socket by auto
    next
      case False
      with Cons.prems e Ev_socket obtain w1 where "connection_event set_begin ctl k ev w = Some w1"
        "process_events set_begin os ssl ctl on_new removed fds evs w1 = Some w'"
        by (auto split: option.splits)
      then show ?thesis using Event by (meson r_into_rtranclp)
    qed
  qed
  with Cons.IH show ?case by (meson rtranclp_trans)
qed simp

lemma handle_turn_steps:
  assumes "\<And>v w. resources (snd (on_new v w)) = resources w" "\<And>w. resources (tick w) = resources w"
    "handle_turn set_begin os ssl ctl on_new tick t w = Some (go, w')"
  shows "(world_step set_begin)\<^sup>*\<^sup>* w w'"
proof -
  obtain r w1 where u: "update_wait_remove ctl {} w = (r, w1)" by fastforce
  define w2 where "w2 = tick (clock_update (now_seconds t) w1)"
  have one: "world_step set_begin w w1" using u by (rule Sweep)
  have res: "resources w2 = resources w1"
    using assms(2) by (simp add: w2_def clock_update_def resources_def)
  have turn: "handle_turn set_begin os ssl ctl on_new tick t w =
     (if lastest_tick_time w1 \<noteq> now_seconds t \<and> is_stop (server_obj w1)
      then Some (False, w1\<lparr>disp := (disp w1)\<lparr>workers := snd (on_stop (server_obj w1) (workers (disp w1)))\<rparr>\<rparr>)
      else if num t = 0 then Some (True, w2)
      else if num t < 0
      then (if wait_errno t = EINTR then Some (True, w2) else Some (True, w2\<lparr>server_obj := to_stop (server_obj w2)\<rparr>))
      else map_option (Pair True)
             (process_events set_begin os ssl ctl on_new r (accepted t) (take (nat (num t)) (events t)) w2))"
    by (simp add: handle_turn_def u w2_def Let_def)
  have "resources w' = resources w1 \<or>
    process_events set_begin os ssl ctl on_new r (accepted t) (take (nat (num t)) (events t)) w2 = Some w'"
    using assms(3) res unfolding turn by (auto simp: resources_disp resources_server_obj split: if_splits)
  then have "(world_step set_begin)\<^sup>*\<^sup>* w1 w'"
  proof
    assume "resources w' = resources w1"
    then show ?thesis by (blast intro: Other)
  next
    assume run: "process_events set_begin os ssl ctl on_new r (accepted t) (take (nat (num t)) (events t)) w2 = Some w'"
    have "world_step set_begin w1 w2" by (rule Other [OF res])
    then show ?thesis
      using process_events_steps [where on_new = on_new, OF assms(1) run] by (rule converse_rtranclp_into_rtranclp)
  qed
  with one show ?thesis by (rule converse_rtranclp_into_rtranclp)
qed

subsection \<open>Ids of connections\<close>

text \<open>The ids that a sequence of clock readings and new sockets gives out.\<close>

datatype gid_op = Clock nat | New os int nat

fun issue :: "gid_op list \<Rightarrow> world \<Rightarrow> nat list" where
  "issue [] w = []"
| "issue (Clock t # ops) w = issue ops (clock_update t w)"
| "issue (New os fd k # ops) w = s_gid (sockets (new_socket os fd k w) k) # issue ops (new_socket os fd k w)"

fun clocks :: "gid_op list \<Rightarrow> nat list" where
  "clocks [] = []"
| "clocks (Clock t # ops) = t # clocks ops"
| "clocks (New os fd k # ops) = clocks ops"

text \<open>Fewer than \<open>2 ^ 32\<close> sockets in each second, when \<open>n\<close> of second \<open>s\<close> are counted already.\<close>

fun few_per_second :: "nat \<Rightarrow> nat \<Rightarrow> gid_op list \<Rightarrow> bool" where
  "few_per_second s n [] \<longleftrightarrow> n < 2 ^ 32"
| "few_per_second s n (Clock t # ops) \<longleftrightarrow> n < 2 ^ 32 \<and> few_per_second t (if t = s then n else 0) ops"
| "few_per_second s n (New os fd k # ops) \<longleftrightarrow> few_per_second s (n + 1) ops"

lemma few_per_second_bound: "few_per_second s n ops \<Longrightarrow> n < 2 ^ 32"
  by (induction s n ops rule: few_per_second.induct) auto

lemma next_gid_value:
  assumes "lastest_tick_time w < 2 ^ 32" "gid_seq w + 1 < 2 ^ 32"
  shows "next_gid w = lastest_tick_time w * 2 ^ 32 + gid_seq w + 1" "uadd64 (gid_seq w) 1 = gid_seq w + 1"
proof -
  have "lastest_tick_time w * 2 ^ 32 + gid_seq w + 1 < 2 ^ 64" using assms by simp
  then show "next_gid w = lastest_tick_time w * 2 ^ 32 + gid_seq w + 1" "uadd64 (gid_seq w) 1 = gid_seq w + 1"
    using assms by (simp_all add: next_gid_def uadd64_def)
qed

lemma issue_increases:
  assumes "sorted (lastest_tick_time w # clocks ops)" "lastest_tick_time w < 2 ^ 32" "\<forall>t \<in> set (clocks ops). t < 2 ^ 32"
    "few_per_second (lastest_tick_time w) (gid_seq w) ops"
  shows "sorted_wrt (<) ((lastest_tick_time w * 2 ^ 32 + gid_seq w) # issue ops w)"
  using assms
proof (induction ops arbitrary: w)
  case Nil
  then show ?case by simp
next
  case (Cons op ops)
  show ?case
  proof (cases op)
    case (Clock t)
    have t: "lastest_tick_time w \<le> t" "t < 2 ^ 32" using Cons.prems Clock by simp_all
    let ?w = "clock_update t w"
    have f: "lastest_tick_time ?w = t" "gid_seq ?w = (if lastest_tick_time w = t then gid_seq w else 0)"
      by (simp_all add: clock_update_def)
    have "sorted_wrt (<) ((lastest_tick_time ?w * 2 ^ 32 + gid_seq ?w) # issue ops ?w)"
      by (rule Cons.IH) (use Cons.prems Clock t f in auto)
    moreover have "lastest_tick_time w * 2 ^ 32 + gid_seq w \<le> t * 2 ^ 32 + gid_seq ?w"
    proof (cases "lastest_tick_time w = t")
      case False
      then have "(lastest_tick_time w + 1) * 2 ^ 32 \<le> t * 2 ^ 32" using t by (intro mult_le_mono1) simp
      then show ?thesis using few_per_second_bound [OF Cons.prems(4)] by simp
    qed (simp add: f)
    ultimately show ?thesis using Clock f by (auto simp: less_le_trans dest: le_less_trans)
  next
    case (New os fd k)
    let ?w = "new_socket os fd k w"
    have v: "next_gid w = lastest_tick_time w * 2 ^ 32 + gid_seq w + 1" "uadd64 (gid_seq w) 1 = gid_seq w + 1"
      by (rule next_gid_value; use Cons.prems few_per_second_bound [of _ _ ops] New in force)+
    have f: "lastest_tick_time ?w = lastest_tick_time w" "gid_seq ?w = gid_seq w + 1"
      "s_gid (sockets ?w k) = lastest_tick_time w * 2 ^ 32 + gid_seq w + 1"
      unfolding new_socket_def Let_def v by simp_all
    have "sorted_wrt (<) ((lastest_tick_time ?w * 2 ^ 32 + gid_seq ?w) # issue ops ?w)"
      by (rule Cons.IH) (use Cons.prems New f in auto)
    with New f show ?thesis by auto
  qed
qed

subsection \<open>A small server\<close>

definition demo_world :: world where
  "demo_world =
     \<lparr>m_init = False, m_max_connections = 0, m_wait_time = 0, m_epoll = event_poller_new False,
      m_server = socket_new [] 0, sockets = (\<lambda>_. socket_new [] 0),
      socket_pool = snd (pool_init True (\<lambda>_. True) 4 False pool_new), m_remove_list1 = [], m_remove_list2 = [],
      read_is_1 = False, write_is_1 = False,
      mgr = snd (connection_mgr_init STREAM_TASK 2 connection_mgr_new),
      pools = \<lparr>http_pool = pool_new, stream_pool = pool_new\<lparr>m_block := False\<rparr>, websocket_pool = pool_new\<rparr>,
      conns = (\<lambda>_ _. connection_new None), disp = demo_dispatcher, server_obj = server_new,
      lastest_tick_time = 100, gid_seq = 0, calls = []\<rparr>"

definition demo_started :: world where
  "demo_started = snd (handler_init (\<lambda>_. 3) (kernel (\<lambda>_. False)) 4 ''0.0.0.0'' 20023 4 10 demo_world)"

definition demo_accepted :: world where
  "demo_accepted = snd (the (accept_one Min (\<lambda>_. 0) (\<lambda>_. (True, True)) (\<lambda>v w. (Inr (), w)) 7 demo_started))"

lemma demo_world_ok:
  "\<not> m_init demo_world" "m_set (socket_pool demo_world) = {0..<4}" "m_remove_list1 demo_world = []"
  "m_remove_list2 demo_world = []" "mgr demo_world = snd (connection_mgr_init STREAM_TASK 2 connection_mgr_new)"
  by (simp_all add: demo_world_def pool_init_ok)

lemma demo_no_connection:
  assumes "mgr w = mgr demo_world" "pools w = pools demo_world"
  shows "accept_register Min on_new gid k w =
     Some (False, push_wait_remove (Some k) (w\<lparr>pools := pools demo_world\<rparr>))"
  using assms
  by (simp add: accept_register_def demo_world_def connection_mgr_init_def conn_create_def pool_allocate_def pool_new_def)

lemma demo_step: "world_step Min demo_started demo_accepted"
proof -
  let ?a = "accept_one Min (\<lambda>_. 0) (\<lambda>_. (True, True)) (\<lambda>v w. (Inr (), w)) 7 demo_started"
  have same: "mgr demo_started = mgr demo_world" "pools demo_started = pools demo_world"
    by (simp_all add: demo_started_def handler_init_def Let_def split: prod.split)
  obtain ko w1 where a: "alloc_socket Min demo_started = (ko, w1)" by fastforce
  have "mgr w1 = mgr demo_world" "pools w1 = pools demo_world"
    using a same by (auto simp: alloc_socket_def split: if_splits prod.splits alloc.splits)
  then have "?a \<noteq> None"
    by (cases ko) (simp_all add: accept_one_def a new_socket_def Let_def demo_no_connection)
  then show ?thesis
    unfolding demo_accepted_def
    by (cases ?a) (auto intro: Accept [where on_new = "\<lambda>v w. (Inr (), w)"])
qed

subsection \<open>Properties\<close>

text \<open>C4: no socket leaks. Start the event loop over a full pool and an empty table; after any
  interleaving of sweeps, accepts (with full pools, failed TLS set-up or a duplicate id), events,
  closes by workers and hooks, every socket object is in exactly one place: free, waiting for removal
  (once), or registered under one id. Once no connection is registered, the next sweep returns every
  socket to the pool.\<close>

theorem sockets_never_leak:
  assumes "begin_ok set_begin" "\<not> m_init w" "m_set (socket_pool w) = {0..<N}"
    and "m_remove_list1 w = []" "m_remove_list2 w = []" "mgr w = snd (connection_mgr_init tt n m)" "0 < n"
    and "(world_step set_begin)\<^sup>*\<^sup>* (snd (handler_init os ctl epfd ip port mc wt w)) w'"
  shows "m_set (socket_pool w') \<union> set (listed w') \<union> reg_of (mgr_abs (mgr w')) = {0..<N} \<and>
         distinct (listed w') \<and> one_gid (mgr_abs (mgr w')) \<and>
         m_set (socket_pool w') \<inter> (set (listed w') \<union> reg_of (mgr_abs (mgr w'))) = {} \<and>
         set (listed w') \<inter> reg_of (mgr_abs (mgr w')) = {} \<and>
         (mgr_abs (mgr w') = (\<lambda>_. None) \<longrightarrow>
            m_set (socket_pool (snd (update_wait_remove ctl' {} w'))) = {0..<N})"
proof -
  have "world_ok N {} (snd (handler_init os ctl epfd ip port mc wt w))"
    using assms mgr_ok_init [of n tt m] mgr_abs_init [of n tt m]
    by (auto simp: handler_init_def Let_def world_ok_def lists_ok_def listed_def owners_ok_def reg_of_def one_gid_def
        split: prod.split)
  from world_reachable_ok [OF assms(8,1) this] have ok: "world_ok N {} w'" .
  then have ow: "owners_ok N {} (m_set (socket_pool w')) (listed w') (mgr_abs (mgr w')) (sockets w')"
    by (simp add: world_ok_def)
  obtain r w2 where u: "update_wait_remove ctl' {} w' = (r, w2)" by fastforce
  have "m_set (socket_pool w2) = m_set (socket_pool w') \<union> set (listed w')"
    by (rule update_wait_remove_eq(5) [OF ok u])
  with ow u show ?thesis by (auto simp: owners_ok_def reg_of_def)
qed

theorem sockets_never_leak_witness:
  "m_set (socket_pool demo_accepted) \<union> set (listed demo_accepted) \<union> reg_of (mgr_abs (mgr demo_accepted)) = {0..<4} \<and>
   distinct (listed demo_accepted)"
proof -
  have "(world_step Min)\<^sup>*\<^sup>* demo_started demo_accepted" using demo_step by (rule r_into_rtranclp)
  from sockets_never_leak [OF begin_ok_Min demo_world_ok(1-5) _ this [unfolded demo_started_def]]
  show ?thesis by simp
qed

text \<open>C12: the ids given to connections increase strictly, so no id is given twice, as long as the
  clock does not step back and shows a second below \<open>2 ^ 32\<close> (before the year 2106), and fewer than
  \<open>2 ^ 32\<close> connections come in each second. The clock of the code is the system clock, which can be
  set back; \<open>clock_back_repeats_gid\<close> shows what happens then.\<close>

theorem gids_never_repeat:
  assumes "sorted (lastest_tick_time w # clocks ops)" "lastest_tick_time w < 2 ^ 32" "\<forall>t \<in> set (clocks ops). t < 2 ^ 32"
    "few_per_second (lastest_tick_time w) (gid_seq w) ops"
  shows "sorted_wrt (<) (issue ops w)"
  using issue_increases [OF assms] by simp

theorem gids_never_repeat_witness:
  "sorted_wrt (<) (issue [New (\<lambda>_. 0) 7 0, Clock 101, New (\<lambda>_. 0) 8 1] demo_world)"
  by (rule gids_never_repeat) (simp_all add: demo_world_def)

lemma clock_back_repeats_gid:
  assumes "gid_seq w = 0" "t \<noteq> lastest_tick_time w"
  shows "issue [New os fd k, Clock t, Clock (lastest_tick_time w), New os' fd' k'] w = [next_gid w, next_gid w]"
  using assms by (simp add: new_socket_def clock_update_def Let_def next_gid_def)

text \<open>\<open>attach\<close> registers the socket whether or not the kernel knew its descriptor, asks for
  writability when told to, and never drops a pending interest in writability.\<close>

lemma attach_registers:
  assumes "m_init w" "epoll_documented reg ctl" "\<not> m_et (m_epoll w)"
  shows "case handler_attach ctl k listen_send w of (ret, w') \<Rightarrow>
     ret = 0 \<and> resources w' = resources w \<and>
     (let fd = m_sockfd (sockets w k); old = get_events_by_fd fd (m_epoll w); ev = get_events_by_fd fd (m_epoll w') in
      (listen_send \<longrightarrow> ev AND EPOLLOUT \<noteq> 0) \<and>
      (if old AND EPOLLOUT \<noteq> 0 then ev = old else ev AND EPOLLIN \<noteq> 0 \<and> ev AND EPOLLONESHOT \<noteq> 0) \<and>
      (\<forall>fd'. fd' \<noteq> fd \<longrightarrow> get_events_by_fd fd' (m_epoll w') = get_events_by_fd fd' (m_epoll w)))"
proof -
  let ?fd = "m_sockfd (sockets w k)"
  have mod: "fst (ctl EPOLL_CTL_MOD ?fd ev) = 0" if "reg ?fd" for ev
    using assms(2) that by (simp add: epoll_documented_def)
  have add: "ctl EPOLL_CTL_ADD ?fd ev = (if reg ?fd then (-1, EEXIST) else (0, 0))" for ev
    using assms(2) by (simp add: epoll_documented_def)
  show ?thesis
    using assms(1,3) mod
    by (auto simp: handler_attach_def poller_add_def poller_mod_def poller_ctrl_def Let_def add
        get_events_by_fd_def resources_def case_prod_beta)
qed

end
