(* ===== verification/Tk_Websocket.thy ===== *)
theory Tk_Websocket
  imports Tk_Connection Tk_Sha1 Tk_Base64
begin

unbundle bit_operations_syntax

section \<open>WebSocket frames and handshake (src/app/websocket_app.cpp, src/task/websocket_task.cpp)\<close>

text \<open>
  The application decodes the frames in the receive buffer and sends each payload, as a new frame, to
  every player that is online. The functions follow \<open>process_connection\<close>, \<open>process_frame\<close>
  and \<open>send_packet\<close>; the set of online players is a parameter, a packet that is sent is the pair
  of its target and its bytes. The answer to the handshake is computed with the SHA-1 and base64
  theories.

  The theory shows that the decoder inverts the frame format of RFC 6455, masked or not, however the
  stream is cut into reads; that the encoder of the application produces that format; that the
  handshake key is the one of the RFC; and that a frame without payload stops the decoder for good.
\<close>

record websocket_frame =
  fin :: byte
  opcode :: byte
  mask :: byte
  payload_length :: nat
  masking_key :: bytes
  payload_data :: bytes

datatype websocket_frame_type =
    CONNECTION_CLOSE_FRAME | TEXT_FRAME | BINARY_FRAME | PONG | PING | CONTINUATION_FRAME
  | FURTHER_NON_CONTROL | FURTHER_CONTROL | ERROR

definition n_2_websocket_frame_type :: "byte \<Rightarrow> websocket_frame_type" where
  "n_2_websocket_frame_type n0 =
     (let n = n0 AND 0x0f in
      if n = 0x1 then TEXT_FRAME
      else if n = 0x2 then BINARY_FRAME
      else if n = 0x0 then CONTINUATION_FRAME
      else if 0x3 \<le> n \<and> n \<le> 0x7 then FURTHER_NON_CONTROL
      else if 0xb \<le> n \<and> n \<le> 0xf then FURTHER_CONTROL
      else if n = 0x8 then CONNECTION_CLOSE_FRAME
      else if n = 0x9 then PING
      else if n = 0xa then PONG
      else ERROR)"

definition websocket_frame_type_2_n :: "websocket_frame_type \<Rightarrow> byte \<Rightarrow> byte" where
  "websocket_frame_type_2_n t idx =
     (if t = TEXT_FRAME then 0x1
      else if t = BINARY_FRAME then 0x2
      else if t = CONTINUATION_FRAME then 0x0
      else if t = FURTHER_NON_CONTROL \<and> 0x0 \<le> idx \<and> idx \<le> 0x4 then 0x3 + idx
      else if t = FURTHER_CONTROL \<and> 0x0 \<le> idx \<and> idx \<le> 0x5 then 0xb + idx
      else if t = CONNECTION_CLOSE_FRAME then 0x8
      else if t = PING then 0x9
      else if t = PONG then 0xa
      else 0x8)"

subsection \<open>Decoding\<close>

text \<open>
  One iteration of the loop of \<open>process_connection\<close> at \<open>index\<close>, in a block \<open>data\<close> of
  which \<open>all_data_len\<close> bytes are readable: the code stops, closes the connection, throws (a
  string longer than \<open>max_size\<close>), or has a frame whose payload starts at the returned index.
  The three parts are the extended length, the masking key and the payload.
\<close>

datatype ws_step = Ws_stop | Ws_bad | Ws_throw | Ws_frame websocket_frame nat

definition ws_length :: "bytes \<Rightarrow> nat \<Rightarrow> nat \<Rightarrow> nat \<Rightarrow> (nat \<times> nat) option" where
  "ws_length data all_data_len index len7 =
     (if len7 = 126
      then (if all_data_len \<le> index + 2 then None else Some (be_value (seg index (index + 2) data), index + 2))
      else if len7 = 127
      then (if all_data_len \<le> index + 8 then None
            else Some (push_bit 32 (be_value (seg index (index + 4) data)) OR be_value (seg (index + 4) (index + 8) data),
                       index + 8))
      else Some (len7, index))"

definition ws_key :: "bytes \<Rightarrow> nat \<Rightarrow> nat \<Rightarrow> bool \<Rightarrow> (bytes \<times> nat) option" where
  "ws_key data all_data_len index masked =
     (if masked
      then (if all_data_len \<le> index + 4 then None else Some (seg index (index + 4) data, index + 4))
      else Some ([], index))"

definition unmask :: "bytes \<Rightarrow> bytes \<Rightarrow> bytes" where
  "unmask key payload = map (\<lambda>i. payload ! i XOR key ! (i mod 4)) [0..<length payload]"

abbreviation string_max_size :: nat where
  "string_max_size \<equiv> 9223372036854775807"

definition ws_payload :: "bytes \<Rightarrow> nat \<Rightarrow> nat \<Rightarrow> websocket_frame \<Rightarrow> ws_step" where
  "ws_payload data all_data_len index frame =
     (if all_data_len \<le> index then Ws_stop
      else if all_data_len \<le> uadd64 (index - 1) (payload_length frame) then Ws_stop
      else if string_max_size < payload_length frame then Ws_throw
      else (let payload = seg index (index + payload_length frame) data;
                payload = (if mask frame \<noteq> 0 then unmask (masking_key frame) payload else payload) in
            Ws_frame (frame\<lparr>payload_data := payload\<rparr>) index))"

definition ws_parse :: "bytes \<Rightarrow> nat \<Rightarrow> nat \<Rightarrow> ws_step" where
  "ws_parse data all_data_len index =
     (let ty = n_2_websocket_frame_type (data ! index AND 0x0f) in
      if ty \<noteq> TEXT_FRAME \<and> ty \<noteq> BINARY_FRAME then Ws_bad
      else if all_data_len \<le> index + 1 then Ws_stop
      else (let masked = (data ! (index + 1) AND 0x80 \<noteq> 0) in
        if all_data_len \<le> index + 2 then Ws_stop
        else (case ws_length data all_data_len (index + 2) (unat (data ! (index + 1) AND 0x7F)) of
            None \<Rightarrow> Ws_stop
          | Some (len, index') \<Rightarrow>
              if len = 0 then Ws_stop
              else (case ws_key data all_data_len index' masked of
                  None \<Rightarrow> Ws_stop
                | Some (key, index'') \<Rightarrow>
                    ws_payload data all_data_len index''
                      \<lparr>fin = of_bool (data ! index AND 0x80 \<noteq> 0), opcode = data ! index AND 0x0f,
                       mask = of_bool masked, payload_length = len, masking_key = key, payload_data = []\<rparr>))))"

subsection \<open>Encoding and broadcast\<close>

definition packet_length :: "nat \<Rightarrow> bytes" where
  "packet_length n =
     (if n \<le> 125 then [of_nat n]
      else if n \<le> 0xFFFF then [126, of_nat (n div 256 mod 256), of_nat (n mod 256)]
      else 127 # map (\<lambda>i. of_nat (drop_bit (8 * i) n AND 0xFF)) [7, 6, 5, 4, 3, 2, 1, 0])"

datatype target = To_connection | To_gid nat

definition send_packet :: "bool \<Rightarrow> byte \<Rightarrow> bytes option \<Rightarrow> nat \<Rightarrow> (target \<times> bytes) option" where
  "send_packet has_connection first_byte data gid =
     (case data of
        None \<Rightarrow> None
      | Some bs \<Rightarrow>
          (let frame = first_byte # packet_length (length bs) @ bs in
           if gid = 0 \<and> has_connection then Some (To_connection, frame) else Some (To_gid gid, frame)))"

definition process_frame :: "nat set \<Rightarrow> websocket_frame \<Rightarrow> (target \<times> bytes) list" where
  "process_frame global_player frame =
     (let first_byte = 0x80 OR websocket_frame_type_2_n TEXT_FRAME 0 in
      List.map_filter (\<lambda>player. send_packet False first_byte (Some (payload_data frame)) player)
        (sorted_list_of_set global_player))"

lemma ws_parse_advances:
  assumes "ws_parse data n index = Ws_frame frame index'"
  shows "index < index'" "index' < n" "0 < payload_length frame"
    "payload_length frame \<le> string_max_size" "n > uadd64 (index' - 1) (payload_length frame)"
  using assms
  by (auto simp: ws_parse_def ws_length_def ws_key_def ws_payload_def Let_def split: if_splits option.splits)

text \<open>
  The loop. Each frame is processed (the packets are the result), then its bytes are taken off the
  receive buffer. An exception leaves the loop.
\<close>

function ws_loop :: "heap \<Rightarrow> nat set \<Rightarrow> bytes \<Rightarrow> nat \<Rightarrow> nat \<Rightarrow> 'p websocket_connection \<Rightarrow>
    unit res \<times> request list \<times> (target \<times> bytes) list \<times> 'p websocket_connection" where
  "ws_loop heap players data n index c =
     (if n \<le> index then (Inr (), [], [], c)
      else (case ws_parse data n index of
          Ws_stop \<Rightarrow> (Inr (), [], [], c)
        | Ws_throw \<Rightarrow> (Inl Length_error, [], [], c)
        | Ws_bad \<Rightarrow> (case mark_close websocket_on_mark_close c of (reqs, c) \<Rightarrow> (Inr (), reqs, [], c))
        | Ws_frame frame index' \<Rightarrow>
            (let packets = process_frame players frame in
             case read_ptr_move_n heap (index' - index + payload_length frame) (m_recv_buffer c) of
               (Inl e, b) \<Rightarrow> (Inl e, [], packets, c\<lparr>m_recv_buffer := b\<rparr>)
             | (Inr _, b) \<Rightarrow>
                 (case ws_loop heap players data n (index' + payload_length frame) (c\<lparr>m_recv_buffer := b\<rparr>) of
                    (r, reqs, later, c) \<Rightarrow> (r, reqs, packets @ later, c)))))"
  by pat_completeness auto

termination
  by (relation "measure (\<lambda>(_, _, _, n, index, _). n - index)") (auto dest: ws_parse_advances)

declare ws_loop.simps [simp del]

definition ws_process_connection :: "heap \<Rightarrow> nat set \<Rightarrow> 'p websocket_connection \<Rightarrow>
    unit res \<times> request list \<times> (target \<times> bytes) list \<times> 'p websocket_connection" where
  "ws_process_connection heap players c =
     (case can_readable_size heap (m_recv_buffer c) of
        (Inl e, b) \<Rightarrow> (Inl e, [], [], c\<lparr>m_recv_buffer := b\<rparr>)
      | (Inr n, b) \<Rightarrow>
          if n = 0 then (Inr (), [], [], c\<lparr>m_recv_buffer := b\<rparr>)
          else (case force_get_read_ptr heap b of
              (Inl e, b) \<Rightarrow> (Inl e, [], [], c\<lparr>m_recv_buffer := b\<rparr>)
            | (Inr data, b) \<Rightarrow> ws_loop heap players data n 0 (c\<lparr>m_recv_buffer := b\<rparr>)))"

text \<open>The answer to the handshake (\<open>websocket_task::run\<close>).\<close>

definition string_bytes :: "string \<Rightarrow> bytes" where
  "string_bytes s = map (\<lambda>c. of_nat (code c)) s"

definition ws_accept :: "string \<Rightarrow> string" where
  "ws_accept key =
     (let combine_key = key @ ''258EAFA5-E914-47DA-95CA-C5AB0DC85B11'';
          sha1_str = fst (SHA1_final (SHA1_update SHA1_reset (string_bytes combine_key))) in
      base64_encode (to_binary sha1_str) False)"

definition ws_response :: "string \<Rightarrow> bytes" where
  "ws_response key =
     string_bytes (''HTTP/1.1 101 Switching Protocols'' @ [CHR 0x0D, CHR 0x0A] @
       ''Upgrade: websocket'' @ [CHR 0x0D, CHR 0x0A] @ ''Connection: Upgrade'' @ [CHR 0x0D, CHR 0x0A] @
       ''Sec-WebSocket-Accept: '' @ ws_accept key @ [CHR 0x0D, CHR 0x0A, CHR 0x0D, CHR 0x0A])"

text \<open>The players that are online: the hooks keep the set of ids.\<close>

definition ws_on_close_connection :: "nat \<Rightarrow> nat set \<Rightarrow> nat set" where
  "ws_on_close_connection gid global_player = global_player - {gid}"

definition ws_on_new_connection :: "nat \<Rightarrow> nat set \<Rightarrow> nat set" where
  "ws_on_new_connection gid global_player = insert gid global_player"

subsection \<open>The frame format of RFC 6455\<close>

definition rfc_length :: "bool \<Rightarrow> nat \<Rightarrow> bytes" where
  "rfc_length masked n =
     (let b = (if masked then 0x80 else 0) in
      if n \<le> 125 then [b OR of_nat n]
      else if n \<le> 65535 then (b OR 126) # be_bytes 2 n
      else (b OR 127) # be_bytes 8 n)"

text \<open>Masking as the RFC describes it: the key is used byte by byte, again and again.\<close>

fun rfc_mask :: "bytes \<Rightarrow> bytes \<Rightarrow> bytes" where
  "rfc_mask key [] = []"
| "rfc_mask key (b # bs) = (hd key XOR b) # rfc_mask (rotate1 key) bs"

definition rfc_frame :: "bool \<Rightarrow> byte \<Rightarrow> bytes option \<Rightarrow> bytes \<Rightarrow> bytes" where
  "rfc_frame final op key payload =
     ((if final then 0x80 else 0) OR op) # rfc_length (key \<noteq> None) (length payload) @
     (case key of None \<Rightarrow> payload | Some k \<Rightarrow> k @ rfc_mask k payload)"

definition rfc_ok :: "byte \<Rightarrow> bytes option \<Rightarrow> bytes \<Rightarrow> bool" where
  "rfc_ok op key payload \<longleftrightarrow>
     (op = 1 \<or> op = 2) \<and> (\<forall>k. key = Some k \<longrightarrow> length k = 4) \<and> 0 < length payload \<and> length payload \<le> string_max_size"

definition decoded :: "bool \<Rightarrow> byte \<Rightarrow> bytes option \<Rightarrow> bytes \<Rightarrow> websocket_frame" where
  "decoded final op key payload =
     \<lparr>fin = of_bool final, opcode = op, mask = of_bool (key \<noteq> None), payload_length = length payload,
      masking_key = (case key of None \<Rightarrow> [] | Some k \<Rightarrow> k), payload_data = payload\<rparr>"

lemma length_unmask [simp]: "length (unmask key payload) = length payload"
  by (simp add: unmask_def)

lemma unmask_unmask: "unmask key (unmask key payload) = payload"
  by (rule nth_equalityI) (simp_all add: unmask_def xor.assoc)

lemma length_rfc_mask [simp]: "length (rfc_mask key payload) = length payload"
  by (induction key payload rule: rfc_mask.induct) simp_all

lemma rfc_mask_nth: "key \<noteq> [] \<Longrightarrow> i < length bs \<Longrightarrow> rfc_mask key bs ! i = bs ! i XOR key ! (i mod length key)"
proof (induction key bs arbitrary: i rule: rfc_mask.induct)
  case (2 key b bs)
  show ?case
  proof (cases i)
    case 0
    then show ?thesis using 2(2) by (simp add: hd_conv_nth xor.commute)
  next
    case (Suc j)
    have "rotate1 key ! (j mod length key) = key ! (Suc j mod length key)"
      using 2(2) by (simp add: nth_rotate1 mod_Suc_eq)
    then show ?thesis using 2 Suc by simp
  qed
qed simp

lemma unmask_rfc_mask: "length key = 4 \<Longrightarrow> unmask key (rfc_mask key payload) = payload"
proof -
  assume "length key = 4"
  moreover from this have "key \<noteq> []" by auto
  ultimately have "rfc_mask key payload = unmask key payload"
    by (intro nth_equalityI) (simp_all add: rfc_mask_nth unmask_def)
  then show ?thesis by (simp add: unmask_unmask)
qed

lemma mask_bit_set: "((0x80 :: byte) OR w) AND 0x7F = w AND 0x7F" "((0x80 :: byte) OR w) AND 0x80 = 0x80"
  by (simp_all add: bit.conj_disj_distrib2)

lemma low_bits:
  assumes "n < 128"
  shows "unat (of_nat n AND 0x7F :: byte) = n" "of_nat n AND 0x80 = (0 :: byte)"
proof -
  have "(of_nat n AND 0x7F :: byte) = take_bit 7 (of_nat n)" by (simp add: take_bit_eq_mask mask_eq_exp_minus_1)
  also have "\<dots> = of_nat n" using assms by (simp add: take_bit_of_nat take_bit_nat_eq_self)
  finally have eq: "(of_nat n AND 0x7F :: byte) = of_nat n" .
  then show "unat (of_nat n AND 0x7F :: byte) = n" using assms by (simp add: unat_of_nat)
  have "of_nat n AND 0x80 = (of_nat n AND 0x7F) AND (0x80 :: byte)" by (simp add: eq)
  then show "of_nat n AND 0x80 = (0 :: byte)" by (simp add: and.assoc)
qed

lemma push_bit_or:
  assumes "lo < 2 ^ 32"
  shows "push_bit 32 hi OR lo = hi * 2 ^ 32 + (lo :: nat)"
proof -
  have "lo = take_bit 32 lo" using assms by (simp add: take_bit_nat_eq_self)
  then have "push_bit 32 hi AND lo = 0"
    by (metis bit_eq_iff bit_and_iff bit_push_bit_iff bit_take_bit_iff not_le bit_0_eq bot_apply bot_bool_def)
  then show ?thesis using disjunctive_add_eq_or [of "push_bit 32 hi" lo] by (simp add: push_bit_eq_mult)
qed

lemma be_value_split: "n < 256 ^ 8 \<Longrightarrow>
  push_bit 32 (be_value (be_bytes 4 (n div 256 ^ 4))) OR be_value (be_bytes 4 n) = n"
proof -
  assume n: "n < 256 ^ 8"
  have "n div 256 ^ 4 < 256 ^ 4" using n by (simp add: less_mult_imp_div_less)
  moreover have "be_value (be_bytes 4 n) < 2 ^ 32" by (simp add: be_value_be_bytes)
  ultimately show ?thesis by (simp add: push_bit_or be_value_be_bytes)
qed

lemma seg_shift: "seg (length pre + i) (length pre + j) (pre @ xs) = seg i j xs"
  by (simp add: seg_def)

lemma rfc_length_decodes:
  assumes "len \<le> string_max_size" "data = pre @ b # rfc_length masked len @ post"
    "length pre + 1 + length (rfc_length masked len) < n"
  shows "ws_length data n (length pre + 2) (unat (data ! (length pre + 1) AND 0x7F)) =
      Some (len, length pre + 1 + length (rfc_length masked len))"
    "(data ! (length pre + 1) AND 0x80 \<noteq> 0) = masked" "length pre + 2 < n"
proof -
  let ?b = "if masked then 0x80 else 0 :: byte"
  have second: "data ! (length pre + 1) = hd (rfc_length masked len)"
    using assms(2) by (simp add: rfc_length_def nth_append Let_def)
  have b7: "unat ((?b OR of_nat k) AND 0x7F) = k" "((?b OR of_nat k) AND 0x80 \<noteq> 0) = masked" if "k < 128" for k
    using low_bits [OF that] by (simp_all add: mask_bit_set)
  have b126: "unat ((?b OR 126) AND 0x7F) = 126" "((?b OR 126) AND 0x80 \<noteq> 0) = masked"
    and b127: "unat ((?b OR 127) AND 0x7F) = 127" "((?b OR 127) AND 0x80 \<noteq> 0) = masked"
    by simp_all
  show "length pre + 2 < n" using assms(3) by (auto simp: rfc_length_def Let_def split: if_splits)
  show "(data ! (length pre + 1) AND 0x80 \<noteq> 0) = masked"
    using second b7(2) [of len] b126(2) b127(2) by (simp add: rfc_length_def Let_def del: if_split)
  show "ws_length data n (length pre + 2) (unat (data ! (length pre + 1) AND 0x7F)) =
      Some (len, length pre + 1 + length (rfc_length masked len))"
  proof -
    consider (small) "len \<le> 125" | (medium) "125 < len" "len \<le> 65535" | (large) "65535 < len" by linarith
    then show ?thesis
    proof cases
      case small
      then show ?thesis using second b7(1) [of len] by (simp add: rfc_length_def Let_def ws_length_def)
    next
      case medium
      have "seg (length pre + 2) (length pre + 2 + 2) data = be_bytes 2 len"
        using assms(2) medium by (simp add: rfc_length_def Let_def seg_def numeral_2_eq_2)
      then show ?thesis
        using second b126(1) medium assms(3) by (simp add: rfc_length_def Let_def ws_length_def be_value_be_bytes)
    next
      case large
      have bytes: "be_bytes 8 len = be_bytes 4 (len div 256 ^ 4) @ be_bytes 4 len" using be_bytes_add [of 4 4] by simp
      have data: "data = pre @ b # (?b OR 127) # be_bytes 4 (len div 256 ^ 4) @ be_bytes 4 len @ post"
        using assms(2) large by (simp add: rfc_length_def Let_def bytes)
      have "seg (length pre + 2) (length pre + 2 + 4) data = be_bytes 4 (len div 256 ^ 4)"
        "seg (length pre + 2 + 4) (length pre + 2 + 8) data = be_bytes 4 len"
        unfolding data by (simp_all add: seg_def)
      then show ?thesis
        using second b127(1) large assms(1,3) be_value_split [of len]
        by (simp add: rfc_length_def Let_def ws_length_def)
    qed
  qed
qed

lemma ws_payload_ready:
  assumes "0 < i" "0 < payload_length frame" "i + payload_length frame \<le> n" "n < object_limit"
  shows "ws_payload data n i frame = Ws_frame (frame\<lparr>payload_data :=
     (if mask frame \<noteq> 0 then unmask (masking_key frame) (seg i (i + payload_length frame) data)
      else seg i (i + payload_length frame) data)\<rparr>) i"
proof -
  have "uadd64 (i - 1) (payload_length frame) = i - 1 + payload_length frame"
    using assms by (intro uadd64_small) simp
  then have "\<not> n \<le> uadd64 (i - 1) (payload_length frame)" using assms by linarith
  with assms show ?thesis by (simp add: ws_payload_def)
qed

lemma ws_parse_rfc:
  assumes ok: "rfc_ok op key payload" and data: "data = pre @ rfc_frame final op key payload @ post"
    and n: "length pre + length (rfc_frame final op key payload) \<le> n" and lim: "n < object_limit"
  shows "ws_parse data n (length pre) = Ws_frame (decoded final op key payload)
           (length pre + length (rfc_frame final op key payload) - length payload)"
proof -
  let ?L = "rfc_length (key \<noteq> None) (length payload)"
  let ?b = "(if final then 0x80 else 0) OR op"
  let ?tail = "case key of None \<Rightarrow> payload | Some k \<Rightarrow> k @ rfc_mask k payload"
  have op: "op = 1 \<or> op = 2" and pl: "0 < length payload" "length payload \<le> string_max_size"
    and key4: "\<And>k. key = Some k \<Longrightarrow> length k = 4" using ok by (auto simp: rfc_ok_def)
  have first: "data ! length pre = ?b" using data by (simp add: rfc_frame_def nth_append)
  have ty: "(n_2_websocket_frame_type op \<noteq> TEXT_FRAME \<and> n_2_websocket_frame_type op \<noteq> BINARY_FRAME) = False"
    "data ! length pre AND 0x0f = op" "(data ! length pre AND 0x80 \<noteq> 0) = final"
    unfolding first using op by (auto simp: n_2_websocket_frame_type_def)
  have d1: "data = pre @ ?b # ?L @ (?tail @ post)" using data by (simp add: rfc_frame_def)
  have n1: "length pre + 1 + length ?L < n" using n pl
    by (cases key) (simp_all add: rfc_frame_def del: length_greater_0_conv)
  note len = rfc_length_decodes [OF pl(2) d1 n1]
  let ?i = "length pre + 1 + length ?L"
  let ?pre = "pre @ ?b # ?L"
  have d2: "data = ?pre @ ?tail @ post" "length ?pre = ?i" using d1 by simp_all
  have step: "ws_parse data n (length pre) =
     (case ws_key data n ?i (key \<noteq> None) of
        None \<Rightarrow> Ws_stop
      | Some (k, index'') \<Rightarrow>
          ws_payload data n index'' \<lparr>fin = of_bool final, opcode = op, mask = of_bool (key \<noteq> None),
             payload_length = length payload, masking_key = k, payload_data = []\<rparr>)"
  proof -
    have "(n \<le> length pre + 1) = False" "(n \<le> length pre + 2) = False" "(length payload = 0) = False"
      using len(3) pl by auto
    then show ?thesis unfolding ws_parse_def Let_def ty len(1,2) by simp
  qed
  show ?thesis
  proof (cases key)
    case None
    have "seg ?i (?i + length payload) data = payload"
      using d2 None seg_shift [of ?pre 0 "length payload"] by (simp add: seg_def)
    moreover have "?i + length payload \<le> n" using n None by (simp add: rfc_frame_def)
    ultimately show ?thesis
      using None lim pl unfolding step by (simp add: ws_key_def ws_payload_ready decoded_def rfc_frame_def)
  next
    case (Some k)
    have k: "length k = 4" using key4 Some by simp
    have "seg ?i (?i + 4) data = k" "seg (?i + 4) (?i + 4 + length payload) data = rfc_mask k payload"
      using d2 Some k seg_shift [of ?pre 0 4] seg_shift [of ?pre 4 "4 + length payload"] by (simp_all add: seg_def)
    moreover have i: "?i + 4 + length payload \<le> n" using n Some k by (simp add: rfc_frame_def)
    moreover have "\<not> n \<le> ?i + 4" using i pl by linarith
    ultimately show ?thesis
      using Some lim pl k unfolding step
      by (simp add: ws_key_def ws_payload_ready decoded_def rfc_frame_def unmask_rfc_mask del: length_greater_0_conv)
  qed
qed

text \<open>The decoder reads only the readable part of the block.\<close>

lemma seg_take_same:
  assumes "take n data = take n data'" "j \<le> n"
  shows "seg i j data = seg i j data'"
proof -
  have "seg i j (take n xs) = seg i j xs" for xs :: "'a list"
    using assms(2) by (simp add: seg_def drop_take min_def)
  then show ?thesis using assms(1) by metis
qed

lemma ws_length_take: "take n data = take n data' \<Longrightarrow> ws_length data n i l = ws_length data' n i l"
  using seg_take_same [of n data data'] by (simp add: ws_length_def)

lemma ws_payload_short:
  assumes "n < i + payload_length frame" "payload_length frame \<le> string_max_size" "0 < i" "i < object_limit"
  shows "ws_payload data n i frame = Ws_stop"
proof -
  have "uadd64 (i - 1) (payload_length frame) = i - 1 + payload_length frame"
    using assms by (intro uadd64_small) simp
  then have "n \<le> uadd64 (i - 1) (payload_length frame)" using assms by linarith
  then show ?thesis by (simp add: ws_payload_def)
qed

lemma ws_parse_prefix:
  assumes ok: "rfc_ok op key payload" and data: "data = pre @ take k (rfc_frame final op key payload) @ post"
    and k: "0 < k" "k < length (rfc_frame final op key payload)" and n: "n = length pre + k" "n < object_limit"
  shows "ws_parse data n (length pre) = Ws_stop"
proof -
  let ?f = "rfc_frame final op key payload"
  let ?L = "rfc_length (key \<noteq> None) (length payload)"
  let ?b = "(if final then 0x80 else 0) OR op"
  let ?tail = "case key of None \<Rightarrow> payload | Some k \<Rightarrow> k @ rfc_mask k payload"
  let ?data = "pre @ ?b # ?L @ ?tail"
  have op: "op = 1 \<or> op = 2" and pl: "length payload \<le> string_max_size"
    and key4: "\<And>k. key = Some k \<Longrightarrow> length k = 4" using ok by (auto simp: rfc_ok_def)
  have same: "take n data = take n ?data" 
  proof -
    have "?data = pre @ ?f" by (simp add: rfc_frame_def)
    then show ?thesis using k unfolding data n by simp
  qed
  have at: "data ! j = ?data ! j" if "j < n" for j
  proof -
    have "data ! j = take n data ! j" using that by simp
    also have "\<dots> = ?data ! j" unfolding same by (rule nth_take [OF that])
    finally show ?thesis .
  qed
  have first: "data ! length pre = ?b" using at [of "length pre"] k n by (simp add: nth_append)
  have ty: "(n_2_websocket_frame_type op \<noteq> TEXT_FRAME \<and> n_2_websocket_frame_type op \<noteq> BINARY_FRAME) = False"
    "data ! length pre AND 0x0f = op"
    unfolding first using op by (auto simp: n_2_websocket_frame_type_def)
  show ?thesis
  proof (cases "n \<le> length pre + 2")
    case True
    then show ?thesis unfolding ws_parse_def Let_def ty by simp
  next
    case False
    have second: "data ! (length pre + 1) = ?data ! (length pre + 1)" by (rule at) (use False in simp)
    show ?thesis
    proof (cases "n \<le> length pre + 1 + length ?L")
      case True
      have "hd ?L = ?data ! (length pre + 1)" by (simp add: rfc_length_def nth_append Let_def)
      with True False second have "ws_length data n (length pre + 2) (unat (data ! (length pre + 1) AND 0x7F)) = None"
        by (auto simp: ws_length_def rfc_length_def Let_def split: if_splits)
      then show ?thesis unfolding ws_parse_def Let_def ty by simp
    next
      case more: False
      have d: "?data = pre @ ?b # ?L @ (?tail @ [])" and n1: "length pre + 1 + length ?L < n" using more by simp_all
      note len = rfc_length_decodes [OF pl d n1]
      let ?i = "length pre + 1 + length ?L"
      have l: "ws_length data n (length pre + 2) (unat (data ! (length pre + 1) AND 0x7F)) = Some (length payload, ?i)"
        "(data ! (length pre + 1) AND 0x80 \<noteq> 0) = (key \<noteq> None)"
        unfolding second ws_length_take [OF same] by (rule len)+
      have short: "n < ?i + (if key = None then 0 else 4) + length payload"
        using k n key4 by (cases key) (simp_all add: rfc_frame_def)
      have "ws_key data n ?i (key \<noteq> None) = None \<or> (\<exists>kk j. ws_key data n ?i (key \<noteq> None) = Some (kk, j) \<and>
              j = ?i + (if key = None then 0 else 4) \<and> j \<le> n)"
        using more by (auto simp: ws_key_def)
      then show ?thesis
      proof (elim disjE exE conjE)
        assume "ws_key data n ?i (key \<noteq> None) = None"
        then show ?thesis unfolding ws_parse_def Let_def ty l by simp
      next
        fix kk j
        assume j: "ws_key data n ?i (key \<noteq> None) = Some (kk, j)" "j = ?i + (if key = None then 0 else 4)" "j \<le> n"
        have "ws_payload data n j fr = Ws_stop" if "payload_length fr = length payload" for fr
          by (rule ws_payload_short) (use that short j n pl in auto)
        then show ?thesis unfolding ws_parse_def Let_def ty l option.case prod.case j(1) by simp
      qed
    qed
  qed
qed

subsection \<open>Packets\<close>

lemma packet_length_rfc:
  assumes "n < 2 ^ 64"
  shows "packet_length n = rfc_length False n"
proof -
  have byte: "of_nat (x mod 256) = (of_nat x :: byte)" for x
    by (simp add: word_unat_eq_iff unat_of_nat take_bit_eq_mod)
  have ff: "x AND 0xFF = x mod 256" for x :: nat
    using take_bit_eq_mask [of 8 x] by (simp add: take_bit_eq_mod mask_eq_exp_minus_1)
  show ?thesis
    using assms
    by (simp add: packet_length_def rfc_length_def be_bytes_def byte ff drop_bit_eq_div upt_rec Let_def)
qed

lemma process_frame_rfc:
  assumes "rfc_ok op key payload"
  shows "process_frame players (decoded final op key payload) =
     map (\<lambda>gid. (To_gid gid, rfc_frame True 1 None payload)) (sorted_list_of_set players)"
proof -
  have "length payload < 2 ^ 64" using assms by (auto simp: rfc_ok_def)
  then have "(0x81 :: byte) # packet_length (length payload) @ payload = rfc_frame True 1 None payload"
    by (simp add: packet_length_rfc rfc_frame_def)
  then show ?thesis
    by (simp add: process_frame_def decoded_def send_packet_def websocket_frame_type_2_n_def Let_def map_filter_def)
qed

subsection \<open>The loop on a stream of frames\<close>

type_synonym message = "bool \<times> byte \<times> bytes option \<times> bytes"

fun message_ok :: "message \<Rightarrow> bool" where
  "message_ok (final, op, key, payload) = rfc_ok op key payload"

fun message_bytes :: "message \<Rightarrow> bytes" where
  "message_bytes (final, op, key, payload) = rfc_frame final op key payload"

fun message_payload :: "message \<Rightarrow> bytes" where
  "message_payload (final, op, key, payload) = payload"

text \<open>Nothing, or the beginning of one more frame.\<close>

definition unfinished :: "bytes \<Rightarrow> bool" where
  "unfinished rest \<longleftrightarrow> rest = [] \<or>
     (\<exists>m k. message_ok m \<and> 0 < k \<and> k < length (message_bytes m) \<and> rest = take k (message_bytes m))"

definition broadcast :: "nat set \<Rightarrow> message \<Rightarrow> (target \<times> bytes) list" where
  "broadcast players m =
     map (\<lambda>gid. (To_gid gid, rfc_frame True 1 None (message_payload m))) (sorted_list_of_set players)"

lemma message_bytes_ne: "message_bytes m \<noteq> []"
  by (cases m) (simp add: rfc_frame_def)

lemma ws_loop_unfinished:
  assumes "unfinished rest" "data = pre @ rest @ post" "n = length pre + length rest" "n < object_limit"
  shows "ws_loop heap players data n (length pre) c = (Inr (), [], [], c)"
proof (cases "rest = []")
  case True
  then show ?thesis using assms(3) by (subst ws_loop.simps) simp
next
  case False
  then obtain final op key payload k where m: "rfc_ok op key payload" "0 < k"
    "k < length (rfc_frame final op key payload)" "rest = take k (rfc_frame final op key payload)"
    using assms(1) by (auto simp: unfinished_def)
  then have "ws_parse data n (length pre) = Ws_stop"
    using ws_parse_prefix [OF m(1) _ m(2,3), of data pre post n] assms by simp
  then show ?thesis by (subst ws_loop.simps) simp
qed

text \<open>The frames that are complete are taken off one by one; then the loop goes on with the rest.\<close>

lemma ws_loop_frames:
  assumes "heap_total heap" "\<forall>m \<in> set ms. message_ok m"
    "buffer_inv (m_recv_buffer c)" "content (m_recv_buffer c) = concat (map message_bytes ms) @ rest"
    "data = pre @ concat (map message_bytes ms) @ rest @ post"
    "n = length pre + length (concat (map message_bytes ms) @ rest)" "n < object_limit"
  shows "\<exists>b. ws_loop heap players data n (length pre) c =
       (case ws_loop heap players data n (length (pre @ concat (map message_bytes ms))) (c\<lparr>m_recv_buffer := b\<rparr>) of
          (r, reqs, later, d) \<Rightarrow> (r, reqs, concat (map (broadcast players) ms) @ later, d)) \<and>
       buffer_inv b \<and> content b = rest"
  using assms(2-)
proof (induction ms arbitrary: pre c)
  case Nil
  then show ?case by (intro exI [of _ "m_recv_buffer c"]) (simp split: prod.split)
next
  case (Cons m ms)
  obtain final op key payload where m: "m = (final, op, key, payload)" by (cases m)
  let ?f = "rfc_frame final op key payload"
  have ok: "rfc_ok op key payload" using Cons.prems(1) m by simp
  have pl: "length payload \<le> length ?f" by (simp add: rfc_frame_def split: option.split)
  have parse: "ws_parse data n (length pre) =
      Ws_frame (decoded final op key payload) (length pre + length ?f - length payload)"
    by (rule ws_parse_rfc [OF ok]) (use Cons.prems m in simp_all)
  have size: "length pre + length ?f - length payload - length pre + payload_length (decoded final op key payload) = length ?f"
    "length pre + length ?f - length payload + payload_length (decoded final op key payload) = length (pre @ ?f)"
    using pl by (simp_all add: decoded_def)
  have "length ?f \<le> length (content (m_recv_buffer c))" using Cons.prems(3) m by simp
  then obtain b where b: "read_ptr_move_n heap (length ?f) (m_recv_buffer c) = (Inr True, b)" "buffer_inv b"
    "content b = drop (length ?f) (content (m_recv_buffer c))" "m_limit_max b = m_limit_max (m_recv_buffer c)"
    by (rule read_ptr_move_n_ok [OF assms(1) Cons.prems(2)])
  let ?stop = "length (pre @ concat (map message_bytes (m # ms)))"
  obtain b' where b': "ws_loop heap players data n (length (pre @ ?f)) (c\<lparr>m_recv_buffer := b\<rparr>) =
       (case ws_loop heap players data n ?stop (c\<lparr>m_recv_buffer := b'\<rparr>) of
          (r, reqs, later, d) \<Rightarrow> (r, reqs, concat (map (broadcast players) ms) @ later, d))"
       "buffer_inv b'" "content b' = rest"
    using Cons.IH [of "c\<lparr>m_recv_buffer := b\<rparr>" "pre @ ?f"] Cons.prems m b by (auto simp: add.assoc)
  obtain r reqs later d where last: "ws_loop heap players data n ?stop (c\<lparr>m_recv_buffer := b'\<rparr>) = (r, reqs, later, d)"
    by (rule prod_cases4)
  have "\<not> n \<le> length pre" using Cons.prems(5) m by (simp add: rfc_frame_def)
  then have "ws_loop heap players data n (length pre) c =
      (r, reqs, broadcast players m @ concat (map (broadcast players) ms) @ later, d)"
    unfolding ws_loop.simps [of heap players data n "length pre" c] parse ws_step.case Let_def size b(1)
      process_frame_rfc [OF ok]
    by (simp only: b' last if_False prod.case sum.case) (simp add: broadcast_def m)
  then show ?case using last b'(2,3) by (intro exI [of _ b']) simp
qed

text \<open>So what the application does is: broadcast the complete frames, and then what the loop does with the rest.\<close>

lemma ws_process_frames:
  assumes "heap_total heap" "buffer_inv (m_recv_buffer c)" "\<forall>m \<in> set ms. message_ok m"
    and "content (m_recv_buffer c) = concat (map message_bytes ms) @ rest"
  obtains b pre post n where "buffer_inv b" "content b = rest" "n = length pre + length rest" "n < object_limit"
    "ws_process_connection heap players c =
       (case ws_loop heap players (pre @ rest @ post) n (length pre) (c\<lparr>m_recv_buffer := b\<rparr>) of
          (r, reqs, later, d) \<Rightarrow> (r, reqs, concat (map (broadcast players) ms) @ later, d))"
proof -
  obtain b1 where b1: "can_readable_size heap (m_recv_buffer c) = (Inr (length (content (m_recv_buffer c))), b1)"
    "buffer_inv b1" "content b1 = content (m_recv_buffer c)" "m_limit_max b1 = m_limit_max (m_recv_buffer c)"
    by (rule can_readable_size_ok [OF assms(1,2)])
  show ?thesis
  proof (cases "content (m_recv_buffer c) = []")
    case True
    with assms(4) have "rest = []" "ms = []" by (cases ms; simp add: message_bytes_ne)+
    then show ?thesis using True b1
      by (intro that [of b1 0 "[]" "[]"]) (simp_all add: ws_process_connection_def ws_loop.simps)
  next
    case False
    obtain data b2 where b2: "force_get_read_ptr heap b1 = (Inr data, b2)" "buffer_inv b2"
      "content b2 = content b1" "m_limit_max b2 = m_limit_max b1" "take (length (content b1)) data = content b1"
      by (rule force_get_read_ptr_ok [OF assms(1) b1(2)])
    let ?c = "c\<lparr>m_recv_buffer := b2\<rparr>" and ?n = "length (content (m_recv_buffer c))" and ?pre = "concat (map message_bytes ms)"
    have data: "data = [] @ ?pre @ rest @ drop ?n data"
      using b2(5) b1(3) assms(4) append_take_drop_id [of ?n data] by simp
    have lim: "?n < object_limit" using assms(2) by (auto simp: buffer_inv_def content_def)
    have "\<exists>b. ws_loop heap players data ?n (length ([] :: bytes)) ?c =
       (case ws_loop heap players data ?n (length ([] @ ?pre)) (?c\<lparr>m_recv_buffer := b\<rparr>) of
          (r, reqs, later, d) \<Rightarrow> (r, reqs, concat (map (broadcast players) ms) @ later, d)) \<and>
       buffer_inv b \<and> content b = rest"
      by (rule ws_loop_frames [OF assms(1,3)]) (use b1 b2 assms(4) data lim in simp_all)
    then obtain b where b: "ws_loop heap players data ?n 0 ?c =
       (case ws_loop heap players (?pre @ rest @ drop ?n data) ?n (length ?pre) (c\<lparr>m_recv_buffer := b\<rparr>) of
          (r, reqs, later, d) \<Rightarrow> (r, reqs, concat (map (broadcast players) ms) @ later, d))" "buffer_inv b" "content b = rest"
      using data by auto
    have "ws_process_connection heap players c = ws_loop heap players data ?n 0 ?c"
      using False b1 b2 by (simp add: ws_process_connection_def)
    with b lim show ?thesis by (intro that [of b ?n ?pre "drop ?n data"]) (simp_all add: assms(4))
  qed
qed

definition demo_received :: "bytes \<Rightarrow> unit websocket_connection" where
  "demo_received bs = (websocket_connection_new () None)\<lparr>m_recv_buffer :=
     \<lparr>m_limit_max = 1024, m_size = length bs, m_read_ptr = 0, m_write_ptr = length bs, m_buffer = Some bs\<rparr>\<rparr>"

lemma demo_received_ok:
  "content (m_recv_buffer (demo_received bs)) = bs"
  "length bs \<le> 1024 \<Longrightarrow> buffer_inv (m_recv_buffer (demo_received bs))"
  by (simp_all add: demo_received_def content_def mem_def buffer_inv_def)

definition demo_message :: message where
  "demo_message = (True, 1, Some [1, 2, 3, 4], [72, 105])"

lemma demo_message_ok:
  "message_ok demo_message" "message_bytes demo_message = [0x81, 0x82, 1, 2, 3, 4, 73, 107]"
  by (simp_all add: demo_message_def rfc_ok_def rfc_frame_def rfc_length_def Let_def)

subsection \<open>Properties\<close>

text \<open>C8: whatever frames of RFC 6455 (text or binary, masked or not, with a payload) the peer sends,
  and wherever the stream happens to be cut, the server takes exactly the complete frames off the
  receive buffer, in order, and sends the payload of each to every player online, in a frame of the
  RFC; the beginning of the next frame stays in the buffer.\<close>

theorem websocket_frames_roundtrip:
  assumes "heap_total heap" "buffer_inv (m_recv_buffer c)" "\<forall>m \<in> set ms. message_ok m" "unfinished rest"
    and "content (m_recv_buffer c) = concat (map message_bytes ms) @ rest"
  shows "\<exists>b. ws_process_connection heap players c =
       (Inr (), [], concat (map (broadcast players) ms), c\<lparr>m_recv_buffer := b\<rparr>) \<and>
       buffer_inv b \<and> content b = rest"
proof -
  obtain b pre post n where b: "buffer_inv b" "content b = rest" "n = length pre + length rest" "n < object_limit"
    "ws_process_connection heap players c =
       (case ws_loop heap players (pre @ rest @ post) n (length pre) (c\<lparr>m_recv_buffer := b\<rparr>) of
          (r, reqs, later, d) \<Rightarrow> (r, reqs, concat (map (broadcast players) ms) @ later, d))"
    by (rule ws_process_frames [OF assms(1,2,3,5)])
  have "ws_loop heap players (pre @ rest @ post) n (length pre) d = (Inr (), [], [], d)" for d :: "'a websocket_connection"
    by (rule ws_loop_unfinished [OF assms(4) refl b(3,4)])
  then show ?thesis using b by (intro exI [of _ b]) simp
qed

theorem websocket_frames_roundtrip_witness:
  "\<exists>b. ws_process_connection zero_heap {7, 9} (demo_received ([0x81, 0x82, 1, 2, 3, 4, 73, 107] @ [0x81])) =
       (Inr (), [], [(To_gid 7, [0x81, 2, 72, 105]), (To_gid 9, [0x81, 2, 72, 105])],
        (demo_received ([0x81, 0x82, 1, 2, 3, 4, 73, 107] @ [0x81]))\<lparr>m_recv_buffer := b\<rparr>) \<and>
       buffer_inv b \<and> content b = [0x81]"
proof -
  have cut: "unfinished [0x81]"
    unfolding unfinished_def using demo_message_ok by (intro disjI2 exI [of _ demo_message] exI [of _ 1]) simp
  have "sorted_list_of_set {7 :: nat, 9} = [7, 9]" by (simp add: sorted_list_of_set_insert_remove)
  then have b: "broadcast {7, 9} demo_message = [(To_gid 7, [0x81, 2, 72, 105]), (To_gid 9, [0x81, 2, 72, 105])]"
    by (simp add: broadcast_def demo_message_def rfc_frame_def rfc_length_def Let_def)
  show ?thesis
    using websocket_frames_roundtrip [of zero_heap "demo_received ([0x81, 0x82, 1, 2, 3, 4, 73, 107] @ [0x81])"
      "[demo_message]" "[0x81]" "{7, 9}"] cut b
    by (simp add: demo_received_ok demo_message_ok)
qed

text \<open>C33: the value of \<open>Sec-WebSocket-Accept\<close> is the one of RFC 6455, character by character: the base64 encoding (of RFC
  4648, with its alphabet and padding) of the SHA-1 (of FIPS 180-4) of the client's key followed by the GUID of the RFC.\<close>

theorem websocket_accept_rfc:
  "ws_accept key = rfc4648 (concat (map (\<lambda>w. be_bytes 4 (unat w))
     (fips_sha1 (string_bytes (key @ ''258EAFA5-E914-47DA-95CA-C5AB0DC85B11'')))))"
  by (simp add: ws_accept_def Let_def sha1_to_binary base64_encode_rfc4648)

text \<open>C34: a text or binary frame with an empty payload, masked or not, which the RFC allows, blocks the connection. The
  frames before it are broadcast; then nothing more is taken off the receive buffer, whatever follows, and the connection is not
  closed. Each later call sees the frame again.\<close>

theorem websocket_empty_frame_blocks:
  assumes "heap_total heap" "buffer_inv (m_recv_buffer c)" "\<forall>m \<in> set ms. message_ok m" "op = 1 \<or> op = 2"
    and "content (m_recv_buffer c) = concat (map message_bytes ms) @ rfc_frame final op key [] @ later"
  shows "\<exists>b. ws_process_connection heap players c = (Inr (), [], concat (map (broadcast players) ms), c\<lparr>m_recv_buffer := b\<rparr>) \<and>
             buffer_inv b \<and> content b = rfc_frame final op key [] @ later"
proof -
  let ?rest = "rfc_frame final op key [] @ later"
  obtain b pre post n where b: "buffer_inv b" "content b = ?rest" "n = length pre + length ?rest" "n < object_limit"
    "ws_process_connection heap players c =
       (case ws_loop heap players (pre @ ?rest @ post) n (length pre) (c\<lparr>m_recv_buffer := b\<rparr>) of
          (r, reqs, later, d) \<Rightarrow> (r, reqs, concat (map (broadcast players) ms) @ later, d))"
    by (rule ws_process_frames [OF assms(1,2,3,5)])
  let ?first = "(if final then 0x80 else 0) OR op" and ?second = "if key = None then 0 else 0x80 :: byte"
  let ?data = "pre @ ?rest @ post"
  have bytes: "?data ! length pre = ?first" "?data ! (length pre + 1) = ?second"
    by (simp_all add: rfc_frame_def rfc_length_def Let_def nth_append)
  have ty: "n_2_websocket_frame_type (?first AND 0x0f) = TEXT_FRAME \<or> n_2_websocket_frame_type (?first AND 0x0f) = BINARY_FRAME"
    using assms(4) by (auto simp: n_2_websocket_frame_type_def)
  have len: "ws_length ?data n (length pre + 2) (unat (?second AND 0x7F)) = Some (0, length pre + 2)"
    by (simp add: ws_length_def)
  have "ws_parse ?data n (length pre) = Ws_stop"
    unfolding ws_parse_def Let_def bytes len using ty by auto
  then have "ws_loop heap players ?data n (length pre) d = (Inr (), [], [], d)" for d :: "'a websocket_connection"
    by (subst ws_loop.simps) simp
  then show ?thesis using b by (intro exI [of _ b]) simp
qed

theorem websocket_empty_frame_blocks_witness:
  "\<exists>b. ws_process_connection zero_heap {7} (demo_received [0x81, 0x80, 1, 2, 3, 4, 0x81, 1, 65]) =
       (Inr (), [], [], (demo_received [0x81, 0x80, 1, 2, 3, 4, 0x81, 1, 65])\<lparr>m_recv_buffer := b\<rparr>) \<and>
     content b = [0x81, 0x80, 1, 2, 3, 4, 0x81, 1, 65]"
proof -
  have "content (m_recv_buffer (demo_received [0x81, 0x80, 1, 2, 3, 4, 0x81, 1, 65])) =
      concat (map message_bytes []) @ rfc_frame True 1 (Some [1, 2, 3, 4]) [] @ [0x81, 1, 65]"
    by (simp add: demo_received_ok rfc_frame_def rfc_length_def Let_def)
  from websocket_empty_frame_blocks [OF heap_total_zero_heap _ _ _ this, of "{7}"] demo_received_ok
  show ?thesis by (auto simp: rfc_frame_def rfc_length_def Let_def)
qed

text \<open>C35: a frame with any other opcode closes the connection, also the continuation of a message, a ping and a pong, which RFC 6455
  asks an endpoint to accept. The frames before it are broadcast, nothing behind it is, and the connection asks for its removal.\<close>

theorem websocket_other_frame_closes:
  assumes "heap_total heap" "buffer_inv (m_recv_buffer c)" "\<forall>m \<in> set ms. message_ok m" "first AND 0x0f \<noteq> 1" "first AND 0x0f \<noteq> 2"
    and "content (m_recv_buffer c) = concat (map message_bytes ms) @ first # later" "\<not> close_flag c"
  shows "\<exists>d. ws_process_connection heap players c = (Inr (), [Do_task (c_gid c) False True], concat (map (broadcast players) ms), d) \<and>
             close_flag d \<and> c_gid d = c_gid c"
proof -
  obtain b pre post n where b: "buffer_inv b" "content b = first # later" "n = length pre + length (first # later)" "n < object_limit"
    "ws_process_connection heap players c =
       (case ws_loop heap players (pre @ (first # later) @ post) n (length pre) (c\<lparr>m_recv_buffer := b\<rparr>) of
          (r, reqs, later, d) \<Rightarrow> (r, reqs, concat (map (broadcast players) ms) @ later, d))"
    by (rule ws_process_frames [OF assms(1,2,3,6)])
  have "n_2_websocket_frame_type (first AND 0x0f) \<noteq> TEXT_FRAME" "n_2_websocket_frame_type (first AND 0x0f) \<noteq> BINARY_FRAME"
    using assms(4,5) by (simp_all add: n_2_websocket_frame_type_def Let_def and.assoc)
  then have "ws_parse (pre @ (first # later) @ post) n (length pre) = Ws_bad"
    by (simp add: ws_parse_def Let_def)
  then have "ws_loop heap players (pre @ (first # later) @ post) n (length pre) d =
      (case mark_close websocket_on_mark_close d of (reqs, d) \<Rightarrow> (Inr (), reqs, [], d))" for d :: "'a websocket_connection"
    using b(3) by (subst ws_loop.simps) simp
  then show ?thesis using b(5) assms(7)
    by (simp add: mark_close_def websocket_on_mark_close_def buffered_on_mark_close_def)
qed

theorem websocket_other_frame_closes_witness:
  "\<exists>d. ws_process_connection zero_heap {7} (demo_received ([0x81, 0x82, 1, 2, 3, 4, 73, 107] @ [0x89, 0])) =
       (Inr (), [Do_task 0 False True], [(To_gid 7, [0x81, 2, 72, 105])], d) \<and> close_flag d"
proof -
  have c: "content (m_recv_buffer (demo_received ([0x81, 0x82, 1, 2, 3, 4, 73, 107] @ [0x89, 0]))) =
      concat (map message_bytes [demo_message]) @ 0x89 # [0]"
    by (simp add: demo_received_ok demo_message_ok)
  have b: "broadcast {7} demo_message = [(To_gid 7, [0x81, 2, 72, 105])]"
    by (simp add: broadcast_def demo_message_def rfc_frame_def rfc_length_def Let_def)
  have new: "\<not> close_flag (demo_received bs)" "c_gid (demo_received bs) = 0" for bs
    by (simp_all add: demo_received_def websocket_connection_new_def stream_connection_new_def buffered_connection.defs)
  from websocket_other_frame_closes [OF heap_total_zero_heap _ _ _ _ c new(1), of "{7}"] demo_received_ok b new(2) demo_message_ok(1)
  show ?thesis by auto
qed

end
