(* ===== verification/Tk_Task.thy ===== *)
theory Tk_Task
  imports Tk_Websocket Tk_Server
begin

section \<open>Tasks (src/task/stream_task.cpp, websocket_task.cpp, http_task.cpp)\<close>

text \<open>
  A task is what a worker runs for one event of a connection: finish the TLS handshake, read, let the
  application process, write, and hand the socket back to the poller or close the connection. The
  functions take the connection that the task found under its id (\<open>None\<close> when it is gone) and
  return the outcome (an exception that leaves \<open>run\<close>, or a normal return), the calls on the other
  components in order, and the connection. \<open>None\<close> as a whole means that the socket was asked more
  often than the lists of answers say, or that a null socket pointer is dereferenced.

  Parameters are: the answers of \<open>SSL_accept\<close> and \<open>SSL_get_error\<close>, the answers of the socket, the
  application, and the HTTP parser, which is third-party code. The parser is given by the callbacks it
  would invoke on a block of input, in order, and by what it returns when the first \<open>k\<close> of them
  returned 0 and the next one did not (or there was no next one): the consumed length, the upgrade flag
  and its state. The callbacks themselves are code of the tasks and modelled here.
\<close>

datatype effect =
    Attach bool
  | Remove
  | Request request
  | On_new
  | Destory_callback
  | Packet target bytes

subsection \<open>TLS\<close>

datatype ssl_result = Ssl_ready | Ssl_attach bool | Ssl_failed

definition ssl_step :: "bool \<Rightarrow> int \<Rightarrow> int \<Rightarrow> socket \<Rightarrow> ssl_result \<times> effect list \<times> socket" where
  "ssl_step use_ssl ssl_status ssl_error s =
     (if use_ssl \<and> \<not> m_ssl_accepted s
      then (if ssl_status = 1 then (Ssl_ready, [On_new], s\<lparr>m_ssl_accepted := True\<rparr>)
            else if ssl_status = 0 then (Ssl_attach True, [], s)
            else if ssl_error = SSL_ERROR_WANT_READ then (Ssl_attach False, [], s)
            else if ssl_error = SSL_ERROR_WANT_WRITE then (Ssl_attach True, [], s)
            else (Ssl_failed, [], s))
      else (Ssl_ready, [], s))"

definition bind_close_callback :: "socket \<Rightarrow> socket" where
  "bind_close_callback s = (if close_callback s then s else s\<lparr>close_callback := True\<rparr>)"

subsection \<open>The stream task\<close>

type_synonym 'c run_result = "(unit res \<times> effect list \<times> 'c option) option"

definition stream_task_io :: "heap \<Rightarrow> (stream_connection \<Rightarrow> unit res \<times> request list \<times> stream_connection) \<Rightarrow>
    (stream_connection \<Rightarrow> bool option \<times> stream_connection) \<Rightarrow> recv_answer list \<Rightarrow> send_answer list \<Rightarrow>
    nat \<Rightarrow> effect list \<Rightarrow> stream_connection \<Rightarrow> stream_connection run_result" where
  "stream_task_io heap app callback recvs sends gid effs c =
     (case sock2buf heap recvs c of
        None \<Rightarrow> None
      | Some (sock2buf_res, need_task, c, _) \<Rightarrow>
          if \<not> sock2buf_res \<and> \<not> need_task
          then (case mark_close buffered_on_mark_close c of
                  (rs, c) \<Rightarrow> Some (Inr (), effs @ map Request rs, Some c))
          else (let effs = (if \<not> sock2buf_res then effs @ [Request (Do_task gid True True)] else effs) in
                case app c of
                  (Inl e, rs, c) \<Rightarrow>
                    (case mark_close buffered_on_mark_close c of
                       (rs', c) \<Rightarrow> Some (Inr (), effs @ map Request rs @ map Request rs', Some c))
                | (Inr _, rs, c) \<Rightarrow>
                    (case buf2sock heap callback sends c of
                       None \<Rightarrow> None
                     | Some (Inl e, c, _, _) \<Rightarrow> Some (Inl e, effs @ map Request rs, Some c)
                     | Some (Inr (b_send, b_closed), c, _, _) \<Rightarrow>
                         (case (if b_closed then mark_close buffered_on_mark_close c else ([], c)) of
                            (rs', c) \<Rightarrow>
                              Some (Inr (), effs @ map Request rs @ map Request rs' @ [Attach b_send], Some c)))))"

definition stream_task_run :: "heap \<Rightarrow> bool \<Rightarrow> int \<Rightarrow> int \<Rightarrow>
    (stream_connection \<Rightarrow> unit res \<times> request list \<times> stream_connection) \<Rightarrow>
    (stream_connection \<Rightarrow> bool option \<times> stream_connection) \<Rightarrow> recv_answer list \<Rightarrow> send_answer list \<Rightarrow>
    nat \<Rightarrow> stream_connection option \<Rightarrow> stream_connection run_result" where
  "stream_task_run heap use_ssl ssl_status ssl_error app callback recvs sends gid found =
     (if gid = 0 then Some (Inr (), [], found)
      else (case found of
          None \<Rightarrow> Some (Inr (), [], None)
        | Some c \<Rightarrow>
            (case socket_ptr c of None \<Rightarrow> None | Some s \<Rightarrow>
              let s = bind_close_callback s; c = c\<lparr>socket_ptr := Some s\<rparr> in
              if close_flag c then Some (Inr (), [Remove], Some c)
              else (case ssl_step use_ssl ssl_status ssl_error s of
                  (r, effs, s) \<Rightarrow>
                    let c = c\<lparr>socket_ptr := Some s\<rparr> in
                    (case r of
                       Ssl_attach b \<Rightarrow> Some (Inr (), effs @ [Attach b], Some c)
                     | Ssl_failed \<Rightarrow>
                         (case mark_close buffered_on_mark_close c of
                            (rs, c) \<Rightarrow> Some (Inr (), effs @ map Request rs, Some c))
                     | Ssl_ready \<Rightarrow> stream_task_io heap app callback recvs sends gid effs c)))))"

subsection \<open>The HTTP parser and its callbacks\<close>

datatype parser_event =
    On_message_begin string
  | On_url string
  | On_status string
  | On_header_field string
  | On_header_value string
  | On_headers_complete
  | On_body bytes
  | On_message_complete
  | On_chunk_header
  | On_chunk_complete

type_synonym 'p parser = "'p \<Rightarrow> bytes \<Rightarrow> parser_event list \<times> (nat \<Rightarrow> int \<times> bool \<times> 'p)"

fun run_callbacks :: "(parser_event \<Rightarrow> 'c \<Rightarrow> int \<times> 'c) \<Rightarrow> parser_event list \<Rightarrow> 'c \<Rightarrow> nat \<times> 'c" where
  "run_callbacks settings [] c = (0, c)"
| "run_callbacks settings (e # es) c =
     (case settings e c of
        (r, c) \<Rightarrow> if r \<noteq> 0 then (0, c) else (case run_callbacks settings es c of (k, c) \<Rightarrow> (Suc k, c)))"

fun ws_settings :: "parser_event \<Rightarrow> 'p websocket_connection \<Rightarrow> int \<times> 'p websocket_connection" where
  "ws_settings (On_message_begin m) c = (if m \<noteq> ''GET'' then -1 else 0, c\<lparr>method_name := m\<rparr>)"
| "ws_settings (On_url u) c = (0, c\<lparr>url := u\<rparr>)"
| "ws_settings (On_status _) c = (0, c)"
| "ws_settings (On_header_field f) c = (0, c\<lparr>head_filed_tmp := f\<rparr>)"
| "ws_settings (On_header_value v) c = (0, websocket_add_header (head_filed_tmp c) v c)"
| "ws_settings On_headers_complete c = (0, c\<lparr>http_processed := True\<rparr>)"
| "ws_settings (On_body _) c = (0, c)"
| "ws_settings On_message_complete c = (0, c\<lparr>http_processed := True\<rparr>)"
| "ws_settings On_chunk_header c = (-1, c)"
| "ws_settings On_chunk_complete c = (-1, c)"

definition ws_parser_execute :: "'p parser \<Rightarrow> bytes \<Rightarrow> 'p websocket_connection \<Rightarrow>
    int \<times> bool \<times> 'p websocket_connection" where
  "ws_parser_execute parser bs c =
     (case parser (m_http_parser c) bs of
        (es, outcome) \<Rightarrow>
          (case run_callbacks ws_settings es c of
             (k, c) \<Rightarrow> (case outcome k of (nparsed, upgrade, p) \<Rightarrow> (nparsed, upgrade, c\<lparr>m_http_parser := p\<rparr>))))"

subsection \<open>The WebSocket task\<close>

fun ws_read_loop :: "'p parser \<Rightarrow> socket \<Rightarrow> recv_answer list \<Rightarrow> 'p websocket_connection \<Rightarrow>
    ('p websocket_connection \<times> recv_answer list) option" where
  "ws_read_loop parser s [] c = None"
| "ws_read_loop parser s (a # as) c =
     (case socket_recv a 0 s of
        (len, data, oper_errno) \<Rightarrow>
          let c = c\<lparr>recv_array := store_at 0 data (recv_array c), buffer_used_len := len\<rparr> in
          if len = -1 \<and> oper_errno = EAGAIN then Some (c\<lparr>buffer_start_use := 0\<rparr>, as)
          else if len = -1 \<and> oper_errno = EINTR then ws_read_loop parser s as (c\<lparr>buffer_used_len := 0\<rparr>)
          else if 0 < len
          then (case ws_parser_execute parser (take (nat len) (recv_array c)) c of
                  (nparsed, upgrade, c) \<Rightarrow>
                    if upgrade then ws_read_loop parser s as (c\<lparr>is_upgrade := True, buffer_used_len := 0\<rparr>)
                    else if nparsed \<noteq> len
                    then Some (c\<lparr>buffer_used_len := 0, everything_end := True, http_processed := True\<rparr>, as)
                    else ws_read_loop parser s as (c\<lparr>buffer_used_len := 0\<rparr>))
          else Some (c\<lparr>http_processed := True, everything_end := True\<rparr>, as))"

definition header_value :: "string \<Rightarrow> string \<Rightarrow> headers \<Rightarrow> string" where
  "header_value name old hs = (case hs name of Some (v # _) \<Rightarrow> v | _ \<Rightarrow> old)"

definition ws_handshake :: "heap \<Rightarrow> 'p websocket_connection \<Rightarrow> request list \<times> 'p websocket_connection" where
  "ws_handshake heap c =
     (let c = c\<lparr>sec_websocket_key := header_value ''Sec-WebSocket-Key'' (sec_websocket_key c) (headers c),
                sec_websocket_version := header_value ''Sec-WebSocket-Version'' (sec_websocket_version c) (headers c)\<rparr> in
      if sec_websocket_key c = [] \<or> sec_websocket_version c \<noteq> ''13''
      then ([], c\<lparr>everything_end := True\<rparr>)
      else (case websocket_send heap (Some (ws_response (sec_websocket_key c))) False c of
              (_, rs, c) \<Rightarrow> (rs, c\<lparr>connected := True\<rparr>)))"

text \<open>The part of \<open>run\<close> on an established connection; the bool says whether \<open>run\<close> goes on.\<close>

definition ws_connected_io :: "heap \<Rightarrow> nat set \<Rightarrow> ('p websocket_connection \<Rightarrow> bool option \<times> 'p websocket_connection) \<Rightarrow>
    recv_answer list \<Rightarrow> send_answer list \<Rightarrow> nat \<Rightarrow> 'p websocket_connection \<Rightarrow>
    (unit res \<times> bool \<times> effect list \<times> 'p websocket_connection) option" where
  "ws_connected_io heap players callback recvs sends gid c =
     (case websocket_sock2buf heap recvs c of
        None \<Rightarrow> None
      | Some (sock2buf_res, need_task, c, _) \<Rightarrow>
          if \<not> sock2buf_res \<and> \<not> need_task
          then (case mark_close websocket_on_mark_close c of
                  (rs, c) \<Rightarrow> Some (Inr (), False, map Request rs, c))
          else (let effs = (if \<not> sock2buf_res then [Request (Do_task gid True True)] else []) in
                case ws_process_connection heap players c of
                  (Inl e, rs, ps, c) \<Rightarrow>
                    (case mark_close websocket_on_mark_close c of
                       (rs', c) \<Rightarrow> Some (Inr (), False,
                          effs @ map (case_prod Packet) ps @ map Request rs @ map Request rs', c))
                | (Inr _, rs, ps, c) \<Rightarrow>
                    let effs = effs @ map (case_prod Packet) ps @ map Request rs in
                    (case websocket_buf2sock heap callback sends c of
                       None \<Rightarrow> None
                     | Some (Inl e, c, _, _) \<Rightarrow> Some (Inl e, False, effs, c)
                     | Some (Inr (b_send, b_closed), c, _, _) \<Rightarrow>
                         if b_closed
                         then (case mark_close websocket_on_mark_close c of
                                 (rs', c) \<Rightarrow> Some (Inr (), True, effs @ map Request rs', c))
                         else if b_send then Some (Inr (), False, effs @ [Attach b_send], c)
                         else Some (Inr (), True, effs, c))))"

text \<open>What follows the TLS handshake. \<open>ws_close\<close> is \<open>connection_mgr::mark_close\<close> and the return.\<close>

definition ws_close :: "effect list \<Rightarrow> 'p websocket_connection \<Rightarrow> 'p websocket_connection run_result" where
  "ws_close effs c =
     (case mark_close websocket_on_mark_close c of (rs, c) \<Rightarrow> Some (Inr (), effs @ map Request rs, Some c))"

definition ws_after_read :: "heap \<Rightarrow> nat set \<Rightarrow> ('p websocket_connection \<Rightarrow> bool option \<times> 'p websocket_connection) \<Rightarrow>
    recv_answer list \<Rightarrow> send_answer list \<Rightarrow> nat \<Rightarrow> effect list \<Rightarrow> 'p websocket_connection \<Rightarrow>
    'p websocket_connection run_result" where
  "ws_after_read heap players callback recvs sends gid effs c =
     (if \<not> http_processed c \<and> \<not> everything_end c then Some (Inr (), effs @ [Attach False], Some c)
      else if \<not> (http_processed c \<and> is_upgrade c) then ws_close effs c
      else (case (if \<not> connected c \<and> http_processed c \<and> \<not> everything_end c then ws_handshake heap c else ([], c)) of
        (rs, c) \<Rightarrow>
          let effs = effs @ map Request rs in
          (case (if connected c then ws_connected_io heap players callback recvs sends gid c
                 else Some (Inr (), True, [], c)) of
             None \<Rightarrow> None
           | Some (Inl e, _, effs', c) \<Rightarrow> Some (Inl e, effs @ effs', Some c)
           | Some (Inr _, go, effs', c) \<Rightarrow>
               let effs = effs @ effs' in
               if \<not> go then Some (Inr (), effs, Some c)
               else if everything_end c then ws_close effs c
               else Some (Inr (), effs @ [Attach False], Some c))))"

definition websocket_task_run :: "heap \<Rightarrow> bool \<Rightarrow> int \<Rightarrow> int \<Rightarrow> 'p parser \<Rightarrow> nat set \<Rightarrow>
    ('p websocket_connection \<Rightarrow> bool option \<times> 'p websocket_connection) \<Rightarrow> recv_answer list \<Rightarrow> send_answer list \<Rightarrow>
    nat \<Rightarrow> 'p websocket_connection option \<Rightarrow> 'p websocket_connection run_result" where
  "websocket_task_run heap use_ssl ssl_status ssl_error parser players callback recvs sends gid found =
     (if gid = 0 then Some (Inr (), [], found)
      else (case found of
          None \<Rightarrow> Some (Inr (), [], None)
        | Some c \<Rightarrow>
            (case socket_ptr c of None \<Rightarrow> None | Some s \<Rightarrow>
              let s = bind_close_callback s; c = c\<lparr>socket_ptr := Some s\<rparr> in
              if close_flag c
              then Some (Inr (), (if destory_callback c then [Destory_callback] else []) @ [Remove], Some c)
              else (case ssl_step use_ssl ssl_status ssl_error s of
                  (r, effs, s) \<Rightarrow>
                    let c = c\<lparr>socket_ptr := Some s\<rparr> in
                    (case r of
                       Ssl_attach b \<Rightarrow> Some (Inr (), effs @ [Attach b], Some c)
                     | Ssl_failed \<Rightarrow> ws_close effs c
                     | Ssl_ready \<Rightarrow>
                         if \<not> connected c
                         then (if http_processed c then ws_close effs c
                               else (case ws_read_loop parser s recvs (c\<lparr>buffer_used_len := 0\<rparr>) of
                                       None \<Rightarrow> None
                                     | Some (c, recvs) \<Rightarrow>
                                         ws_after_read heap players callback recvs sends gid effs c))
                         else ws_after_read heap players callback recvs sends gid effs c)))))"

subsection \<open>The HTTP task\<close>

text \<open>\<open>on_body\<close> asks the application (\<open>http_app::on_body\<close>, the parameter); an exception counts as -1.\<close>

fun http_settings :: "('p http_connection \<Rightarrow> int res \<times> 'p http_connection) \<Rightarrow> parser_event \<Rightarrow>
    'p http_connection \<Rightarrow> int \<times> 'p http_connection" where
  "http_settings on_body (On_message_begin m) c = (0, c\<lparr>h_method := m\<rparr>)"
| "http_settings on_body (On_url u) c = (0, c\<lparr>h_url := u\<rparr>)"
| "http_settings on_body (On_status _) c = (0, c)"
| "http_settings on_body (On_header_field f) c = (0, c\<lparr>head_field_tmp := f\<rparr>)"
| "http_settings on_body (On_header_value v) c = (0, http_add_header (head_field_tmp c) v c)"
| "http_settings on_body On_headers_complete c = (0, c)"
| "http_settings on_body (On_body bs) c =
     (case on_body (add_to_body (Some bs) c) of (Inl e, c) \<Rightarrow> (-1, c) | (Inr iret, c) \<Rightarrow> (iret, c))"
| "http_settings on_body On_message_complete c = (0, c\<lparr>recv_end := True\<rparr>)"
| "http_settings on_body On_chunk_header c = (0, c)"
| "http_settings on_body On_chunk_complete c = (0, c)"

definition http_parser_execute :: "'p parser \<Rightarrow> ('p http_connection \<Rightarrow> int res \<times> 'p http_connection) \<Rightarrow> bytes \<Rightarrow>
    'p http_connection \<Rightarrow> int \<times> bool \<times> 'p http_connection" where
  "http_parser_execute parser on_body bs c =
     (case parser (h_parser c) bs of
        (es, outcome) \<Rightarrow>
          (case run_callbacks (http_settings on_body) es c of
             (k, c) \<Rightarrow> (case outcome k of (nparsed, upgrade, p) \<Rightarrow> (nparsed, upgrade, c\<lparr>h_parser := p\<rparr>))))"

fun http_read_loop :: "'p parser \<Rightarrow> ('p http_connection \<Rightarrow> int res \<times> 'p http_connection) \<Rightarrow> socket \<Rightarrow>
    recv_answer list \<Rightarrow> 'p http_connection \<Rightarrow> 'p http_connection option" where
  "http_read_loop parser on_body s [] c = None"
| "http_read_loop parser on_body s (a # as) c =
     (case socket_recv a 0 s of
        (len, data, oper_errno) \<Rightarrow>
          let c = c\<lparr>h_array := store_at 0 data (h_array c), h_used_len := len\<rparr> in
          if len = -1 \<and> oper_errno = EAGAIN then Some (c\<lparr>h_used_len := 0\<rparr>)
          else if len = -1 \<and> oper_errno = EINTR then http_read_loop parser on_body s as (c\<lparr>h_used_len := 0\<rparr>)
          else if 0 < len
          then (case http_parser_execute parser on_body (take (nat len) (h_array c)) c of
                  (nparsed, upgrade, c) \<Rightarrow>
                    if upgrade then http_read_loop parser on_body s as c
                    else if nparsed \<noteq> len then Some (c\<lparr>h_used_len := 0, h_everything_end := True\<rparr>)
                    else http_read_loop parser on_body s as c)
          else Some (c\<lparr>h_everything_end := True\<rparr>))"

text \<open>
  Processing: the application installs its callbacks, then the process callback runs. Both are
  parameters; an exception ends the connection.
\<close>

definition http_process :: "('p http_connection \<Rightarrow> unit res \<times> 'p http_connection) \<Rightarrow>
    ('p http_connection \<Rightarrow> unit res \<times> 'p http_connection) \<Rightarrow> 'p http_connection \<Rightarrow> 'p http_connection" where
  "http_process app process_cb c =
     (if \<not> h_everything_end c \<and> recv_end c \<and> \<not> process_end c
      then (case app (c\<lparr>process_end := True\<rparr>) of
              (Inl e, c) \<Rightarrow> c\<lparr>h_everything_end := True\<rparr>
            | (Inr _, c) \<Rightarrow>
                if process_callback c
                then (case process_cb c of (Inl e, c) \<Rightarrow> c\<lparr>h_everything_end := True\<rparr> | (Inr _, c) \<Rightarrow> c)
                else c\<lparr>h_everything_end := True\<rparr>)
      else c)"

text \<open>
  The write loop; its second result is the trace of what the kernel took. It stops when the array is
  written, when the kernel has no room, or when the peer is gone.
\<close>

fun http_send_loop :: "socket \<Rightarrow> send_answer list \<Rightarrow> 'p http_connection \<Rightarrow>
    ('p http_connection \<times> bytes list) option" where
  "http_send_loop s as c =
     (if h_start_use c < h_used_len c
      then (case as of
          [] \<Rightarrow> None
        | a # as' \<Rightarrow>
            let offered = seg (nat (h_start_use c)) (nat (h_used_len c)) (h_array c);
                (sended, oper_errno) = socket_send a 0 s in
            if sended < 0
            then (if oper_errno = EINTR then http_send_loop s as' c
                  else if oper_errno = EAGAIN then Some (c, [])
                  else Some (c\<lparr>response_end := True, h_everything_end := True\<rparr>, []))
            else if sended = 0 then Some (c\<lparr>h_everything_end := True\<rparr>, [])
            else map_option (\<lambda>(c, trace). (c, take (nat sended) offered # trace))
                   (http_send_loop s as' (c\<lparr>h_start_use := h_start_use c + sended\<rparr>)))
      else Some (c, []))"

declare http_send_loop.simps [simp del]

text \<open>
  After the loop: the callback of the application when everything it wrote is sent, the next block of
  the send buffer, and the end of the response. \<open>can_readable_size\<close> may throw, which leaves
  \<open>run\<close>.
\<close>

definition http_write_end :: "heap \<Rightarrow> ('p http_connection \<Rightarrow> unit res \<times> 'p http_connection) \<Rightarrow>
    'p http_connection \<Rightarrow> unit res \<times> 'p http_connection" where
  "http_write_end heap write_end_cb c =
     (if h_start_use c = h_used_len c
      then (case can_readable_size heap (h_send_buffer c) of
          (Inl e, b) \<Rightarrow> (Inl e, c\<lparr>h_send_buffer := b\<rparr>)
        | (Inr n, b) \<Rightarrow>
            let c = c\<lparr>h_send_buffer := b\<rparr> in
            (Inr (),
             if n = 0 \<and> \<not> response_end c
             then (if h_write_end_callback c
                   then (case write_end_cb c of (Inl e, c) \<Rightarrow> c\<lparr>h_everything_end := True\<rparr> | (Inr _, c) \<Rightarrow> c)
                   else c\<lparr>h_everything_end := True\<rparr>)
             else c))
      else (Inr (), c))"

definition http_refill :: "heap \<Rightarrow> 'p http_connection \<Rightarrow> unit res \<times> 'p http_connection" where
  "http_refill heap c =
     (if h_start_use c = h_used_len c
      then (case can_readable_size heap (h_send_buffer c) of
          (Inl e, b) \<Rightarrow> (Inl e, c\<lparr>h_send_buffer := b\<rparr>)
        | (Inr n, b) \<Rightarrow>
            let c = c\<lparr>h_send_buffer := b\<rparr> in
            if n \<noteq> 0
            then (let c = (case buffer_read heap False (http_buffer_size - 1) (h_send_buffer c) of
                             (Inl e, b) \<Rightarrow> c\<lparr>h_send_buffer := b\<rparr>
                           | (Inr data, b) \<Rightarrow> c\<lparr>h_send_buffer := b, h_array := store_at 0 data (h_array c),
                                                h_used_len := int (length data)\<rparr>) in
                  (Inr (), c\<lparr>h_array := (h_array c)[nat (h_used_len c) := 0], h_start_use := 0\<rparr>))
            else (Inr (), c))
      else (Inr (), c))"

definition http_finish :: "heap \<Rightarrow> 'p http_connection \<Rightarrow> unit res \<times> 'p http_connection" where
  "http_finish heap c =
     (if h_start_use c = h_used_len c
      then (case can_readable_size heap (h_send_buffer c) of
          (Inl e, b) \<Rightarrow> (Inl e, c\<lparr>h_send_buffer := b\<rparr>)
        | (Inr n, b) \<Rightarrow>
            let c = c\<lparr>h_send_buffer := b\<rparr> in
            (Inr (), if n = 0 \<and> response_end c then c\<lparr>h_everything_end := True\<rparr> else c))
      else (Inr (), c))"

definition http_write :: "heap \<Rightarrow> ('p http_connection \<Rightarrow> unit res \<times> 'p http_connection) \<Rightarrow> socket \<Rightarrow>
    send_answer list \<Rightarrow> 'p http_connection \<Rightarrow> (unit res \<times> 'p http_connection \<times> bytes list) option" where
  "http_write heap write_end_cb s sends c =
     (if \<not> h_everything_end c \<and> process_end c
      then (case http_send_loop s sends c of
          None \<Rightarrow> None
        | Some (c, trace) \<Rightarrow>
            (case bindS (http_write_end heap write_end_cb c) (\<lambda>_ c. bindS (http_refill heap c) (\<lambda>_ c. http_finish heap c)) of
               (r, c) \<Rightarrow> Some (r, c, trace)))
      else Some (Inr (), c, []))"

definition http_task_io :: "heap \<Rightarrow> 'p parser \<Rightarrow> ('p http_connection \<Rightarrow> int res \<times> 'p http_connection) \<Rightarrow>
    ('p http_connection \<Rightarrow> unit res \<times> 'p http_connection) \<Rightarrow> ('p http_connection \<Rightarrow> unit res \<times> 'p http_connection) \<Rightarrow>
    ('p http_connection \<Rightarrow> unit res \<times> 'p http_connection) \<Rightarrow> recv_answer list \<Rightarrow> send_answer list \<Rightarrow>
    socket \<Rightarrow> effect list \<Rightarrow> 'p http_connection \<Rightarrow> 'p http_connection run_result" where
  "http_task_io heap parser on_body app process_cb write_end_cb recvs sends s effs c =
     (case (if \<not> recv_end c \<and> \<not> h_everything_end c
            then http_read_loop parser on_body s recvs (c\<lparr>h_used_len := 0\<rparr>) else Some c) of
        None \<Rightarrow> None
      | Some c \<Rightarrow>
          (case http_write heap write_end_cb s sends (http_process app process_cb c) of
             None \<Rightarrow> None
           | Some (Inl e, c, _) \<Rightarrow> Some (Inl e, effs, Some c)
           | Some (Inr _, c, _) \<Rightarrow>
               if \<not> h_everything_end c \<and> \<not> recv_end c then Some (Inr (), effs @ [Attach False], Some c)
               else if \<not> h_everything_end c then Some (Inr (), effs @ [Attach True], Some c)
               else (case mark_close http_on_mark_close (c\<lparr>h_everything_end := True\<rparr>) of
                       (rs, c) \<Rightarrow> Some (Inr (), effs @ map Request rs, Some c))))"

definition http_task_run :: "heap \<Rightarrow> bool \<Rightarrow> int \<Rightarrow> int \<Rightarrow> 'p parser \<Rightarrow> ('p http_connection \<Rightarrow> int res \<times> 'p http_connection) \<Rightarrow>
    ('p http_connection \<Rightarrow> unit res \<times> 'p http_connection) \<Rightarrow> ('p http_connection \<Rightarrow> unit res \<times> 'p http_connection) \<Rightarrow>
    ('p http_connection \<Rightarrow> unit res \<times> 'p http_connection) \<Rightarrow> recv_answer list \<Rightarrow> send_answer list \<Rightarrow>
    nat \<Rightarrow> 'p http_connection option \<Rightarrow> 'p http_connection run_result" where
  "http_task_run heap use_ssl ssl_status ssl_error parser on_body app process_cb write_end_cb recvs sends gid found =
     (if gid = 0 then Some (Inr (), [], found)
      else (case found of
          None \<Rightarrow> Some (Inr (), [], None)
        | Some c \<Rightarrow>
            (case socket_ptr c of None \<Rightarrow> None | Some s \<Rightarrow>
              let s = bind_close_callback s; c = c\<lparr>socket_ptr := Some s\<rparr> in
              if close_flag c
              then Some (Inr (), (if h_destory_callback c then [Destory_callback] else []) @ [Remove], Some c)
              else (case ssl_step use_ssl ssl_status ssl_error s of
                  (r, effs, s) \<Rightarrow>
                    let c = c\<lparr>socket_ptr := Some s\<rparr> in
                    (case r of
                       Ssl_attach b \<Rightarrow> Some (Inr (), effs @ [Attach b], Some c)
                     | Ssl_failed \<Rightarrow>
                         (case mark_close http_on_mark_close c of
                            (rs, c) \<Rightarrow> Some (Inr (), effs @ map Request rs, Some c))
                     | Ssl_ready \<Rightarrow>
                         http_task_io heap parser on_body app process_cb write_end_cb recvs sends s effs c)))))"

subsection \<open>What the transfers leave alone\<close>

definition ident :: "('s, 'c) connection_scheme \<Rightarrow> nat \<times> bool" where
  "ident c = (c_gid c, close_flag c)"

lemma ident_updates [simp]:
  "ident (c\<lparr>m_send_buffer := b1\<rparr>) = ident c" "ident (c\<lparr>m_recv_buffer := b1\<rparr>) = ident c"
  "ident (c\<lparr>m_wating_send_pack := b1\<rparr>) = ident c" "ident (c\<lparr>should_send_idx := i\<rparr>) = ident c"
  "ident (c\<lparr>should_send_size := i\<rparr>) = ident c" "ident (c\<lparr>buf2sock_inner_buffer := bs\<rparr>) = ident c"
  "ident (c\<lparr>sock2buf_inner_buffer := bs\<rparr>) = ident c" "ident (c\<lparr>sock2buf_data_len := i\<rparr>) = ident c"
  for c :: "'c buffered_connection_scheme"
  by (simp_all add: ident_def)

lemma ident_socket_ptr [simp]: "ident (c\<lparr>socket_ptr := sp\<rparr>) = ident c"
  by (simp add: ident_def)

definition callback_ok :: "('c buffered_connection_scheme \<Rightarrow> bool option \<times> 'c buffered_connection_scheme) \<Rightarrow> bool" where
  "callback_ok callback \<longleftrightarrow> (\<forall>c. ident (snd (callback c)) = ident c)"

lemma fill_step_ident:
  assumes "callback_ok callback"
  shows "ident (snd (fill_step heap callback c)) = ident c"
proof -
  have cb: "ident (snd (callback c)) = ident c" for c
    using assms by (simp add: callback_ok_def)
  show ?thesis
    unfolding fill_step_def Let_def case_prod_beta
    by (simp add: cb split: sum.split option.split)
qed

lemma sock2buf_loop_ident:
  "sock2buf_loop heap as c = Some (r, need, c', rest) \<Longrightarrow> ident c' = ident c"
proof (induction as arbitrary: c)
  case (Cons a as)
  obtain s where s: "socket_ptr c = Some s" using Cons.prems by (auto split: option.splits)
  obtain len data e where a: "socket_recv a 0 s = (len, data, e)" by (rule prod_cases3)
  define d where "d = c\<lparr>sock2buf_inner_buffer := store_at 0 data (sock2buf_inner_buffer c), sock2buf_data_len := len\<rparr>"
  have d: "ident d = ident c" by (simp add: d_def)
  obtain w b where w: "buffer_write heap (Some (take (nat len) (sock2buf_inner_buffer d))) (m_recv_buffer d) = (w, b)" by fastforce
  have step: "sock2buf_loop heap (a # as) c =
      (if len = -1 \<and> e = EAGAIN then Some (True, False, d, as)
       else if len = -1 \<and> e = EINTR then sock2buf_loop heap as d
       else if 0 < len
       then (case w of Inl e \<Rightarrow> Some (False, True, d\<lparr>m_recv_buffer := b\<rparr>, as)
             | Inr _ \<Rightarrow> sock2buf_loop heap as (d\<lparr>m_recv_buffer := b, sock2buf_data_len := 0\<rparr>))
       else Some (False, False, d, as))"
    by (cases w) (simp_all only: sock2buf_loop.simps s a w option.case prod.case Let_def d_def [symmetric] sum.case)
  show ?case
    using Cons.prems Cons.IH [of d] Cons.IH [of "d\<lparr>m_recv_buffer := b, sock2buf_data_len := 0\<rparr>"] d
    unfolding step by (cases w) (auto split: if_splits)
qed simp

lemma sock2buf_ident: "sock2buf heap as c = Some (r, need, c', rest) \<Longrightarrow> ident c' = ident c"
  by (auto simp: sock2buf_def dest!: sock2buf_loop_ident split: if_splits prod.splits sum.splits)

lemma fill_loop_ident_pair:
  assumes "fill_loop heap callback c = Some y" "callback_ok callback"
  shows "ident (snd y) = ident c"
  using assms
proof (induction rule: fill_loop.raw_induct [rotated 1, consumes 1, case_names step])
  case (step fl heap callback c y)
  obtain r d where d: "fill_step heap callback c = (r, d)" by fastforce
  then have id: "ident d = ident c" using fill_step_ident [OF step.prems, of heap c] by simp
  have "(if should_send_idx c < 0 then if r = Fill_again then fl heap callback d else Some (r, d)
         else Some (Fill_again, c)) = Some y"
    using step(2) unfolding d prod.case .
  then show ?case using step(1) [of heap callback d y] step.prems id by (auto split: if_splits)
qed

lemma fill_loop_ident:
  "callback_ok callback \<Longrightarrow> fill_loop heap callback c = Some (r, c') \<Longrightarrow> ident c' = ident c"
  using fill_loop_ident_pair [of heap callback c "(r, c')"] by simp

lemma buf2sock_ident:
  assumes "callback_ok callback" "buf2sock heap callback as c = Some (r, c', trace, rest)"
  shows "ident c' = ident c"
  using assms(2)
proof (induction as arbitrary: c r c' trace rest)
  case Nil
  then show ?case
    using fill_loop_ident [OF assms(1)]
    by (subst (asm) buf2sock.simps) (auto split: option.splits fill.splits)
next
  case (Cons a as)
  obtain f d where d: "fill_loop heap callback c = Some (f, d)"
    using Cons.prems by (subst (asm) buf2sock.simps) (auto split: option.splits)
  have id: "ident d = ident c" by (rule fill_loop_ident [OF assms(1) d])
  show ?case
  proof (cases "f = Fill_again")
    case False
    then show ?thesis
      using Cons.prems d id by (subst (asm) buf2sock.simps) (auto split: fill.splits)
  next
    case True
    obtain s where s: "socket_ptr d = Some s"
      using Cons.prems d True by (subst (asm) buf2sock.simps) (auto split: option.splits)
    obtain len e where ans: "socket_send a 0 s = (len, e)" by fastforce
    define d1 where "d1 = d\<lparr>should_send_size := should_send_size d - len\<rparr>"
    define d2 where "d2 = (if should_send_size d1 \<le> 0 then d1\<lparr>should_send_size := 0, should_send_idx := -1\<rparr> else d1)"
    have ids: "ident d2 = ident c" by (simp add: d1_def d2_def id)
    have "buf2sock heap callback as d = Some (r, c', trace, rest) \<or> c' = d \<or>
        (\<exists>t. buf2sock heap callback as d2 = Some (r, c', t, rest))"
      using Cons.prems
      unfolding buf2sock.simps [of heap callback "a # as" c] d option.case prod.case True fill.case s list.case Let_def ans
        d1_def [symmetric] d2_def [symmetric]
      by (auto split: if_splits)
    then show ?thesis using Cons.IH id ids by metis
  qed
qed

subsection \<open>No connection is forgotten\<close>

text \<open>
  \<open>closing\<close>: another task of the connection is queued, or the connection is removed. A connection
  that is marked closed must be in this state; a connection that is not must be with the poller or in
  this state, or no event would ever reach it again.
\<close>

definition closing :: "nat \<Rightarrow> effect list \<Rightarrow> bool" where
  "closing gid effs \<longleftrightarrow> Remove \<in> set effs \<or> (\<exists>r s. Request (Do_task gid r s) \<in> set effs)"

definition handled :: "nat \<Rightarrow> effect list \<Rightarrow> bool" where
  "handled gid effs \<longleftrightarrow> closing gid effs \<or> (\<exists>b. Attach b \<in> set effs)"

definition tracked :: "nat \<Rightarrow> effect list \<Rightarrow> ('s, 'c) connection_scheme \<Rightarrow> bool" where
  "tracked gid effs c \<longleftrightarrow> c_gid c = gid \<and> (close_flag c \<longrightarrow> closing gid effs)"

definition app_ok :: "nat \<Rightarrow> (('s, 'c) connection_scheme \<Rightarrow> unit res \<times> request list \<times> ('s, 'c) connection_scheme) \<Rightarrow> bool" where
  "app_ok gid app \<longleftrightarrow> (\<forall>c r rs c'. c_gid c = gid \<longrightarrow> app c = (r, rs, c') \<longrightarrow>
     c_gid c' = gid \<and> (close_flag c' \<longrightarrow> close_flag c \<or> (\<exists>r s. Do_task gid r s \<in> set rs)))"

lemma closing_append [simp]: "closing gid (xs @ ys) \<longleftrightarrow> closing gid xs \<or> closing gid ys"
  by (auto simp: closing_def)

lemma closing_requests [simp]:
  "closing gid (map Request rs) \<longleftrightarrow> (\<exists>r s. Do_task gid r s \<in> set rs)" "\<not> closing gid []"
  by (auto simp: closing_def)

lemma handled_append [simp]: "handled gid (xs @ ys) \<longleftrightarrow> handled gid xs \<or> handled gid ys"
  by (auto simp: handled_def)

lemma handled_attach [simp]: "handled gid [Attach b]"
  by (auto simp: handled_def)

lemma closing_handled: "closing gid effs \<Longrightarrow> handled gid effs"
  by (simp add: handled_def)

lemma tracked_append: "tracked gid effs c \<Longrightarrow> tracked gid (effs @ xs) c"
  by (auto simp: tracked_def)

lemma tracked_ident: "tracked gid effs c \<Longrightarrow> ident c' = ident c \<Longrightarrow> tracked gid effs c'"
  by (simp add: tracked_def ident_def)

lemma tracked_app:
  assumes "tracked gid effs c" "app_ok gid app" "app c = (r, rs, c')"
  shows "tracked gid (effs @ map Request rs) c'"
  using assms unfolding tracked_def app_ok_def by auto

text \<open>Every \<open>on_mark_close\<close> asks for a task of the connection and keeps its id.\<close>

definition on_mark_close_ok :: "(('s, 'c) connection_scheme \<Rightarrow> request list \<times> ('s, 'c) connection_scheme) \<Rightarrow> bool" where
  "on_mark_close_ok f \<longleftrightarrow> (\<forall>c. fst (f c) = [Do_task (c_gid c) False True] \<and> ident (snd (f c)) = ident c)"

lemma on_mark_close_ok [simp]:
  "on_mark_close_ok buffered_on_mark_close" "on_mark_close_ok websocket_on_mark_close" "on_mark_close_ok http_on_mark_close"
  by (simp_all add: on_mark_close_ok_def buffered_on_mark_close_def websocket_on_mark_close_def http_on_mark_close_def ident_def)

lemma tracked_mark_close:
  assumes "on_mark_close_ok f" "tracked gid effs c" "mark_close f c = (rs, c')"
  shows "tracked gid (effs @ map Request rs) c'" "closing gid (effs @ map Request rs)" "close_flag c'"
proof -
  obtain rs1 c1 where f: "f (c\<lparr>close_flag := True\<rparr>) = (rs1, c1)" by fastforce
  have "rs1 = [Do_task (c_gid c) False True]" "ident c1 = ident (c\<lparr>close_flag := True\<rparr>)"
    using assms(1) f unfolding on_mark_close_ok_def by (metis connection.select_convs(2) connection.surjective connection.update_convs(1) fst_conv, metis snd_conv)
  then show "tracked gid (effs @ map Request rs) c'" "closing gid (effs @ map Request rs)" "close_flag c'"
    using assms(2,3) f by (auto simp: mark_close_def tracked_def ident_def split: if_splits)
qed

lemma stream_task_io_tracked:
  assumes "callback_ok callback" "app_ok gid app" "tracked gid effs c"
    "stream_task_io heap app callback recvs sends gid effs c = Some (Inr (), effs', Some c')"
  shows "tracked gid effs' c' \<and> handled gid effs'"
proof -
  obtain res need c1 rest where io: "sock2buf heap recvs c = Some (res, need, c1, rest)"
    using assms(4) by (auto simp: stream_task_io_def split: option.splits)
  have c1: "tracked gid effs c1" by (rule tracked_ident [OF assms(3) sock2buf_ident [OF io]])
  show ?thesis
  proof (cases "\<not> res \<and> \<not> need")
    case True
    obtain rs c2 where m: "mark_close buffered_on_mark_close c1 = (rs, c2)" by fastforce
    then have "effs' = effs @ map Request rs" "c' = c2"
      using assms(4) io True by (simp_all add: stream_task_io_def)
    with tracked_mark_close [OF on_mark_close_ok(1) c1 m] show ?thesis by (auto simp: handled_def)
  next
    case False
    define effs1 where "effs1 = (if \<not> res then effs @ [Request (Do_task gid True True)] else effs)"
    have e1: "tracked gid effs1 c1" using c1 by (simp add: effs1_def tracked_append)
    obtain r rs c2 where a: "app c1 = (r, rs, c2)" by (rule prod_cases3)
    have c2: "tracked gid (effs1 @ map Request rs) c2" by (rule tracked_app [OF e1 assms(2) a])
    have run: "Some (Inr (), effs', Some c') = (case (r, rs, c2) of
          (Inl e, rs, c) \<Rightarrow>
            (case mark_close buffered_on_mark_close c of
               (rs', c) \<Rightarrow> Some (Inr (), effs1 @ map Request rs @ map Request rs', Some c))
        | (Inr _, rs, c) \<Rightarrow>
            (case buf2sock heap callback sends c of
               None \<Rightarrow> None
             | Some (Inl e, c, _, _) \<Rightarrow> Some (Inl e, effs1 @ map Request rs, Some c)
             | Some (Inr (b_send, b_closed), c, _, _) \<Rightarrow>
                 (case (if b_closed then mark_close buffered_on_mark_close c else ([], c)) of
                    (rs', c) \<Rightarrow>
                      Some (Inr (), effs1 @ map Request rs @ map Request rs' @ [Attach b_send], Some c))))"
      using assms(4) False unfolding stream_task_io_def io option.case prod.case Let_def a effs1_def [symmetric] by simp
    show ?thesis
    proof (cases r)
      case (Inl e)
      obtain rs' c3 where m: "mark_close buffered_on_mark_close c2 = (rs', c3)" by fastforce
      from tracked_mark_close [OF on_mark_close_ok(1) c2 m] run Inl m show ?thesis by (auto simp: handled_def)
    next
      case (Inr u)
      obtain b_send b_closed c3 tr re where b: "buf2sock heap callback sends c2 = Some (Inr (b_send, b_closed), c3, tr, re)"
        using run Inr by (auto split: option.splits sum.splits)
      have c3: "tracked gid (effs1 @ map Request rs) c3"
        by (rule tracked_ident [OF c2 buf2sock_ident [OF assms(1) b]])
      obtain rs' c4 where m: "(if b_closed then mark_close buffered_on_mark_close c3 else ([], c3)) = (rs', c4)" by fastforce
      have c4: "tracked gid (effs1 @ map Request rs @ map Request rs') c4"
        using tracked_mark_close(1) [OF on_mark_close_ok(1) c3, of rs' c4] c3 m by (cases b_closed) auto
      have "effs' = effs1 @ map Request rs @ map Request rs' @ [Attach b_send]" "c' = c4"
        using run unfolding Inr prod.case sum.case b option.case m by simp_all
      with tracked_append [OF c4, of "[Attach b_send]"] show ?thesis by simp
    qed
  qed
qed

lemma ssl_step_no_request: "ssl_step u st se s = (r, effs, s') \<Longrightarrow> \<not> closing gid effs"
  by (auto simp: ssl_step_def closing_def split: if_splits)

lemma tracked_start: "c_gid c = gid \<Longrightarrow> \<not> close_flag c \<Longrightarrow> tracked gid effs (c\<lparr>socket_ptr := sp\<rparr>)"
  by (simp add: tracked_def)

text \<open>The common front of the three tasks: what is left to show is what happens once TLS is ready.\<close>

lemma task_front:
  fixes c :: "('s, 'c) connection_scheme"
  assumes "on_mark_close_ok f" "c_gid c = gid" "\<not> close_flag c"
    and "(case ssl_step u st se s of (r, effs, s) \<Rightarrow>
           let c = g s in
           (case r of
              Ssl_attach b \<Rightarrow> Some (Inr (), effs @ [Attach b], Some c)
            | Ssl_failed \<Rightarrow> (case mark_close f c of (rs, c) \<Rightarrow> Some (Inr (), effs @ map Request rs, Some c))
            | Ssl_ready \<Rightarrow> rest s effs c)) = Some (Inr (), effs', Some c')"
    and "\<And>s. ident (g s) = ident c"
    and "\<And>s effs. tracked gid effs (g s) \<Longrightarrow> rest s effs (g s) = Some (Inr (), effs', Some c') \<Longrightarrow>
           tracked gid effs' c' \<and> handled gid effs'"
  shows "tracked gid effs' c' \<and> handled gid effs'"
proof -
  obtain r effs s1 where ssl: "ssl_step u st se s = (r, effs, s1)" by (rule prod_cases3)
  have t: "tracked gid effs (g s1)" using assms(2,3) assms(5) [of s1] by (simp add: tracked_def ident_def)
  show ?thesis
  proof (cases r)
    case Ssl_ready
    with assms(4) ssl assms(6) [OF t] show ?thesis by simp
  next
    case (Ssl_attach b)
    with assms(4) ssl tracked_append [OF t, of "[Attach b]"] show ?thesis by auto
  next
    case Ssl_failed
    obtain rs c2 where m: "mark_close f (g s1) = (rs, c2)" by fastforce
    from tracked_mark_close [OF assms(1) t m] assms(4) ssl Ssl_failed m show ?thesis by (auto simp: handled_def)
  qed
qed

lemma stream_task_run_tracked:
  assumes "callback_ok callback" "app_ok gid app" "c_gid c = gid" "gid \<noteq> 0"
    "stream_task_run heap u st se app callback recvs sends gid (Some c) = Some (Inr (), effs', Some c')"
  shows "tracked gid effs' c' \<and> handled gid effs'"
proof -
  obtain s where s: "socket_ptr c = Some s" using assms(4,5) by (auto simp: stream_task_run_def split: option.splits)
  show ?thesis
  proof (cases "close_flag c")
    case True
    with assms s show ?thesis
      by (auto simp: stream_task_run_def Let_def tracked_def handled_def closing_def)
  next
    case False
    show ?thesis
    proof (rule task_front [where c = c and f = buffered_on_mark_close and g = "\<lambda>s. c\<lparr>socket_ptr := Some s\<rparr>"
        and rest = "\<lambda>s effs c. stream_task_io heap app callback recvs sends gid effs c"
        and u = u and st = st and se = se and s = "bind_close_callback s"])
      show "(case ssl_step u st se (bind_close_callback s) of (r, effs, s) \<Rightarrow>
           let c = c\<lparr>socket_ptr := Some s\<rparr> in
           (case r of
              Ssl_attach b \<Rightarrow> Some (Inr (), effs @ [Attach b], Some c)
            | Ssl_failed \<Rightarrow> (case mark_close buffered_on_mark_close c of (rs, c) \<Rightarrow> Some (Inr (), effs @ map Request rs, Some c))
            | Ssl_ready \<Rightarrow> stream_task_io heap app callback recvs sends gid effs c)) = Some (Inr (), effs', Some c')"
        using assms(4,5) s False
        unfolding stream_task_run_def by (simp add: Let_def cong: ssl_result.case_cong)
    qed (use assms False in \<open>auto dest: stream_task_io_tracked\<close>)
  qed
qed

subsection \<open>The WebSocket and HTTP tasks forget no connection either\<close>

lemma closing_packets [simp]: "\<not> closing gid (map (case_prod Packet) ps)"
  by (auto simp: closing_def)

lemma ws_loop_tracked:
  "tracked gid effs c \<Longrightarrow> ws_loop heap players data n index c = (r, rs, ps, c') \<Longrightarrow>
     tracked gid (effs @ map Request rs) c'"
proof (induction heap players data n index c arbitrary: r rs ps c' rule: ws_loop.induct)
  case (1 heap players data n index c)
  show ?case
  proof (cases "n \<le> index")
    case True
    then show ?thesis using 1 by (subst (asm) (2) ws_loop.simps) simp
  next
    case False
    note run = 1(3) [unfolded ws_loop.simps [of heap players data n index c]]
    show ?thesis
    proof (cases "ws_parse data n index")
      case Ws_bad
      obtain rs1 c1 where m: "mark_close websocket_on_mark_close c = (rs1, c1)" by fastforce
      from tracked_mark_close(1) [OF on_mark_close_ok(2) 1(2) m] run False Ws_bad m show ?thesis by simp
    next
      case (Ws_frame frame i)
      obtain w b where w: "read_ptr_move_n heap (i - index + payload_length frame) (m_recv_buffer c) = (w, b)" by fastforce
      let ?c = "c\<lparr>m_recv_buffer := b\<rparr>"
      have t: "tracked gid effs ?c" by (rule tracked_ident [OF 1(2)]) simp
      show ?thesis
      proof (cases w)
        case (Inl e)
        with run False Ws_frame w t show ?thesis by (auto simp: Let_def)
      next
        case (Inr u)
        obtain r1 rs1 ps1 c1 where l: "ws_loop heap players data n (i + payload_length frame) ?c = (r1, rs1, ps1, c1)"
          by (metis prod_cases4)
        have "tracked gid (effs @ map Request rs1) c1"
          using 1(1) [OF False Ws_frame refl w [unfolded Inr, symmetric]] t l Inr w by auto
        then show ?thesis using run False Ws_frame w Inr l by (auto simp: Let_def)
      qed
    qed (use run False 1(2) in auto)
  qed
qed

lemma ws_process_tracked:
  assumes "tracked gid effs c" "ws_process_connection heap players c = (r, rs, ps, c')"
  shows "tracked gid (effs @ map (case_prod Packet) ps @ map Request rs) c'"
proof -
  have t: "tracked gid effs (c\<lparr>m_recv_buffer := b\<rparr>)" for b by (rule tracked_ident [OF assms(1)]) simp
  have "tracked gid (effs @ map Request rs) c'"
    using assms(2) t ws_loop_tracked [OF t]
    by (auto simp: ws_process_connection_def split: prod.splits sum.splits if_splits)
  then show ?thesis by (auto simp: tracked_def)
qed

lemma ws_connected_io_tracked:
  assumes "callback_ok callback" "tracked gid effs c"
    "ws_connected_io heap players callback recvs sends gid c = Some (Inr (), go, effs', c')"
  shows "tracked gid (effs @ effs') c' \<and> (go \<or> handled gid (effs @ effs'))"
proof -
  obtain res need c1 rest where io: "websocket_sock2buf heap recvs c = Some (res, need, c1, rest)"
    using assms(3) by (auto simp: ws_connected_io_def split: option.splits)
  have c1: "tracked gid effs c1"
    by (rule tracked_ident [OF assms(2) sock2buf_ident [OF io [unfolded websocket_sock2buf_def]]])
  show ?thesis
  proof (cases "\<not> res \<and> \<not> need")
    case True
    obtain rs c2 where m: "mark_close websocket_on_mark_close c1 = (rs, c2)" by fastforce
    then have "effs' = map Request rs" "c' = c2"
      using assms(3) io True by (simp_all add: ws_connected_io_def)
    with tracked_mark_close [OF on_mark_close_ok(2) c1 m] show ?thesis by (auto simp: handled_def)
  next
    case False
    define e1 where "e1 = (if \<not> res then [Request (Do_task gid True True)] else [])"
    have t1: "tracked gid (effs @ e1) c1" using c1 by (simp add: e1_def tracked_append)
    obtain r rs ps c2 where a: "ws_process_connection heap players c1 = (r, rs, ps, c2)" by (metis prod_cases4)
    define e2 where "e2 = e1 @ map (case_prod Packet) ps @ map Request rs"
    have t2: "tracked gid (effs @ e2) c2" using ws_process_tracked [OF t1 a] by (simp add: e2_def)
    have run: "Some (Inr (), go, effs', c') = (case r of
          Inl e \<Rightarrow>
            (case mark_close websocket_on_mark_close c2 of
               (rs', c) \<Rightarrow> Some (Inr (), False, e1 @ map (case_prod Packet) ps @ map Request rs @ map Request rs', c))
        | Inr _ \<Rightarrow>
            (case websocket_buf2sock heap callback sends c2 of
               None \<Rightarrow> None
             | Some (Inl e, c, _, _) \<Rightarrow> Some (Inl e, False, e2, c)
             | Some (Inr (b_send, b_closed), c, _, _) \<Rightarrow>
                 if b_closed
                 then (case mark_close websocket_on_mark_close c of (rs', c) \<Rightarrow> Some (Inr (), True, e2 @ map Request rs', c))
                 else if b_send then Some (Inr (), False, e2 @ [Attach b_send], c)
                 else Some (Inr (), True, e2, c)))"
      using assms(3) False
      unfolding ws_connected_io_def io option.case prod.case Let_def a e1_def [symmetric] e2_def [symmetric] by simp
    show ?thesis
    proof (cases r)
      case (Inl e)
      obtain rs' c3 where m: "mark_close websocket_on_mark_close c2 = (rs', c3)" by fastforce
      from tracked_mark_close [OF on_mark_close_ok(2) t2 m] run Inl m show ?thesis by (auto simp: handled_def e2_def)
    next
      case (Inr u)
      obtain b_send b_closed c3 tr re where
        b: "websocket_buf2sock heap callback sends c2 = Some (Inr (b_send, b_closed), c3, tr, re)"
        using run Inr by (auto split: option.splits sum.splits)
      have t3: "tracked gid (effs @ e2) c3"
        by (rule tracked_ident [OF t2 buf2sock_ident [OF assms(1) b [unfolded websocket_buf2sock_def]]])
      obtain rs' c4 where m: "mark_close websocket_on_mark_close c3 = (rs', c4)" by fastforce
      note mk = tracked_mark_close(1) [OF on_mark_close_ok(2) t3 m]
      show ?thesis
        using run t3 mk tracked_append [OF t3, of "[Attach b_send]"]
        unfolding Inr sum.case b option.case prod.case m by (auto split: if_splits)
    qed
  qed
qed

lemma ws_settings_ident: "ident (snd (ws_settings e c)) = ident c"
  by (cases e) (simp_all add: ident_def websocket_add_header_def)

lemma run_callbacks_ident:
  assumes "\<And>e c. ident (snd (settings e c)) = ident c"
  shows "ident (snd (run_callbacks settings es c)) = ident c"
proof (induction es arbitrary: c)
  case (Cons e es)
  obtain r d where d: "settings e c = (r, d)" by fastforce
  obtain k d1 where d1: "run_callbacks settings es d = (k, d1)" by fastforce
  have "ident d = ident c" using assms [of e c] d by simp
  then show ?case using Cons.IH [of d] d d1 by simp
qed simp

lemma ws_parser_ident:
  assumes "ws_parser_execute parser bs c = (n, u, c')"
  shows "ident c' = ident c"
proof -
  obtain es out where p: "parser (m_http_parser c) bs = (es, out)" by fastforce
  obtain k d where d: "run_callbacks ws_settings es c = (k, d)" by fastforce
  have "ident d = ident c" using run_callbacks_ident [where settings = ws_settings, OF ws_settings_ident, of es c] d by simp
  moreover have "ident (d\<lparr>m_http_parser := q\<rparr>) = ident d" for q by (simp add: ident_def)
  ultimately show ?thesis using assms p d by (auto simp: ws_parser_execute_def split: prod.splits)
qed

lemma ident_ws_updates [simp]:
  "ident (c\<lparr>recv_array := x\<rparr>) = ident c" "ident (c\<lparr>buffer_used_len := i\<rparr>) = ident c"
  "ident (c\<lparr>buffer_start_use := i\<rparr>) = ident c" "ident (c\<lparr>is_upgrade := u\<rparr>) = ident c"
  "ident (c\<lparr>everything_end := u\<rparr>) = ident c" "ident (c\<lparr>http_processed := u\<rparr>) = ident c"
  "ident (c\<lparr>connected := u\<rparr>) = ident c" "ident (c\<lparr>sec_websocket_key := t\<rparr>) = ident c"
  "ident (c\<lparr>sec_websocket_version := t\<rparr>) = ident c"
  for c :: "'p websocket_connection"
  by (simp_all add: ident_def)

lemma ws_read_loop_ident: "ws_read_loop parser s as c = Some (c', rest) \<Longrightarrow> ident c' = ident c"
proof (induction as arbitrary: c)
  case (Cons a as)
  obtain len data e where a: "socket_recv a 0 s = (len, data, e)" by (rule prod_cases3)
  define d where "d = c\<lparr>recv_array := store_at 0 data (recv_array c), buffer_used_len := len\<rparr>"
  have d: "ident d = ident c" by (simp add: d_def)
  obtain np up d1 where p: "ws_parser_execute parser (take (nat len) (recv_array d)) d = (np, up, d1)" by (rule prod_cases3)
  have d1: "ident d1 = ident c" using ws_parser_ident [OF p] d by simp
  have "ws_read_loop parser s (a # as) c =
      (if len = -1 \<and> e = EAGAIN then Some (d\<lparr>buffer_start_use := 0\<rparr>, as)
       else if len = -1 \<and> e = EINTR then ws_read_loop parser s as (d\<lparr>buffer_used_len := 0\<rparr>)
       else if 0 < len
       then (if up then ws_read_loop parser s as (d1\<lparr>is_upgrade := True, buffer_used_len := 0\<rparr>)
             else if np \<noteq> len then Some (d1\<lparr>buffer_used_len := 0, everything_end := True, http_processed := True\<rparr>, as)
             else ws_read_loop parser s as (d1\<lparr>buffer_used_len := 0\<rparr>))
       else Some (d\<lparr>http_processed := True, everything_end := True\<rparr>, as))"
    unfolding ws_read_loop.simps a prod.case Let_def d_def [symmetric] p ..
  then show ?case
    using Cons.prems Cons.IH [of "d\<lparr>buffer_used_len := 0\<rparr>"] Cons.IH [of "d1\<lparr>buffer_used_len := 0\<rparr>"]
      Cons.IH [of "d1\<lparr>is_upgrade := True, buffer_used_len := 0\<rparr>"] d d1
    by (auto split: if_splits)
qed simp

lemma ws_handshake_tracked:
  assumes "tracked gid effs c" "ws_handshake heap c = (rs, c')"
  shows "tracked gid (effs @ map Request rs) c'"
proof -
  have "ident c' = ident c"
    using assms(2)
    by (auto simp: ws_handshake_def Let_def websocket_send_def buffered_send_def split: if_splits prod.splits sum.splits)
  then show ?thesis using assms(1) tracked_ident tracked_append by blast
qed

lemma ws_close_tracked:
  assumes "tracked gid effs c" "ws_close effs c = Some (r, effs', Some c')"
  shows "tracked gid effs' c' \<and> handled gid effs'"
proof -
  obtain rs c1 where m: "mark_close websocket_on_mark_close c = (rs, c1)" by fastforce
  from tracked_mark_close [OF on_mark_close_ok(2) assms(1) m] assms(2) m show ?thesis
    by (auto simp: ws_close_def handled_def)
qed

lemma ws_after_read_tracked:
  assumes "callback_ok callback" "tracked gid effs c"
    "ws_after_read heap players callback recvs sends gid effs c = Some (Inr (), effs', Some c')"
  shows "tracked gid effs' c' \<and> handled gid effs'"
proof -
  consider (wait) "\<not> http_processed c" "\<not> everything_end c"
    | (close) "http_processed c \<or> everything_end c" "\<not> (http_processed c \<and> is_upgrade c)"
    | (go) "http_processed c" "is_upgrade c" by blast
  then show ?thesis
  proof cases
    case wait
    then show ?thesis using assms(3) tracked_append [OF assms(2), of "[Attach False]"] by (auto simp: ws_after_read_def)
  next
    case close
    then have "ws_close effs c = Some (Inr (), effs', Some c')" using assms(3) by (auto simp: ws_after_read_def)
    then show ?thesis by (rule ws_close_tracked [OF assms(2)])
  next
    case go
    obtain rs c1 where h: "(if \<not> connected c \<and> http_processed c \<and> \<not> everything_end c then ws_handshake heap c else ([], c)) = (rs, c1)"
      by fastforce
    have t1: "tracked gid (effs @ map Request rs) c1"
      using h assms(2) ws_handshake_tracked [OF assms(2), of heap rs c1] by (auto split: if_splits)
    obtain x where x: "(if connected c1 then ws_connected_io heap players callback recvs sends gid c1
         else Some (Inr (), True, [], c1)) = x" by blast
    have run: "(case x of
             None \<Rightarrow> None
           | Some (Inl e, _, effs', c) \<Rightarrow> Some (Inl e, (effs @ map Request rs) @ effs', Some c)
           | Some (Inr _, go, effs', c) \<Rightarrow>
               let effs = (effs @ map Request rs) @ effs' in
               if \<not> go then Some (Inr (), effs, Some c)
               else if everything_end c then ws_close effs c
               else Some (Inr (), effs @ [Attach False], Some c)) = Some (Inr (), effs', Some c')"
      using assms(3) go unfolding ws_after_read_def h prod.case x Let_def by simp
    then obtain more e2 c2 where x2: "x = Some (Inr (), more, e2, c2)"
      by (auto split: option.splits sum.splits)
    have t2: "tracked gid ((effs @ map Request rs) @ e2) c2 \<and> (more \<or> handled gid ((effs @ map Request rs) @ e2))"
      using x x2 t1 ws_connected_io_tracked [OF assms(1) t1, of heap players recvs sends more e2 c2]
      by (auto split: if_splits)
    show ?thesis
    proof (cases "more \<and> everything_end c2")
      case True
      then have "ws_close ((effs @ map Request rs) @ e2) c2 = Some (Inr (), effs', Some c')"
        using run unfolding x2 by (simp add: Let_def)
      then show ?thesis using ws_close_tracked t2 by blast
    next
      case False
      then have "c' = c2" "effs' = (effs @ map Request rs) @ e2 \<and> \<not> more \<or> effs' = ((effs @ map Request rs) @ e2) @ [Attach False]"
        using run unfolding x2 by (auto simp: Let_def split: if_splits)
      then show ?thesis using t2 tracked_append [of gid "(effs @ map Request rs) @ e2" c2 "[Attach False]"] by auto
    qed
  qed
qed

lemma websocket_task_run_tracked:
  assumes "callback_ok callback" "c_gid c = gid" "gid \<noteq> 0"
    "websocket_task_run heap u st se parser players callback recvs sends gid (Some c) = Some (Inr (), effs', Some c')"
  shows "tracked gid effs' c' \<and> handled gid effs'"
proof -
  obtain s where s: "socket_ptr c = Some s" using assms(3,4) by (auto simp: websocket_task_run_def split: option.splits)
  let ?rest = "\<lambda>s effs (c :: 'a websocket_connection). if \<not> connected c
       then (if http_processed c then ws_close effs c
             else (case ws_read_loop parser s recvs (c\<lparr>buffer_used_len := 0\<rparr>) of
                     None \<Rightarrow> None
                   | Some (c, recvs) \<Rightarrow> ws_after_read heap players callback recvs sends gid effs c))
       else ws_after_read heap players callback recvs sends gid effs c"
  have rest: "tracked gid effs' c' \<and> handled gid effs'"
    if t: "tracked gid effs c1" and r: "?rest s1 effs c1 = Some (Inr (), effs', Some c')" for s1 effs c1
  proof -
    consider "connected c1" | "\<not> connected c1" "http_processed c1" | "\<not> connected c1" "\<not> http_processed c1" by blast
    then show ?thesis
    proof cases
      case 1
      then show ?thesis using r ws_after_read_tracked [OF assms(1) t] by simp
    next
      case 2
      then show ?thesis using r ws_close_tracked [OF t] by simp
    next
      case 3
      then obtain c2 recvs2 where l: "ws_read_loop parser s1 recvs (c1\<lparr>buffer_used_len := 0\<rparr>) = Some (c2, recvs2)"
        "ws_after_read heap players callback recvs2 sends gid effs c2 = Some (Inr (), effs', Some c')"
        using r by (auto split: option.splits)
      have "tracked gid effs c2" by (rule tracked_ident [OF t]) (simp add: ws_read_loop_ident [OF l(1)])
      then show ?thesis using ws_after_read_tracked [OF assms(1) _ l(2)] by blast
    qed
  qed
  show ?thesis
  proof (cases "close_flag c")
    case True
    with assms s show ?thesis
      by (auto simp: websocket_task_run_def Let_def tracked_def handled_def closing_def)
  next
    case False
    show ?thesis
    proof (rule task_front [where c = c and f = websocket_on_mark_close and g = "\<lambda>s. c\<lparr>socket_ptr := Some s\<rparr>"
        and rest = ?rest and u = u and st = st and se = se and s = "bind_close_callback s"])
      show "(case ssl_step u st se (bind_close_callback s) of (r, effs, s) \<Rightarrow>
           let c = c\<lparr>socket_ptr := Some s\<rparr> in
           (case r of
              Ssl_attach b \<Rightarrow> Some (Inr (), effs @ [Attach b], Some c)
            | Ssl_failed \<Rightarrow> (case mark_close websocket_on_mark_close c of (rs, c) \<Rightarrow> Some (Inr (), effs @ map Request rs, Some c))
            | Ssl_ready \<Rightarrow> ?rest s effs c)) = Some (Inr (), effs', Some c')"
        using assms(3,4) s False
        unfolding websocket_task_run_def ws_close_def by (simp add: Let_def cong: ssl_result.case_cong)
    qed (use assms False rest in auto)
  qed
qed

definition keeps_ident :: "(('s, 'c) connection_scheme \<Rightarrow> 'r \<times> ('s, 'c) connection_scheme) \<Rightarrow> bool" where
  "keeps_ident f \<longleftrightarrow> (\<forall>c. ident (snd (f c)) = ident c)"

lemma keeps_identD: "keeps_ident f \<Longrightarrow> f c = (r, c') \<Longrightarrow> ident c' = ident c"
  unfolding keeps_ident_def by (metis snd_conv)

lemma ident_http_updates [simp]:
  "ident (c\<lparr>h_array := x\<rparr>) = ident c" "ident (c\<lparr>h_used_len := i\<rparr>) = ident c" "ident (c\<lparr>h_start_use := i\<rparr>) = ident c"
  "ident (c\<lparr>h_everything_end := u\<rparr>) = ident c" "ident (c\<lparr>response_end := u\<rparr>) = ident c"
  "ident (c\<lparr>recv_end := u\<rparr>) = ident c" "ident (c\<lparr>process_end := u\<rparr>) = ident c" "ident (c\<lparr>h_send_buffer := b\<rparr>) = ident c"
  "ident (c\<lparr>h_parser := q\<rparr>) = ident c" "ident (c\<lparr>h_url := t\<rparr>) = ident c" "ident (c\<lparr>h_method := t\<rparr>) = ident c"
  "ident (c\<lparr>head_field_tmp := t\<rparr>) = ident c" "ident (c\<lparr>body := x\<rparr>) = ident c" "ident (c\<lparr>h_headers := hs\<rparr>) = ident c"
  for c :: "'p http_connection"
  by (simp_all add: ident_def)

lemma http_settings_ident:
  assumes "keeps_ident on_body"
  shows "ident (snd (http_settings on_body e c)) = ident c"
proof (cases e)
  case (On_body bs)
  obtain r d where d: "on_body (add_to_body (Some bs) c) = (r, d)" by fastforce
  have "ident d = ident c" using keeps_identD [OF assms d] by (simp add: add_to_body_def)
  then show ?thesis using On_body d by (cases r) simp_all
qed (simp_all add: http_add_header_def)

lemma http_parser_ident:
  assumes "keeps_ident on_body" "http_parser_execute parser on_body bs c = (n, u, c')"
  shows "ident c' = ident c"
proof -
  obtain es out where p: "parser (h_parser c) bs = (es, out)" by fastforce
  obtain k d where d: "run_callbacks (http_settings on_body) es c = (k, d)" by fastforce
  have "ident d = ident c"
    using run_callbacks_ident [where settings = "http_settings on_body", OF http_settings_ident [OF assms(1)], of es c] d by simp
  then show ?thesis using assms(2) p d by (auto simp: http_parser_execute_def split: prod.splits)
qed

lemma http_read_loop_ident:
  assumes "keeps_ident on_body"
  shows "http_read_loop parser on_body s as c = Some c' \<Longrightarrow> ident c' = ident c"
proof (induction as arbitrary: c)
  case (Cons a as)
  obtain len data e where a: "socket_recv a 0 s = (len, data, e)" by (rule prod_cases3)
  define d where "d = c\<lparr>h_array := store_at 0 data (h_array c), h_used_len := len\<rparr>"
  have d: "ident d = ident c" by (simp add: d_def)
  obtain np up d1 where p: "http_parser_execute parser on_body (take (nat len) (h_array d)) d = (np, up, d1)" by (rule prod_cases3)
  have d1: "ident d1 = ident c" using http_parser_ident [OF assms p] d by simp
  have "http_read_loop parser on_body s (a # as) c =
      (if len = -1 \<and> e = EAGAIN then Some (d\<lparr>h_used_len := 0\<rparr>)
       else if len = -1 \<and> e = EINTR then http_read_loop parser on_body s as (d\<lparr>h_used_len := 0\<rparr>)
       else if 0 < len
       then (if up then http_read_loop parser on_body s as d1
             else if np \<noteq> len then Some (d1\<lparr>h_used_len := 0, h_everything_end := True\<rparr>)
             else http_read_loop parser on_body s as d1)
       else Some (d\<lparr>h_everything_end := True\<rparr>))"
    unfolding http_read_loop.simps a prod.case Let_def d_def [symmetric] p ..
  then show ?case
    using Cons.prems Cons.IH [of "d\<lparr>h_used_len := 0\<rparr>"] Cons.IH [of d1] d d1 by (auto split: if_splits)
qed simp

lemma http_process_ident:
  assumes "keeps_ident app" "keeps_ident process_cb"
  shows "ident (http_process app process_cb c) = ident c"
proof -
  obtain r d where d: "app (c\<lparr>process_end := True\<rparr>) = (r, d)" by fastforce
  obtain r2 d2 where d2: "process_cb d = (r2, d2)" by fastforce
  have "ident d = ident c" "ident d2 = ident d" using keeps_identD [OF assms(1) d] keeps_identD [OF assms(2) d2] by simp_all
  then show ?thesis by (cases r; cases r2) (simp_all add: http_process_def d d2)
qed

lemma http_send_loop_unfold:
  "http_send_loop s [] c = (if h_start_use c < h_used_len c then None else Some (c, []))"
  "http_send_loop s (a # as) c = (if h_start_use c < h_used_len c then
     (case socket_send a 0 s of (sended, oper_errno) \<Rightarrow>
        if sended < 0
        then (if oper_errno = EINTR then http_send_loop s as c
              else if oper_errno = EAGAIN then Some (c, [])
              else Some (c\<lparr>response_end := True, h_everything_end := True\<rparr>, []))
        else if sended = 0 then Some (c\<lparr>h_everything_end := True\<rparr>, [])
        else map_option (\<lambda>(c', trace). (c', take (nat sended) (seg (nat (h_start_use c)) (nat (h_used_len c)) (h_array c)) # trace))
               (http_send_loop s as (c\<lparr>h_start_use := h_start_use c + sended\<rparr>)))
     else Some (c, []))"
  by (subst http_send_loop.simps, simp add: Let_def)+

lemma http_send_loop_ident: "http_send_loop s as c = Some (c', trace) \<Longrightarrow> ident c' = ident c"
proof (induction as arbitrary: c trace)
  case (Cons a as)
  obtain len e where a: "socket_send a 0 s = (len, e)" by fastforce
  show ?case
    using Cons.prems Cons.IH [of c] Cons.IH [of "c\<lparr>h_start_use := h_start_use c + len\<rparr>"]
    unfolding http_send_loop_unfold a prod.case by (auto split: if_splits)
qed (auto simp: http_send_loop_unfold split: if_splits)

lemma http_write_ident:
  assumes "keeps_ident write_end_cb" "http_write heap write_end_cb s sends c = Some (r, c', trace)"
  shows "ident c' = ident c"
proof -
  have e: "keeps_ident (http_write_end heap write_end_cb)"
    unfolding keeps_ident_def
  proof
    fix c :: "'a http_connection"
    obtain r b where b: "can_readable_size heap (h_send_buffer c) = (r, b)" by fastforce
    obtain r2 d where d: "write_end_cb (c\<lparr>h_send_buffer := b\<rparr>) = (r2, d)" by fastforce
    have "ident d = ident c" using keeps_identD [OF assms(1) d] by simp
    then show "ident (snd (http_write_end heap write_end_cb c)) = ident c"
      by (cases r; cases r2) (simp_all add: http_write_end_def b d Let_def)
  qed
  have f: "keeps_ident (http_refill heap :: 'a http_connection \<Rightarrow> _)"
    unfolding keeps_ident_def
  proof
    fix c :: "'a http_connection"
    obtain r b where b: "can_readable_size heap (h_send_buffer c) = (r, b)" by fastforce
    show "ident (snd (http_refill heap c)) = ident c"
      by (cases r) (simp_all add: http_refill_def b Let_def split: prod.split sum.split)
  qed
  have g: "keeps_ident (http_finish heap :: 'a http_connection \<Rightarrow> _)"
    unfolding keeps_ident_def by (simp add: http_finish_def Let_def split: prod.split sum.split)
  show ?thesis
  proof (cases "\<not> h_everything_end c \<and> process_end c")
    case False
    then show ?thesis using assms(2) by (auto simp: http_write_def split: if_splits)
  next
    case True
    then obtain c1 tr where l: "http_send_loop s sends c = Some (c1, tr)"
      using assms(2) by (auto simp: http_write_def split: option.splits)
    obtain r2 c2 where c2: "http_write_end heap write_end_cb c1 = (r2, c2)" by fastforce
    obtain r3 c3 where c3: "http_refill heap c2 = (r3, c3)" by fastforce
    obtain r4 c4 where c4: "http_finish heap c3 = (r4, c4)" by fastforce
    have "ident c1 = ident c" "ident c2 = ident c1" "ident c3 = ident c2" "ident c4 = ident c3"
      using http_send_loop_ident [OF l] keeps_identD [OF e c2] keeps_identD [OF f c3] keeps_identD [OF g c4] .
    moreover have "c' = c2 \<or> c' = c3 \<or> c' = c4"
      using assms(2) True l c2 c3 c4 by (cases r2; cases r3) (auto simp: http_write_def)
    ultimately show ?thesis by auto
  qed
qed

lemma http_task_run_tracked:
  assumes hooks: "keeps_ident on_body" "keeps_ident app" "keeps_ident process_cb" "keeps_ident write_end_cb"
    and "c_gid c = gid" "gid \<noteq> 0"
    and "http_task_run heap u st se parser on_body app process_cb write_end_cb recvs sends gid (Some c) =
      Some (Inr (), effs', Some c')"
  shows "tracked gid effs' c' \<and> handled gid effs'"
proof -
  obtain s where s: "socket_ptr c = Some s" using assms(6,7) by (auto simp: http_task_run_def split: option.splits)
  let ?rest = "\<lambda>s effs c. http_task_io heap parser on_body app process_cb write_end_cb recvs sends s effs c"
  have rest: "tracked gid effs' c' \<and> handled gid effs'"
    if t: "tracked gid effs c1" and r: "?rest s1 effs c1 = Some (Inr (), effs', Some c')" for s1 effs c1
  proof -
    obtain c2 where c2: "(if \<not> recv_end c1 \<and> \<not> h_everything_end c1
            then http_read_loop parser on_body s1 recvs (c1\<lparr>h_used_len := 0\<rparr>) else Some c1) = Some c2"
      using r unfolding http_task_io_def by (auto split: option.splits)
    have i2: "ident c2 = ident c1"
      using c2 http_read_loop_ident [OF hooks(1)] by (fastforce split: if_splits)
    obtain c3 tr where c3: "http_write heap write_end_cb s1 sends (http_process app process_cb c2) = Some (Inr (), c3, tr)"
      using r unfolding http_task_io_def c2 option.case by (auto split: option.splits sum.splits)
    have "ident c3 = ident c1"
      using http_write_ident [OF hooks(4) c3] http_process_ident [OF hooks(2,3), of c2] i2 by simp
    then have t3: "tracked gid effs c3" "tracked gid effs (c3\<lparr>h_everything_end := True\<rparr>)"
      by (auto intro!: tracked_ident [OF t])
    obtain rs c4 where m: "mark_close http_on_mark_close (c3\<lparr>h_everything_end := True\<rparr>) = (rs, c4)" by fastforce
    note mk = tracked_mark_close [OF on_mark_close_ok(3) t3(2) m]
    show ?thesis
      using r mk tracked_append [OF t3(1), of "[Attach False]"] tracked_append [OF t3(1), of "[Attach True]"]
      unfolding http_task_io_def c2 option.case c3 prod.case sum.case m
      by (auto split: if_splits simp: handled_def)
  qed
  show ?thesis
  proof (cases "close_flag c")
    case True
    with assms s show ?thesis
      by (auto simp: http_task_run_def Let_def tracked_def handled_def closing_def)
  next
    case False
    show ?thesis
    proof (rule task_front [where c = c and f = http_on_mark_close and g = "\<lambda>s. c\<lparr>socket_ptr := Some s\<rparr>"
        and rest = ?rest and u = u and st = st and se = se and s = "bind_close_callback s"])
      show "(case ssl_step u st se (bind_close_callback s) of (r, effs, s) \<Rightarrow>
           let c = c\<lparr>socket_ptr := Some s\<rparr> in
           (case r of
              Ssl_attach b \<Rightarrow> Some (Inr (), effs @ [Attach b], Some c)
            | Ssl_failed \<Rightarrow> (case mark_close http_on_mark_close c of (rs, c) \<Rightarrow> Some (Inr (), effs @ map Request rs, Some c))
            | Ssl_ready \<Rightarrow> ?rest s effs c)) = Some (Inr (), effs', Some c')"
        using assms(6,7) s False
        unfolding http_task_run_def by (simp add: Let_def cong: ssl_result.case_cong)
    qed (use assms False rest in auto)
  qed
qed

subsection \<open>The HTTP write loop\<close>

lemma seg_join:
  "i \<le> j \<Longrightarrow> j \<le> k \<Longrightarrow> seg i j xs @ seg j k xs = seg i k xs"
  using take_add [of "j - i" "k - j" "drop i xs"] by (simp add: seg_def)

lemma http_send_loop_sends:
  assumes "0 \<le> h_start_use c" "h_start_use c \<le> h_used_len c"
    and "http_send_loop s as c = Some (c', trace)"
  shows "concat trace = seg (nat (h_start_use c)) (min (nat (h_start_use c')) (nat (h_used_len c))) (h_array c) \<and>
     h_array c' = h_array c \<and> h_used_len c' = h_used_len c \<and> h_start_use c \<le> h_start_use c' \<and>
     (h_start_use c' < h_used_len c \<longrightarrow> h_everything_end c' \<or> (\<exists>a \<in> set as. snd (socket_send a 0 s) = EAGAIN))"
  using assms
proof (induction as arbitrary: c trace)
  case Nil
  then show ?case by (auto simp: http_send_loop_unfold split: if_splits)
next
  case (Cons a as)
  show ?case
  proof (cases "h_start_use c < h_used_len c")
    case False
    then show ?thesis using Cons.prems by (auto simp: http_send_loop_unfold)
  next
    case pending: True
    obtain len e where a: "socket_send a 0 s = (len, e)" by fastforce
    show ?thesis
    proof (cases "0 < len")
      case False
      then show ?thesis
        using Cons.prems pending Cons.IH [of c trace] unfolding http_send_loop_unfold a prod.case
        by (auto simp: a split: if_splits)
    next
      case True
      let ?d = "c\<lparr>h_start_use := h_start_use c + len\<rparr>"
      let ?i = "nat (h_start_use c)" and ?u = "nat (h_used_len c)"
      obtain t where t: "http_send_loop s as ?d = Some (c', t)" "trace = take (nat len) (seg ?i ?u (h_array c)) # t"
        using Cons.prems True pending unfolding http_send_loop_unfold a prod.case by auto
      show ?thesis
      proof (cases "h_start_use ?d \<le> h_used_len ?d")
        case fits: True
        have first: "take (nat len) (seg ?i ?u (h_array c)) = seg ?i (nat (h_start_use ?d)) (h_array c)"
          using fits True Cons.prems by (simp add: take_seg nat_add_distrib nat_le_iff)
        note ih = Cons.IH [of ?d t, OF _ fits t(1)]
        have "?i \<le> nat (h_start_use ?d)" "nat (h_start_use ?d) \<le> min (nat (h_start_use c')) ?u"
          using fits True Cons.prems ih by auto
        from seg_join [OF this, of "h_array c"] ih Cons.prems True show ?thesis
          by (auto simp: t(2) first)
      next
        case False
        then have "c' = ?d" "t = []" using t(1) by (cases as; simp add: http_send_loop_unfold)+
        moreover have "take (nat len) (seg ?i ?u (h_array c)) = seg ?i ?u (h_array c)"
          using False Cons.prems by (simp add: seg_def)
        ultimately show ?thesis using False True Cons.prems by (simp add: t(2))
      qed
    qed
  qed
qed

subsection \<open>Properties\<close>

text \<open>C7: a task that returns leaves its connection where something will happen to it: the socket is back
  with the poller, or another task of the connection is queued, or the connection is removed; and a
  connection that was marked closed is removed or has a task queued that will remove it. This holds
  for all three kinds of tasks, on every path (TLS unfinished or failed, peer gone, buffer full,
  exception of the application, write error), whatever the socket, TLS and the HTTP parser answer.\<close>

theorem tasks_forget_no_connection:
  fixes ws :: "'p websocket_connection" and ht :: "'q http_connection"
  assumes "gid \<noteq> 0"
  shows "(callback_ok cb \<and> app_ok gid app \<and> c_gid c = gid \<and>
          stream_task_run heap u st se app cb recvs sends gid (Some c) = Some (Inr (), effs, Some c') \<longrightarrow>
          handled gid effs \<and> (close_flag c' \<longrightarrow> closing gid effs)) \<and>
         (callback_ok wcb \<and> c_gid ws = gid \<and>
          websocket_task_run heap u st se parser players wcb recvs sends gid (Some ws) = Some (Inr (), weffs, Some ws') \<longrightarrow>
          handled gid weffs \<and> (close_flag ws' \<longrightarrow> closing gid weffs)) \<and>
         (keeps_ident on_body \<and> keeps_ident http_app \<and> keeps_ident process_cb \<and> keeps_ident write_end_cb \<and> c_gid ht = gid \<and>
          http_task_run heap u st se hparser on_body http_app process_cb write_end_cb recvs sends gid (Some ht) =
            Some (Inr (), heffs, Some ht') \<longrightarrow>
          handled gid heffs \<and> (close_flag ht' \<longrightarrow> closing gid heffs))"
proof (intro conjI impI; elim conjE)
  assume "callback_ok cb" "app_ok gid app" "c_gid c = gid"
    "stream_task_run heap u st se app cb recvs sends gid (Some c) = Some (Inr (), effs, Some c')"
  from stream_task_run_tracked [OF this(1-3) assms this(4)]
  show "handled gid effs" "close_flag c' \<Longrightarrow> closing gid effs" by (simp_all add: tracked_def)
next
  assume "callback_ok wcb" "c_gid ws = gid"
    "websocket_task_run heap u st se parser players wcb recvs sends gid (Some ws) = Some (Inr (), weffs, Some ws')"
  from websocket_task_run_tracked [OF this(1,2) assms this(3)]
  show "handled gid weffs" "close_flag ws' \<Longrightarrow> closing gid weffs" by (simp_all add: tracked_def)
next
  assume "keeps_ident on_body" "keeps_ident http_app" "keeps_ident process_cb" "keeps_ident write_end_cb" "c_gid ht = gid"
    "http_task_run heap u st se hparser on_body http_app process_cb write_end_cb recvs sends gid (Some ht) =
      Some (Inr (), heffs, Some ht')"
  from http_task_run_tracked [OF this(1-5) assms this(6)]
  show "handled gid heffs" "close_flag ht' \<Longrightarrow> closing gid heffs" by (simp_all add: tracked_def)
qed

definition demo_task_connection :: stream_connection where
  "demo_task_connection = demo_connection\<lparr>c_gid := 5\<rparr>"

theorem tasks_forget_no_connection_witness:
  "\<exists>c'. stream_task_run zero_heap True (-1) 1 (\<lambda>c. (Inr (), [], c)) (\<lambda>c. (None, c)) [] [] 5 (Some demo_task_connection) =
          Some (Inr (), [Request (Do_task 5 False True)], Some c') \<and>
        handled 5 [Request (Do_task 5 False True)] \<and> (close_flag c' \<longrightarrow> closing 5 [Request (Do_task 5 False True)])"
proof -
  have c: "socket_ptr demo_task_connection = Some (socket_new [] 0)" "c_gid demo_task_connection = 5"
    "\<not> close_flag demo_task_connection"
    by (simp_all add: demo_task_connection_def demo_connection_def buffered_reuse_def connection_reuse_def)
  then obtain c' where r: "stream_task_run zero_heap True (-1) 1 (\<lambda>c. (Inr (), [], c)) (\<lambda>c. (None, c)) [] [] 5
      (Some demo_task_connection) = Some (Inr (), [Request (Do_task 5 False True)], Some c')"
    by (simp add: stream_task_run_def ssl_step_def bind_close_callback_def socket_new_def mark_close_def
        buffered_on_mark_close_def)
  have "callback_ok (\<lambda>c :: stream_connection. (None, c))" "app_ok 5 (\<lambda>c :: stream_connection. (Inr (), [], c))"
    by (simp_all add: callback_ok_def app_ok_def)
  with tasks_forget_no_connection [THEN conjunct1, of 5 "\<lambda>c. (None, c)" "\<lambda>c. (Inr (), [], c)" demo_task_connection
      zero_heap True "-1" 1 "[]" "[]" "[Request (Do_task 5 False True)]" c'] c r
  show ?thesis by auto
qed

text \<open>The write loop of the HTTP task resumes correctly: when the kernel takes parts of a response over
  several tasks, the parts together are exactly the bytes of the array from the first offset to the
  last, in order, none twice; the loop stops early only when the kernel has no room or the peer is
  gone.\<close>

lemma http_send_resumes:
  assumes "0 \<le> h_start_use c" "h_start_use c \<le> h_used_len c"
    and "http_send_loop s as c = Some (c1, t1)" "h_start_use c1 \<le> h_used_len c1"
    and "http_send_loop s' as' c1 = Some (c2, t2)"
  shows "concat (t1 @ t2) = seg (nat (h_start_use c)) (min (nat (h_start_use c2)) (nat (h_used_len c))) (h_array c) \<and>
         (h_start_use c2 < h_used_len c \<longrightarrow>
            h_everything_end c2 \<or> (\<exists>a \<in> set as'. snd (socket_send a 0 s') = EAGAIN))"
proof -
  note r1 = http_send_loop_sends [OF assms(1-3)]
  have "0 \<le> h_start_use c1" using r1 assms(1) by simp
  note r2 = http_send_loop_sends [OF this assms(4,5)]
  have "nat (h_start_use c) \<le> min (nat (h_start_use c1)) (nat (h_used_len c))"
    "min (nat (h_start_use c1)) (nat (h_used_len c)) \<le> min (nat (h_start_use c2)) (nat (h_used_len c))"
    using r1 r2 assms by auto
  moreover have "min (nat (h_start_use c1)) (nat (h_used_len c)) = nat (h_start_use c1)"
    using r1 assms(4) by simp
  ultimately show ?thesis using seg_join [of "nat (h_start_use c)" "nat (h_start_use c1)" _ "h_array c"] r1 r2 by simp
qed

end
