(* ===== verification/Tk_Omap.thy ===== *)
theory Tk_Omap
  imports Main "HOL-Library.List_Lexorder" "HOL-Library.Char_ord"
begin

section \<open>Ordered maps (std::map)\<close>

text \<open>
  The \<open>std::map\<close> of the configuration, JSON and XML components: an association list in ascending order of
  its keys, which is the order in which the map iterates (strings compare byte by byte, as unsigned
  characters); \<open>map_put\<close> is assignment through \<open>operator[]\<close>. The contract is the locale
  \<open>ordered_map\<close>, interpreted on these lists.
\<close>

type_synonym ('k, 'v) omap = "('k \<times> 'v) list"

definition map_find :: "'k \<Rightarrow> ('k, 'v) omap \<Rightarrow> 'v option" where
  "map_find k m = map_of m k"

fun map_put :: "'k :: linorder \<Rightarrow> 'v \<Rightarrow> ('k, 'v) omap \<Rightarrow> ('k, 'v) omap" where
  "map_put k v [] = [(k, v)]"
| "map_put k v ((k', v') # m) =
     (if k < k' then (k, v) # (k', v') # m else if k = k' then (k, v) # m else (k', v') # map_put k v m)"

definition map_erase :: "'k \<Rightarrow> ('k, 'v) omap \<Rightarrow> ('k, 'v) omap" where
  "map_erase k m = filter (\<lambda>(k', _). k' \<noteq> k) m"

text \<open>\<open>m[k]\<close> inserts the default value when the key is missing.\<close>

definition map_at :: "'v \<Rightarrow> 'k :: linorder \<Rightarrow> ('k, 'v) omap \<Rightarrow> 'v \<times> ('k, 'v) omap" where
  "map_at d k m = (case map_find k m of Some v \<Rightarrow> (v, m) | None \<Rightarrow> (d, map_put k d m))"

definition omap_ok :: "('k :: linorder, 'v) omap \<Rightarrow> bool" where
  "omap_ok m \<longleftrightarrow> sorted_wrt (<) (map fst m)"

subsection \<open>Facts on the maps\<close>

lemma map_find_put [simp]: "map_find k (map_put k' v m) = (if k = k' then Some v else map_find k m)"
  by (induction k' v m rule: map_put.induct) (auto simp: map_find_def)

lemma map_put_keys: "set (map fst (map_put k v m)) = insert k (set (map fst m))"
  by (induction k v m rule: map_put.induct) auto

lemma omap_ok_put [simp]: "omap_ok m \<Longrightarrow> omap_ok (map_put k v m)"
proof (induction k v m rule: map_put.induct)
  case (2 k v k' v' m)
  have "set (map fst (map_put k v m)) = insert k (set (map fst m))" by (rule map_put_keys)
  with 2 show ?case by (auto simp: omap_ok_def)
qed (simp add: omap_ok_def)

lemma omap_ok_erase [simp]: "omap_ok m \<Longrightarrow> omap_ok (map_erase k m)"
  unfolding omap_ok_def map_erase_def by (induction m) auto

lemma map_put_last:
  "\<forall>k' \<in> set (map fst m). k' < k \<Longrightarrow> map_put k v m = m @ [(k, v)]"
  by (induction m) auto

lemma map_put_replace_last:
  "\<forall>k' \<in> set (map fst m). k' < k \<Longrightarrow> map_put k v (m @ [(k, w)]) = m @ [(k, v)]"
  by (induction m) auto

lemma map_find_nil [simp]: "map_find k [] = None"
  by (simp add: map_find_def)

lemma map_at_frame:
  "map_find k' (snd (map_at d k m)) = (if k' = k \<and> map_find k m = None then Some d else map_find k' m)"
  by (auto simp: map_at_def split: option.split)

lemma map_find_erase [simp]: "map_find k' (map_erase k m) = (if k' = k then None else map_find k' m)"
  unfolding map_find_def map_erase_def by (induction m) auto

subsection \<open>The contract\<close>

text \<open>
  What the clients use of a map: lookups after an assignment and after an erasure, and that a map is
  determined by its lookups. The usual equations between maps follow from the contract alone.
\<close>

locale ordered_map =
  fixes invar :: "'m \<Rightarrow> bool" and lookup :: "'k \<Rightarrow> 'm \<Rightarrow> 'v option"
    and put :: "'k \<Rightarrow> 'v \<Rightarrow> 'm \<Rightarrow> 'm" and erase :: "'k \<Rightarrow> 'm \<Rightarrow> 'm"
  assumes invar_put: "invar m \<Longrightarrow> invar (put k v m)"
    and invar_erase: "invar m \<Longrightarrow> invar (erase k m)"
    and lookup_put: "lookup k' (put k v m) = (if k' = k then Some v else lookup k' m)"
    and lookup_erase: "lookup k' (erase k m) = (if k' = k then None else lookup k' m)"
    and lookup_ext: "invar m \<Longrightarrow> invar m' \<Longrightarrow> (\<And>k. lookup k m = lookup k m') \<Longrightarrow> m = m'"
begin

lemma put_same: "invar m \<Longrightarrow> lookup k m = Some v \<Longrightarrow> put k v m = m"
  by (rule lookup_ext) (simp_all add: invar_put lookup_put)

lemma put_put: "invar m \<Longrightarrow> put k v (put k w m) = put k v m"
  by (rule lookup_ext) (simp_all add: invar_put lookup_put)

lemma put_commute: "invar m \<Longrightarrow> k \<noteq> k' \<Longrightarrow> put k v (put k' v' m) = put k' v' (put k v m)"
  by (rule lookup_ext) (simp_all add: invar_put lookup_put)

lemma erase_put: "invar m \<Longrightarrow> lookup k m = None \<Longrightarrow> erase k (put k v m) = m"
  by (rule lookup_ext) (simp_all add: invar_put invar_erase lookup_put lookup_erase)

lemma erase_same: "invar m \<Longrightarrow> lookup k m = None \<Longrightarrow> erase k m = m"
  by (rule lookup_ext) (simp_all add: invar_erase lookup_erase)

end

lemma omap_find_less: "omap_ok ((k', v) # m) \<Longrightarrow> k \<le> k' \<Longrightarrow> map_find k m = None"
  unfolding omap_ok_def map_find_def by (auto simp: map_of_eq_None_iff)

lemma omap_ext:
  assumes "omap_ok m" "omap_ok m'" "\<And>k. map_find k m = map_find k m'"
  shows "m = m'"
  using assms
proof (induction m arbitrary: m')
  case Nil
  then show ?case by (cases m') (auto simp: map_find_def split: if_splits, metis option.distinct(1))
next
  case (Cons kv m)
  obtain k v where kv: "kv = (k, v)" by (cases kv)
  have "map_find k m' = Some v" using Cons.prems(3) [of k] by (simp add: kv map_find_def)
  then obtain k' v' r where m': "m' = (k', v') # r" by (cases m') (auto simp: map_find_def)
  have "k' = k"
  proof (rule ccontr)
    assume ne: "k' \<noteq> k"
    have "map_find k r = Some v" using \<open>map_find k m' = Some v\<close> ne by (simp add: m' map_find_def split: if_splits)
    then have "k' < k" using omap_find_less [of k' v' r k] Cons.prems(2) m' by (metis leI option.distinct(1))
    then have "map_find k' (kv # m) = None"
      using omap_find_less [of k v m k'] Cons.prems(1) kv by (simp add: map_find_def)
    then show False using Cons.prems(3) [of k'] by (simp add: m' map_find_def)
  qed
  then have "v' = v" using \<open>map_find k m' = Some v\<close> by (simp add: m' map_find_def)
  moreover have "m = r"
  proof (rule Cons.IH)
    show "omap_ok m" "omap_ok r" using Cons.prems m' by (simp_all add: omap_ok_def kv)
    fix x
    show "map_find x m = map_find x r"
      using Cons.prems(3) [of x] omap_find_less [of k v m k] omap_find_less [of k v' r k] Cons.prems(1,2) m' kv \<open>k' = k\<close>
      by (cases "x = k") (simp_all add: map_find_def)
  qed
  ultimately show ?case by (simp add: kv m' \<open>k' = k\<close>)
qed

interpretation omap: ordered_map omap_ok map_find map_put map_erase
  by unfold_locales (auto intro: omap_ext)

end
