(* ===== verification/Tk_Inifile.thy ===== *)
theory Tk_Inifile
  imports Tk_Text Tk_Omap
begin

section \<open>Configuration files (external/tubekit-inifile)\<close>

text \<open>
  Sections of keys and values, kept in two levels of \<open>std::map\<close>. A file is its content; that the file cannot be opened is \<open>None\<close>. Conversions to
  and from \<open>double\<close> use the floating point of the standard library and are left out.

  The theory shows that loading a saved file gives the data back, that the map invariant is kept, and
  that lookups see what was set.
\<close>

subsection \<open>Values\<close>

definition value_of_bool :: "bool \<Rightarrow> string" where
  "value_of_bool b = (if b then ''true'' else ''false'')"

definition value_of_int :: "int \<Rightarrow> string" where
  "value_of_int i = to_string i"

definition value_to_bool :: "string \<Rightarrow> bool" where
  "value_to_bool v \<longleftrightarrow> v = ''true''"

definition value_to_int :: "string \<Rightarrow> int" where
  "value_to_int v = atoi v"

subsection \<open>The file\<close>

type_synonym inifile = "(string, (string, string) omap) omap"

definition blank :: "char \<Rightarrow> bool" where
  "blank c \<longleftrightarrow> c = CHR '' '' \<or> c = CHR 0x0D \<or> c = CHR 0x0A"

definition trim :: "string \<Rightarrow> string" where
  "trim s = (if s = [] then s else rev (dropWhile blank (rev (dropWhile blank s))))"

text \<open>The lines that \<open>std::getline\<close> delivers; a last line without newline is one, an empty rest is not.\<close>

function getlines :: "string \<Rightarrow> string list" where
  "getlines s =
     (if s = [] then []
      else (let line = takeWhile (\<lambda>c. c \<noteq> CHR 0x0A) s in line # getlines (drop (Suc (length line)) s)))"
  by pat_completeness auto

termination
  by (relation "measure length") auto

declare getlines.simps [simp del]

definition find_first_of :: "char \<Rightarrow> string \<Rightarrow> nat option" where
  "find_first_of c s = (if c \<in> set s then Some (length (takeWhile (\<lambda>x. x \<noteq> c) s)) else None)"

definition ini_touch :: "string \<Rightarrow> inifile \<Rightarrow> inifile" where
  "ini_touch section m = snd (map_at [] section m)"

definition ini_put :: "string \<Rightarrow> string \<Rightarrow> string \<Rightarrow> inifile \<Rightarrow> inifile" where
  "ini_put section key val m = map_put section (map_put key val (fst (map_at [] section m))) m"

text \<open>The loop over the lines; \<open>name\<close> is the current section, \<open>False\<close> a parse error.\<close>

fun load_lines :: "string \<Rightarrow> string list \<Rightarrow> inifile \<Rightarrow> bool \<times> inifile" where
  "load_lines name [] m = (True, m)"
| "load_lines name (line # lines) m =
     (let line = trim line in
      if line \<noteq> [] \<and> hd line = CHR ''[''
      then (case find_first_of (CHR '']'') line of
              None \<Rightarrow> load_lines name lines m
            | Some pos \<Rightarrow>
                (let name = trim (take (pos - 1) (drop 1 line)) in load_lines name lines (ini_touch name m)))
      else if line \<noteq> [] \<and> hd line = CHR ''#'' then load_lines name lines m
      else (case find_first_of (CHR ''='') line of
              None \<Rightarrow> load_lines name lines m
            | Some pos \<Rightarrow>
                if 0 < pos
                then (let key = trim (take pos line); val = trim (drop (pos + 1) line) in
                      if map_find name m = None then (False, m)
                      else load_lines name lines (ini_put name key val m))
                else load_lines name lines m))"

definition inifile_load :: "string option \<Rightarrow> inifile \<Rightarrow> bool \<times> inifile" where
  "inifile_load file m = (case file of None \<Rightarrow> (False, []) | Some content \<Rightarrow> load_lines [] (getlines content) [])"

definition key_line :: "string \<times> string \<Rightarrow> string" where
  "key_line kv = fst kv @ '' = '' @ snd kv @ [CHR 0x0A]"

definition inifile_save :: "inifile \<Rightarrow> string" where
  "inifile_save m =
     concat (map (\<lambda>(section, kvs). [CHR ''[''] @ section @ '']'' @ [CHR 0x0A] @ concat (map key_line kvs) @ [CHR 0x0A]) m)"

definition inifile_clear :: "inifile \<Rightarrow> inifile" where
  "inifile_clear m = []"

definition inifile_has_section :: "string \<Rightarrow> inifile \<Rightarrow> bool" where
  "inifile_has_section section m \<longleftrightarrow> map_find section m \<noteq> None"

definition inifile_has :: "string \<Rightarrow> string \<Rightarrow> inifile \<Rightarrow> bool" where
  "inifile_has section key m \<longleftrightarrow>
     (case map_find section m of None \<Rightarrow> False | Some kvs \<Rightarrow> map_find key kvs \<noteq> None)"

definition inifile_get :: "string \<Rightarrow> string \<Rightarrow> inifile \<Rightarrow> string \<times> inifile" where
  "inifile_get section key m =
     (case map_at [] section m of (kvs, m) \<Rightarrow>
      (case map_at [] key kvs of (v, kvs) \<Rightarrow> (v, map_put section kvs m)))"

definition inifile_set :: "string \<Rightarrow> string \<Rightarrow> string \<Rightarrow> inifile \<Rightarrow> inifile" where
  "inifile_set section key val m = ini_put section key val m"

definition inifile_remove_section :: "string \<Rightarrow> inifile \<Rightarrow> inifile" where
  "inifile_remove_section section m = (if map_find section m = None then m else map_erase section m)"

definition inifile_remove :: "string \<Rightarrow> string \<Rightarrow> inifile \<Rightarrow> inifile" where
  "inifile_remove section key m =
     (case map_find section m of
        None \<Rightarrow> m
      | Some kvs \<Rightarrow> if map_find key kvs = None then m else map_put section (map_erase key kvs) m)"

subsection \<open>Lines of a saved file\<close>

definition word_ok :: "string \<Rightarrow> bool" where
  "word_ok s \<longleftrightarrow> CHR 0x0A \<notin> set s \<and> trim s = s"

definition section_ok :: "string \<Rightarrow> bool" where
  "section_ok s \<longleftrightarrow> word_ok s \<and> CHR '']'' \<notin> set s"

definition key_ok :: "string \<Rightarrow> bool" where
  "key_ok k \<longleftrightarrow> word_ok k \<and> k \<noteq> [] \<and> CHR ''='' \<notin> set k \<and> hd k \<noteq> CHR ''['' \<and> hd k \<noteq> CHR ''#''"

definition inifile_ok :: "inifile \<Rightarrow> bool" where
  "inifile_ok m \<longleftrightarrow> omap_ok m \<and> (\<forall>(section, kvs) \<in> set m. section_ok section \<and> omap_ok kvs \<and>
     (\<forall>(k, v) \<in> set kvs. key_ok k \<and> word_ok v))"

lemma getlines_line:
  assumes "CHR 0x0A \<notin> set line"
  shows "getlines (line @ CHR 0x0A # rest) = line # getlines rest"
proof -
  have t: "takeWhile (\<lambda>c. c \<noteq> CHR 0x0A) (line @ CHR 0x0A # rest) = line"
    using assms by (induction line) auto
  show ?thesis by (subst getlines.simps) (simp add: t Let_def)
qed

lemma trim_shorter: "length (trim s) \<le> length s"
  unfolding trim_def using length_dropWhile_le [of blank "rev (dropWhile blank s)"] length_dropWhile_le [of blank s]
  by simp

lemma dropWhile_hd: "xs = [] \<or> \<not> P (hd xs) \<Longrightarrow> dropWhile P xs = xs"
  by (cases xs) auto

lemma trim_id: "s = [] \<or> \<not> blank (hd s) \<and> \<not> blank (last s) \<Longrightarrow> trim s = s"
  unfolding trim_def by (auto simp: dropWhile_hd hd_rev)

lemma takeWhile_stop: "c \<notin> set xs \<Longrightarrow> takeWhile (\<lambda>x. x \<noteq> c) (xs @ c # ys) = xs"
  by (induction xs) auto

lemma trim_fix:
  assumes "trim s = s" "s \<noteq> []"
  shows "\<not> blank (hd s)" "\<not> blank (last s)"
proof -
  obtain c cs where s: "s = c # cs" using assms(2) by (cases s) auto
  show "\<not> blank (hd s)"
  proof
    assume "blank (hd s)"
    then have "length (trim s) \<le> length cs"
      using s length_dropWhile_le [of blank "rev (dropWhile blank cs)"] length_dropWhile_le [of blank cs]
      by (simp add: trim_def)
    then show False using assms(1) s by simp
  qed
  then have "trim s = rev (dropWhile blank (rev s))" using s by (simp add: trim_def)
  then have eq: "dropWhile blank (rev s) = rev s" using assms(1) by (metis rev_rev_ident)
  obtain xs x where "s = xs @ [x]" using assms(2) by (cases s rule: rev_cases) auto
  with eq show "\<not> blank (last s)" using length_dropWhile_le [of blank "rev xs"] by (auto split: if_splits)
qed

lemma trim_space: "trim s = s \<Longrightarrow> trim (s @ '' '') = s" "trim s = s \<Longrightarrow> trim (CHR '' '' # s) = s"
proof -
  assume t: "trim s = s"
  have b: "blank (CHR '' '')" by (simp add: blank_def)
  show "trim (CHR '' '' # s) = s" using t b by (cases s) (auto simp: trim_def)
  show "trim (s @ '' '') = s"
  proof (cases s)
    case (Cons c cs)
    then have "\<not> blank c" using trim_fix [OF t] by simp
    then have "trim (s @ '' '') = rev (dropWhile blank (rev s))" using Cons b by (simp add: trim_def)
    also have "\<dots> = trim s" using Cons \<open>\<not> blank c\<close> by (simp add: trim_def)
    finally show ?thesis using t by simp
  qed (simp add: trim_def b)
qed

lemma load_section_line:
  assumes "section_ok section"
  shows "load_lines name ((CHR ''['' # section @ '']'') # lines) m = load_lines section lines (ini_touch section m)"
proof -
  have t: "trim (CHR ''['' # section @ '']'') = CHR ''['' # section @ '']''"
    by (rule trim_id) (simp add: blank_def)
  have "takeWhile (\<lambda>x. x \<noteq> CHR '']'') (section @ '']'') = section"
    using assms by (intro takeWhile_stop) (simp add: section_ok_def)
  then have f: "find_first_of (CHR '']'') (CHR ''['' # section @ '']'') = Some (Suc (length section))"
    by (simp add: find_first_of_def)
  show ?thesis using assms by (simp add: t f section_ok_def word_ok_def)
qed

lemma load_blank_line: "load_lines name ([] # lines) m = load_lines name lines m"
  by (simp add: trim_def find_first_of_def)

lemma load_key_line:
  assumes "key_ok k" "word_ok v" "map_find name m \<noteq> None"
  shows "load_lines name ((k @ '' = '' @ v) # lines) m = load_lines name lines (ini_put name k v m)"
proof -
  have k: "trim k = k" "k \<noteq> []" "CHR ''='' \<notin> set k" "hd k \<noteq> CHR ''[''" "hd k \<noteq> CHR ''#''" and v: "trim v = v"
    using assms by (auto simp: key_ok_def word_ok_def)
  define line where "line = (if v = [] then k @ '' ='' else k @ '' = '' @ v)"
  have hd: "hd line = hd k" "line \<noteq> []" using k(2) by (simp_all add: line_def)
  have "trim (k @ '' = '' @ v) = line"
  proof (cases "v = []")
    case True
    have "trim ((k @ '' ='') @ '' '') = k @ '' =''"
      by (rule trim_space(1), rule trim_id) (use trim_fix [OF k(1,2)] k(2) in \<open>simp add: blank_def\<close>)
    then show ?thesis using True by (simp add: line_def)
  next
    case False
    then show ?thesis
      using trim_fix [OF k(1,2)] trim_fix [OF v False] k(2) by (simp add: line_def trim_id)
  qed
  moreover have "takeWhile (\<lambda>x. x \<noteq> CHR ''='') ((k @ '' '') @ CHR ''='' # ys) = k @ '' ''" for ys
    by (rule takeWhile_stop) (use k(3) in simp)
  then have "find_first_of (CHR ''='') line = Some (Suc (length k))"
    by (simp add: find_first_of_def line_def)
  moreover have "trim (take (Suc (length k)) line) = k"
    using trim_space(1) [OF k(1)] by (simp add: line_def)
  moreover have "trim (drop (Suc (length k) + 1) line) = v"
    using trim_space(2) [OF v] by (auto simp: line_def trim_def)
  ultimately show ?thesis using assms(3) hd k(4,5) by (auto simp: Let_def)
qed

subsection \<open>Loading what was saved\<close>

lemma ini_put_last:
  assumes "\<forall>k' \<in> set (map fst m). k' < name" "\<forall>k' \<in> set (map fst kvs). k' < k"
  shows "ini_put name k v (m @ [(name, kvs)]) = m @ [(name, kvs @ [(k, v)])]"
proof -
  have "map_find name (m @ [(name, kvs)]) = Some kvs"
    using assms(1) by (induction m) (auto simp: map_find_def)
  then show ?thesis
    using assms by (simp add: ini_put_def map_at_def map_put_last map_put_replace_last)
qed

lemma load_keys:
  assumes "\<forall>k' \<in> set (map fst m). k' < name" "omap_ok (kvs @ new)"
    "\<forall>(k, v) \<in> set new. key_ok k \<and> word_ok v"
  shows "load_lines name (getlines (concat (map key_line new) @ rest)) (m @ [(name, kvs)])
    = load_lines name (getlines rest) (m @ [(name, kvs @ new)])"
  using assms(2,3)
proof (induction new arbitrary: kvs)
  case (Cons kv new)
  obtain k v where kv: "kv = (k, v)" by (cases kv)
  have ok: "key_ok k" "word_ok v" and less: "\<forall>k' \<in> set (map fst kvs). k' < k"
    using Cons.prems by (auto simp: kv omap_ok_def sorted_wrt_append)
  then have nl: "CHR 0x0A \<notin> set (k @ '' = '' @ v)" by (auto simp: key_ok_def word_ok_def)
  have some: "map_find name (m @ [(name, kvs)]) \<noteq> None" by (auto simp: map_find_def)
  have "getlines (concat (map key_line (kv # new)) @ rest)
      = (k @ '' = '' @ v) # getlines (concat (map key_line new) @ rest)"
    using getlines_line [OF nl, of "concat (map key_line new) @ rest"] by (simp add: kv key_line_def)
  then show ?case
    using load_key_line [OF ok some] ini_put_last [OF assms(1) less] Cons.IH [of "kvs @ [kv]"] Cons.prems
    by (simp add: kv del: load_lines.simps)
qed simp

lemma load_sections:
  assumes "inifile_ok (m @ new)"
  shows "load_lines name (getlines (inifile_save new)) m = (True, m @ new)"
  using assms
proof (induction new arbitrary: m name)
  case Nil
  then show ?case by (simp add: inifile_save_def getlines.simps)
next
  case (Cons sec new)
  obtain s kvs where sec: "sec = (s, kvs)" by (cases sec)
  have ok: "section_ok s" "omap_ok ([] @ kvs)" "\<forall>(k, v) \<in> set kvs. key_ok k \<and> word_ok v"
    and less: "\<forall>k' \<in> set (map fst m). k' < s"
    using Cons.prems by (auto simp: sec inifile_ok_def omap_ok_def sorted_wrt_append)
  have nl: "CHR 0x0A \<notin> set (CHR ''['' # s @ '']'')" using ok(1) by (auto simp: section_ok_def word_ok_def)
  have new: "map_find s m = None" using less by (auto simp: map_find_def map_of_eq_None_iff)
  let ?rest = "CHR 0x0A # inifile_save new"
  have "getlines (inifile_save (sec # new)) = (CHR ''['' # s @ '']'') # getlines (concat (map key_line kvs) @ ?rest)"
    using getlines_line [OF nl, of "concat (map key_line kvs) @ ?rest"] by (simp add: sec inifile_save_def)
  then have "load_lines name (getlines (inifile_save (sec # new))) m
      = load_lines s (getlines (concat (map key_line kvs) @ ?rest)) (ini_touch s m)"
    using load_section_line [OF ok(1)] by (simp del: load_lines.simps)
  also have "ini_touch s m = m @ [(s, [])]"
    using new less by (simp add: ini_touch_def map_at_def map_put_last)
  also have "load_lines s (getlines (concat (map key_line kvs) @ ?rest)) (m @ [(s, [])])
      = load_lines s (getlines ?rest) (m @ [(s, kvs)])"
    using load_keys [OF less ok(2,3)] by simp
  also have "getlines ?rest = [] # getlines (inifile_save new)"
    using getlines_line [of "[]"] by simp
  also have "load_lines s ([] # getlines (inifile_save new)) (m @ [(s, kvs)]) = (True, (m @ [(s, kvs)]) @ new)"
    using load_blank_line Cons.IH [of "m @ [(s, kvs)]"] Cons.prems by (simp add: sec del: load_lines.simps)
  finally show ?case by (simp add: sec)
qed

text \<open>C36: \<open>save\<close> followed by \<open>load\<close> gives back every section, key and value, whatever the object held
  before, provided that the strings carry no newline, no blank at their ends, no closing bracket in a
  section and no equals sign (nor a leading bracket or hash) in a key.\<close>

theorem inifile_roundtrip:
  assumes "inifile_ok m"
  shows "inifile_load (Some (inifile_save m)) m0 = (True, m)"
  using load_sections [of "[]" m] assms by (simp add: inifile_load_def)

theorem inifile_roundtrip_witness:
  "inifile_load (Some (inifile_save [(''server'', [(''ip'', ''127.0.0.1''), (''port'', ''20023'')])])) []
    = (True, [(''server'', [(''ip'', ''127.0.0.1''), (''port'', ''20023'')])])"
  by (rule inifile_roundtrip) code_simp

lemma inifile_get_value:
  "fst (inifile_get s k m)
    = (case map_find s m of None \<Rightarrow> [] | Some kvs \<Rightarrow> (case map_find k kvs of None \<Rightarrow> [] | Some v \<Rightarrow> v))"
  by (simp add: inifile_get_def map_at_def map_find_def split: option.splits)

lemma find_ini_put:
  "map_find s' (ini_put s k v m)
    = (if s' = s then Some (map_put k v (case map_find s m of None \<Rightarrow> [] | Some kvs \<Rightarrow> kvs)) else map_find s' m)"
  by (simp add: ini_put_def map_at_def split: option.splits)

text \<open>A typed value that was set is read back: booleans and every \<open>int\<close> survive the text form, the
  other entries are left alone, and reading changes nothing that exists.\<close>

lemma inifile_set_get:
  assumes "omap_ok m"
  shows "value_to_int (fst (inifile_get s k (inifile_set s k (value_of_int i) m))) = i
    \<and> value_to_bool (fst (inifile_get s k (inifile_set s k (value_of_bool b) m))) = b
    \<and> inifile_has s k (inifile_set s k v m)
    \<and> snd (inifile_get s k (inifile_set s k v m)) = inifile_set s k v m
    \<and> ((s', k') \<noteq> (s, k) \<longrightarrow> fst (inifile_get s' k' (inifile_set s k v m)) = fst (inifile_get s' k' m))
    \<and> omap_ok (inifile_set s k v m)"
proof -
  have find: "map_find k' (case map_find s m of None \<Rightarrow> [] | Some kvs \<Rightarrow> kvs)
    = (case map_find s m of None \<Rightarrow> None | Some kvs \<Rightarrow> map_find k' kvs)" for k'
    by (simp add: map_find_def split: option.splits)
  have get: "fst (inifile_get s k (inifile_set s k w m)) = w" for w
    by (simp add: inifile_get_value inifile_set_def find_ini_put)
  have ok: "omap_ok (inifile_set s k v m)" using assms by (simp add: inifile_set_def ini_put_def)
  have "snd (inifile_get s k (inifile_set s k v m)) = inifile_set s k v m"
    using omap.put_same [OF ok, of s] by (simp add: inifile_get_def map_at_def inifile_set_def find_ini_put)
  moreover have "fst (inifile_get s' k' (inifile_set s k v m)) = fst (inifile_get s' k' m)"
    if "(s', k') \<noteq> (s, k)"
    using that by (auto simp: inifile_get_value inifile_set_def find_ini_put find split: option.splits)
  ultimately show ?thesis
    using ok unfolding get
    by (simp add: value_to_int_def value_of_int_def value_to_bool_def value_of_bool_def inifile_has_def
        inifile_set_def find_ini_put)
qed

end
