(* ===== verification/Tk_System.thy ===== *)
theory Tk_System
  imports Tk_Handler Tk_Inifile
begin

section \<open>Start-up and the running server (src/system, src/server/server.cpp, src/hooks)\<close>

text \<open>
  \<open>system::init\<close> reads the configuration, configures the server object and starts it;
  \<open>server::start\<close> creates the workers and the pools, initialises the managers and the socket handler
  and enters the main loop. The three hook classes call the application of the configured kind and
  swallow its exceptions.

  Parameters are the application (\<open>on_init\<close>, \<open>on_tick\<close>, \<open>on_stop\<close>), the answers of
  \<open>fork\<close>, \<open>open\<close>, \<open>readlink\<close> and OpenSSL, and the success of the allocations. Resource
  limits, signal handlers and the log directory have no effect on the model; the signal handler is
  \<open>to_stop\<close>.

  The theory shows what state \<open>start\<close> leaves behind, that from there on every registered connection
  object has the class that the tasks cast it to and none is lost, that shards and workers agree, how the
  settings reach the server, and that a stop request ends the loop.
\<close>

subsection \<open>Hooks\<close>

definition init_run :: "(task_type \<Rightarrow> int res) \<Rightarrow> server \<Rightarrow> int" where
  "init_run on_init sv =
     (case get_task_type sv of
        NONE \<Rightarrow> -1
      | tt \<Rightarrow> (case on_init tt of Inl e \<Rightarrow> -1 | Inr r \<Rightarrow> r))"

definition tick_run :: "(task_type \<Rightarrow> world \<Rightarrow> unit res \<times> world) \<Rightarrow> server \<Rightarrow> world \<Rightarrow> world" where
  "tick_run on_tick sv w = (case get_task_type sv of NONE \<Rightarrow> w | tt \<Rightarrow> snd (on_tick tt w))"

definition stop_run :: "(task_type \<Rightarrow> world \<Rightarrow> unit res \<times> world) \<Rightarrow> server \<Rightarrow> world \<Rightarrow> world" where
  "stop_run app_stop sv w = (case get_task_type sv of NONE \<Rightarrow> w | tt \<Rightarrow> snd (app_stop tt w))"

subsection \<open>The root path and the daemon\<close>

text \<open>
  \<open>readlink\<close> fills at most 1024 bytes; its answer is the length, here the link itself or
  \<open>None\<close> for an error. The path is cut at its last slash.
\<close>

definition cut_last_slash :: "string \<Rightarrow> string" where
  "cut_last_slash s = (if CHR ''/'' \<in> set s then rev (tl (dropWhile (\<lambda>c. c \<noteq> CHR ''/'') (rev s))) else s)"

definition get_root_path :: "string option \<Rightarrow> string \<Rightarrow> string \<times> string" where
  "get_root_path link m_root_path =
     (if m_root_path \<noteq> [] then (m_root_path, m_root_path)
      else (case link of
              None \<Rightarrow> ([], m_root_path)
            | Some path \<Rightarrow>
                if 1024 \<le> length path then ([], m_root_path)
                else (let root = cut_last_slash path in (root, root))))"

datatype daemon_call = Setsid | Open_null | Dup2 int int | Close_fd int

datatype daemon_result = Exit_failure | Exit_success | Goes_on

definition create_daemon :: "int \<Rightarrow> int \<Rightarrow> daemon_call list \<times> daemon_result" where
  "create_daemon pid fd =
     (if pid < 0 then ([], Exit_failure)
      else if 0 < pid then ([], Exit_success)
      else if fd < 0 then ([Setsid, Open_null], Exit_failure)
      else ([Setsid, Open_null, Dup2 fd 0, Dup2 fd 1, Dup2 fd 2] @ (if 2 < fd then [Close_fd fd] else []), Goes_on))"

subsection \<open>The settings\<close>

text \<open>An \<open>int\<close> of the file becomes a \<open>size_t\<close> of the server, and back an \<open>int\<close> of the handler.\<close>

definition size_of_int :: "int \<Rightarrow> nat" where
  "size_of_int i = nat (i mod 2 ^ 64)"

definition int_of_size :: "nat \<Rightarrow> int" where
  "int_of_size n = sint (of_nat n :: 32 word)"

text \<open>The call of \<open>server::config\<close>, with the arguments in the order in which they are passed.\<close>

definition configure_server :: "string \<Rightarrow> int \<Rightarrow> int \<Rightarrow> int \<Rightarrow> int \<Rightarrow> int \<Rightarrow> string \<Rightarrow> string \<Rightarrow> string \<Rightarrow> int \<Rightarrow>
    string \<Rightarrow> string \<Rightarrow> int \<Rightarrow> server \<Rightarrow> server" where
  "configure_server ip port threads max_conn wait_time accept_per_tick tt http_static_dir lua_dir use_ssl crt_pem key_pem
     daemon sv =
     server_config ip port (size_of_int threads) (size_of_int max_conn) (size_of_int accept_per_tick)
       (size_of_int wait_time) tt http_static_dir lua_dir (daemon \<noteq> 0) crt_pem key_pem (use_ssl \<noteq> 0) sv"

definition read_settings :: "inifile \<Rightarrow> server \<Rightarrow> server" where
  "read_settings ini sv =
     (case inifile_get ''server'' ''ip'' ini of (ip, ini) \<Rightarrow>
      case inifile_get ''server'' ''port'' ini of (port, ini) \<Rightarrow>
      case inifile_get ''server'' ''threads'' ini of (threads, ini) \<Rightarrow>
      case inifile_get ''server'' ''max_conn'' ini of (max_conn, ini) \<Rightarrow>
      case inifile_get ''server'' ''wait_time'' ini of (wait_time, ini) \<Rightarrow>
      case inifile_get ''server'' ''accept_per_tick'' ini of (accept_per_tick, ini) \<Rightarrow>
      case inifile_get ''server'' ''task_type'' ini of (tt, ini) \<Rightarrow>
      case inifile_get ''server'' ''http_static_dir'' ini of (http_static_dir, ini) \<Rightarrow>
      case inifile_get ''server'' ''lua_dir'' ini of (lua_dir, ini) \<Rightarrow>
      case inifile_get ''server'' ''use_ssl'' ini of (use_ssl, ini) \<Rightarrow>
      case inifile_get ''server'' ''crt.pem'' ini of (crt_pem, ini) \<Rightarrow>
      case inifile_get ''server'' ''key.pem'' ini of (key_pem, ini) \<Rightarrow>
      case inifile_get ''server'' ''daemon'' ini of (daemon, ini) \<Rightarrow>
        configure_server ip (value_to_int port) (value_to_int threads) (value_to_int max_conn) (value_to_int wait_time)
          (value_to_int accept_per_tick) tt http_static_dir lua_dir (value_to_int use_ssl) crt_pem key_pem
          (value_to_int daemon) sv)"

subsection \<open>Starting the server\<close>

text \<open>What the libraries answer during the start; pool 0 holds sockets, 1 connections, 2 tasks.\<close>

record start_env =
  ssl_ctx_new :: bool
  use_certificate_file :: int
  use_PrivateKey_file :: int
  malloc_ok :: "nat \<Rightarrow> bool"
  ctor_ok :: "nat \<Rightarrow> nat \<Rightarrow> bool"

definition ssl_context_ok :: "start_env \<Rightarrow> bool" where
  "ssl_context_ok env \<longleftrightarrow> ssl_ctx_new env \<and> use_certificate_file env = 1 \<and> use_PrivateKey_file env = 1"

definition conn_pool :: "task_type \<Rightarrow> conn_pools \<Rightarrow> pool" where
  "conn_pool tt ps =
     (case tt of HTTP_TASK \<Rightarrow> http_pool ps | STREAM_TASK \<Rightarrow> stream_pool ps | WEBSOCKET_TASK \<Rightarrow> websocket_pool ps
      | NONE \<Rightarrow> pool_new)"

definition set_conn_pool :: "task_type \<Rightarrow> pool \<Rightarrow> conn_pools \<Rightarrow> conn_pools" where
  "set_conn_pool tt p ps =
     (case tt of
        HTTP_TASK \<Rightarrow> ps\<lparr>http_pool := p\<rparr>
      | STREAM_TASK \<Rightarrow> ps\<lparr>stream_pool := p\<rparr>
      | WEBSOCKET_TASK \<Rightarrow> ps\<lparr>websocket_pool := p\<rparr>
      | NONE \<Rightarrow> ps)"

definition start_pools :: "start_env \<Rightarrow> world \<Rightarrow> bool \<times> world" where
  "start_pools env w =
     (let sv = server_obj w; tt = get_task_type sv; n = m_connects sv in
      case pool_init (malloc_ok env 0) (ctor_ok env 0) n False (socket_pool w) of (r, p) \<Rightarrow>
      let w = w\<lparr>socket_pool := p\<rparr> in
      if r \<noteq> 0 then (False, w)
      else if tt = NONE then (False, w)
      else (case pool_init (malloc_ok env 1) (ctor_ok env 1) n False (conn_pool tt (pools w)) of (r, p) \<Rightarrow>
        let w = w\<lparr>pools := set_conn_pool tt p (pools w)\<rparr> in
        if r \<noteq> 0 then (False, w)
        else (case pool_init (malloc_ok env 2) (ctor_ok env 2) (n * 3 mod u64_limit) True (task_pool (disp w) tt) of (r, p) \<Rightarrow>
          (r = 0, w\<lparr>disp := (disp w)\<lparr>task_pool := (task_pool (disp w))(tt := p)\<rparr>\<rparr>))))"

definition start_managers :: "os \<Rightarrow> epoll_ctl \<Rightarrow> int \<Rightarrow> world \<Rightarrow> bool \<times> world" where
  "start_managers os ctl epfd w =
     (let sv = server_obj w in
      case connection_mgr_init (get_task_type sv) (of_nat (m_threads sv)) (mgr w) of (r, m) \<Rightarrow>
      let w = w\<lparr>mgr := m\<rparr> in
      if r \<noteq> 0 then (False, w)
      else (case task_mgr_init (get_task_type sv) (disp w) of (r, d) \<Rightarrow>
        let w = w\<lparr>disp := d\<rparr> in
        if r \<noteq> 0 then (False, w)
        else (case handler_init os ctl epfd (sv_ip sv) (sv_port sv) (int_of_size (m_connects sv))
                     (int_of_size (sv_wait_time sv)) w of (r, w) \<Rightarrow> (r = 0, w))))"

text \<open>The bool says whether the main loop is entered.\<close>

definition server_start :: "start_env \<Rightarrow> os \<Rightarrow> epoll_ctl \<Rightarrow> int \<Rightarrow> world \<Rightarrow> bool \<times> world" where
  "server_start env os ctl epfd w =
     (if m_use_ssl (server_obj w) \<and> \<not> ssl_context_ok env then (False, w)
      else (let w = w\<lparr>disp := (disp w)\<lparr>workers := worker_pool_create (m_threads (server_obj w))\<rparr>\<rparr> in
            case start_pools env w of (ok, w) \<Rightarrow>
            if \<not> ok then (False, w) else start_managers os ctl epfd w))"

text \<open>The main loop over a sequence of turns; \<open>True\<close> means that it is still running.\<close>

fun handle_loop :: "(nat set \<Rightarrow> nat) \<Rightarrow> os \<Rightarrow> (int \<Rightarrow> bool \<times> bool) \<Rightarrow> epoll_ctl \<Rightarrow>
    (nat \<times> conn_ptr \<Rightarrow> world \<Rightarrow> unit res \<times> world) \<Rightarrow> (task_type \<Rightarrow> world \<Rightarrow> unit res \<times> world) \<Rightarrow>
    (task_type \<Rightarrow> world \<Rightarrow> unit res \<times> world) \<Rightarrow> turn list \<Rightarrow> world \<Rightarrow> (bool \<times> world) option" where
  "handle_loop set_begin os ssl ctl on_new on_tick app_stop [] w = Some (True, w)"
| "handle_loop set_begin os ssl ctl on_new on_tick app_stop (t # ts) w =
     (case handle_turn set_begin os ssl ctl on_new (\<lambda>w. tick_run on_tick (server_obj w) w) t w of
        None \<Rightarrow> None
      | Some (False, w) \<Rightarrow> Some (False, stop_run app_stop (server_obj w) w)
      | Some (True, w) \<Rightarrow> handle_loop set_begin os ssl ctl on_new on_tick app_stop ts w)"

text \<open>
  \<open>system::init\<close> up to the main loop: the configuration file is named by the root path; \<open>None\<close>
  is an exit of the process in \<open>create_daemon\<close>, the bool says whether the main loop is entered.
\<close>

definition system_init :: "(string \<Rightarrow> string option) \<Rightarrow> string option \<Rightarrow> int \<Rightarrow> int \<Rightarrow> (task_type \<Rightarrow> int res) \<Rightarrow>
    start_env \<Rightarrow> os \<Rightarrow> epoll_ctl \<Rightarrow> int \<Rightarrow> world \<Rightarrow> (bool \<times> world) option" where
  "system_init files link pid fd on_init env os ctl epfd w =
     (let ini = snd (inifile_load (files (fst (get_root_path link []) @ ''/config/main.ini'')) []);
          sv = read_settings ini (server_obj w) in
      if m_daemon sv \<and> snd (create_daemon pid fd) \<noteq> Goes_on then None
      else (let w = w\<lparr>server_obj := sv\<rparr> in
            if init_run on_init sv \<noteq> 0 then Some (False, w)
            else Some (server_start env os ctl epfd w)))"

subsection \<open>Connection objects are accounted for\<close>

text \<open>
  The tasks cast the connection they find under their id to the class of the configured kind, without a
  test. That is right because of the following invariant: every entry of the table has that class, every
  connection object is free or registered under one id, and none is lost.
\<close>

fun class_of :: "task_type \<Rightarrow> conn_class" where
  "class_of HTTP_TASK = Http_connection"
| "class_of STREAM_TASK = Stream_connection"
| "class_of WEBSOCKET_TASK = Websocket_connection"
| "class_of NONE = Http_connection"

definition used :: "(nat \<Rightarrow> (nat \<times> conn_ptr) option) \<Rightarrow> nat set" where
  "used table = {i. \<exists>gid k c. table gid = Some (k, Some (c, i))}"

definition typed :: "task_type \<Rightarrow> (nat \<Rightarrow> (nat \<times> conn_ptr) option) \<Rightarrow> bool" where
  "typed tt table \<longleftrightarrow> (\<forall>gid k p. table gid = Some (k, p) \<longrightarrow> (\<exists>i. p = Some (class_of tt, i)))"

definition one_conn :: "(nat \<Rightarrow> (nat \<times> conn_ptr) option) \<Rightarrow> bool" where
  "one_conn table \<longleftrightarrow>
     (\<forall>g g' k k' c c' i. table g = Some (k, Some (c, i)) \<longrightarrow> table g' = Some (k', Some (c', i)) \<longrightarrow> g = g')"

definition conn_owners :: "nat \<Rightarrow> task_type \<Rightarrow> nat set \<Rightarrow> (nat \<Rightarrow> (nat \<times> conn_ptr) option) \<Rightarrow> bool" where
  "conn_owners N tt free table \<longleftrightarrow>
     typed tt table \<and> one_conn table \<and> free \<union> used table = {0..<N} \<and> free \<inter> used table = {}"

definition free_conns :: "world \<Rightarrow> nat set" where
  "free_conns w = m_set (conn_pool (mgr_task_type (mgr w)) (pools w))"

definition conns_ok :: "nat \<Rightarrow> task_type \<Rightarrow> world \<Rightarrow> bool" where
  "conns_ok N tt w \<longleftrightarrow> tt \<noteq> NONE \<and> mgr_task_type (mgr w) = tt \<and> mgr_ok (mgr w) \<and>
     conn_owners N tt (free_conns w) (mgr_abs (mgr w))"

lemma conns_ok_cong: "mgr w' = mgr w \<Longrightarrow> pools w' = pools w \<Longrightarrow> conns_ok N tt w' = conns_ok N tt w"
  by (simp add: conns_ok_def free_conns_def)

lemma conns_ok_resources: "resources w' = resources w \<Longrightarrow> conns_ok N tt w' = conns_ok N tt w"
  by (rule conns_ok_cong) (simp_all add: resources_def)

lemma used_insert: "table gid = None \<Longrightarrow> used (table(gid \<mapsto> (k, Some (c, i)))) = insert i (used table)"
  unfolding used_def by (auto split: if_splits) (metis option.distinct(1))

lemma conn_owners_register:
  assumes "conn_owners N tt free table" "i \<in> free" "table gid = None"
  shows "conn_owners N tt (free - {i}) (table(gid \<mapsto> (k, Some (class_of tt, i))))"
proof -
  have new: "i \<notin> used table" using assms(1,2) by (auto simp: conn_owners_def)
  then have "one_conn (table(gid \<mapsto> (k, Some (class_of tt, i))))"
    using assms(1) unfolding conn_owners_def one_conn_def used_def by (auto split: if_splits)
  moreover have "typed tt (table(gid \<mapsto> (k, Some (class_of tt, i))))"
    using assms(1) unfolding conn_owners_def typed_def by auto
  ultimately show ?thesis
    using assms new unfolding conn_owners_def used_insert [of table, OF assms(3)] by auto
qed

lemma conn_owners_unregister:
  assumes "conn_owners N tt free table" "table gid = Some (k, p)"
  shows "\<exists>i. p = Some (class_of tt, i) \<and> conn_owners N tt (insert i free) (table(gid := None))"
proof -
  obtain i where p: "p = Some (class_of tt, i)"
    using assms unfolding conn_owners_def typed_def by blast
  have one: "one_conn table" using assms(1) by (simp add: conn_owners_def)
  have i: "i \<in> used table" using assms(2) p unfolding used_def by blast
  have "used (table(gid := None)) = used table - {i}"
  proof (intro set_eqI iffI)
    fix j assume "j \<in> used (table(gid := None))"
    then show "j \<in> used table - {i}"
      using one assms(2) p unfolding used_def one_conn_def by (auto split: if_splits)
  next
    fix j assume "j \<in> used table - {i}"
    then obtain g k' c where "table g = Some (k', Some (c, j))" "j \<noteq> i" by (auto simp: used_def)
    moreover from this have "g \<noteq> gid" using assms(2) p by auto
    ultimately have "(table(gid := None)) g = Some (k', Some (c, j))" by simp
    then show "j \<in> used (table(gid := None))" unfolding used_def by blast
  qed
  moreover have "one_conn (table(gid := None))" "typed tt (table(gid := None))"
    using assms(1) unfolding conn_owners_def one_conn_def typed_def by auto
  ultimately show ?thesis
    using assms(1) i p unfolding conn_owners_def by auto
qed

lemma conn_create_outcome:
  assumes "conn_create set_begin tt ps = (p, ps')" "begin_ok set_begin" "finite (m_set (conn_pool tt ps))" "tt \<noteq> NONE"
  obtains (none) "p = None" "ps' = ps"
    | (some) i where "p = Some (class_of tt, i)" "i \<in> m_set (conn_pool tt ps)"
        "m_set (conn_pool tt ps') = m_set (conn_pool tt ps) - {i}"
proof (cases "m_set (conn_pool tt ps) = {}")
  case True
  then show ?thesis
    using assms(1,4) by (intro none; cases tt) (auto simp: conn_create_def conn_pool_def pool_allocate_def split: if_splits)
next
  case False
  then have "set_begin (m_set (conn_pool tt ps)) \<in> m_set (conn_pool tt ps)"
    using assms(2,3) by (simp add: begin_ok_def)
  with False show ?thesis
    using assms(1,4) by (intro some [of "set_begin (m_set (conn_pool tt ps))"]; cases tt)
      (auto simp: conn_create_def conn_pool_def pool_allocate_def Let_def)
qed

lemma conn_release_pool:
  "tt \<noteq> NONE \<Longrightarrow> m_set (conn_pool tt (conn_release tt (Some (class_of tt, i)) ps)) = insert i (m_set (conn_pool tt ps))"
  by (cases tt) (simp_all add: conn_release_def conn_pool_def pool_release_def convert_to_http_def convert_to_stream_def
      convert_to_websocket_def is_http_def is_stream_def is_websocket_def has_class_def)

lemma push_wait_remove_frame [simp]:
  "mgr (push_wait_remove p w) = mgr w" "pools (push_wait_remove p w) = pools w"
  by (simp_all add: push_wait_remove_def split: option.split)

lemma conns_ok_finite: "conns_ok N tt w \<Longrightarrow> finite (free_conns w)"
  unfolding conns_ok_def conn_owners_def by (metis finite_Un finite_atLeastLessThan)

lemma accept_register_conns:
  assumes ok: "conns_ok N tt w" and bo: "begin_ok set_begin"
    and hook: "\<And>v w. resources (snd (on_new v w)) = resources w"
    and run: "accept_register set_begin on_new gid k w = Some (go, w')"
  shows "conns_ok N tt w'"
proof -
  have m_ok: "mgr_ok (mgr w)" and tt: "tt \<noteq> NONE" "mgr_task_type (mgr w) = tt"
    and ow: "conn_owners N tt (free_conns w) (mgr_abs (mgr w))"
    using ok by (simp_all add: conns_ok_def)
  have fin: "finite (m_set (conn_pool tt (pools w)))"
    using conns_ok_finite [OF ok] tt by (simp add: free_conns_def)
  show ?thesis
  proof (cases rule: accept_register_outcome [where on_new = on_new, OF m_ok hook run])
    case (1 ps)
    have "ps = pools w"
      by (rule conn_create_outcome [OF 1(1) [unfolded tt] bo fin tt(1)]) simp_all
    then have "conns_ok N tt w' = conns_ok N tt w" unfolding 1(2) by (intro conns_ok_cong) simp_all
    then show ?thesis using ok by simp
  next
    case (2 c ps m)
    obtain i where i: "c = (class_of tt, i)" "i \<in> free_conns w" "m_set (conn_pool tt ps) = free_conns w - {i}"
      using conn_create_outcome [OF 2(1) [unfolded tt] bo fin tt(1)] tt unfolding free_conns_def by blast
    have "free_conns w' = free_conns w"
      using i tt 2 conn_release_pool [OF tt(1), of i ps] by (auto simp: free_conns_def)
    then show ?thesis using 2 ow tt by (simp add: conns_ok_def)
  next
    case (3 c ps m)
    obtain i where i: "c = (class_of tt, i)" "i \<in> free_conns w" "m_set (conn_pool tt ps) = free_conns w - {i}"
      using conn_create_outcome [OF 3(1) [unfolded tt] bo fin tt(1)] tt unfolding free_conns_def by blast
    let ?w = "(new_connection gid k (fst c) (snd c) (w\<lparr>pools := ps\<rparr>))\<lparr>mgr := m\<rparr>"
    have "conns_ok N tt ?w"
      using conn_owners_register [OF ow i(2) 3(2), of k] 3 tt i
      by (simp add: conns_ok_def free_conns_def new_connection_def)
    then show ?thesis using conns_ok_resources [OF 3(6)] by simp
  qed
qed

lemma accept_one_conns:
  assumes ok: "conns_ok N tt w" and bo: "begin_ok set_begin"
    and hook: "\<And>v w. resources (snd (on_new v w)) = resources w"
    and run: "accept_one set_begin os ssl on_new fd w = Some (go, w')"
  shows "conns_ok N tt w'"
proof -
  obtain ko w1 where a: "alloc_socket set_begin w = (ko, w1)" by fastforce
  then have w1: "mgr w1 = mgr w" "pools w1 = pools w"
    by (auto simp: alloc_socket_def split: if_splits prod.splits alloc.splits)
  show ?thesis
  proof (cases "fd \<le> 0 \<or> ko = None")
    case True
    then have "mgr w' = mgr w \<and> pools w' = pools w"
      using run a w1 by (auto simp: accept_one_def split: if_splits)
    then show ?thesis using ok conns_ok_cong [of w' w] by blast
  next
    case False
    then obtain k where k: "ko = Some k" "\<not> fd \<le> 0" by auto
    obtain new_ok fd_ok where ssl: "ssl fd = (new_ok, fd_ok)" by fastforce
    define w2 where "w2 = new_socket os fd k w1"
    define w3 where "w3 = (if m_use_ssl (server_obj w2)
       then w2\<lparr>sockets := (sockets w2)(k := (sockets w2 k)\<lparr>m_ssl_instance := new_ok\<rparr>)\<rparr> else w2)"
    have "mgr w3 = mgr w" "pools w3 = pools w" using w1 by (simp_all add: w3_def w2_def new_socket_def Let_def)
    then have w3: "conns_ok N tt w3" "conns_ok N tt (push_wait_remove (Some k) w3)"
      using ok conns_ok_cong [of w3 w] conns_ok_cong [of "push_wait_remove (Some k) w3" w]
      unfolding push_wait_remove_frame by blast+
    have "accept_one set_begin os ssl on_new fd w = (if m_use_ssl (server_obj w3) \<and> (\<not> new_ok \<or> \<not> fd_ok)
        then Some (True, push_wait_remove (Some k) w3) else accept_register set_begin on_new (next_gid w1) k w3)"
      unfolding accept_one_def w2_def w3_def using a k ssl by (simp add: Let_def)
    with run w3 accept_register_conns [where on_new = on_new, OF w3(1) bo hook] show ?thesis
      by (auto split: if_splits)
  qed
qed

lemma handler_remove_frame [simp]:
  "mgr (snd (handler_remove ctl p w)) = mgr w" "pools (snd (handler_remove ctl p w)) = pools w"
  "server_obj (snd (handler_remove ctl p w)) = server_obj w" "disp (snd (handler_remove ctl p w)) = disp w"
  "lastest_tick_time (snd (handler_remove ctl p w)) = lastest_tick_time w"
  by (auto simp: handler_remove_def handler_detach_def split: option.splits prod.splits)

lemma fold_remove_frame [simp]:
  "mgr (fold (\<lambda>k w. snd (handler_remove ctl (Some k) w)) ks w) = mgr w"
  "pools (fold (\<lambda>k w. snd (handler_remove ctl (Some k) w)) ks w) = pools w"
  "server_obj (fold (\<lambda>k w. snd (handler_remove ctl (Some k) w)) ks w) = server_obj w"
  "disp (fold (\<lambda>k w. snd (handler_remove ctl (Some k) w)) ks w) = disp w"
  "lastest_tick_time (fold (\<lambda>k w. snd (handler_remove ctl (Some k) w)) ks w) = lastest_tick_time w"
  by (induction ks arbitrary: w) simp_all

lemma update_wait_remove_frame:
  "update_wait_remove ctl removed w = (r, w') \<Longrightarrow> mgr w' = mgr w \<and> pools w' = pools w \<and>
     server_obj w' = server_obj w \<and> disp w' = disp w \<and> lastest_tick_time w' = lastest_tick_time w"
  by (auto simp: update_wait_remove_def Let_def split: if_splits)

lemma close_connection_conns:
  assumes ok: "conns_ok N tt w"
    and hook: "\<And>v w. fst (on_close v w) = Inr ()" "\<And>v w. resources (snd (on_close v w)) = resources w"
    and run: "close_connection on_close gid w = Some w'"
  shows "conns_ok N tt w'"
proof -
  let ?release = "\<lambda>key v w. push_wait_remove (Some (fst v))
                      (w\<lparr>pools := conn_release (mgr_task_type (mgr w)) (snd v) (pools w)\<rparr>)"
  have m_ok: "mgr_ok (mgr w)" and tt: "tt \<noteq> NONE" "mgr_task_type (mgr w) = tt"
    and ow: "conn_owners N tt (free_conns w) (mgr_abs (mgr w))"
    using ok by (simp_all add: conns_ok_def)
  obtain m u where m: "mgr_remove on_close gid (Some ?release) None (mgr w) w = Some (m, u)"
    "mgr_ok m" "mgr_abs m = (mgr_abs (mgr w))(gid := None)"
    "u = (case mgr_abs (mgr w) gid of
         None \<Rightarrow> (case None of None \<Rightarrow> w | Some f \<Rightarrow> f gid w)
       | Some v \<Rightarrow> (case on_close v w of (Inl e, s) \<Rightarrow> s
           | (Inr _, s) \<Rightarrow> (case Some ?release of None \<Rightarrow> s | Some f \<Rightarrow> f gid v s)))"
    by (rule mgr_remove_refines [OF m_ok, of on_close gid "Some ?release" None w]) (rule that, assumption+, rule refl)
  have type: "mgr_task_type m = tt" using mgr_remove_type [OF m(1)] tt by simp
  have w': "w' = u\<lparr>mgr := m\<rparr>" using run m(1) by (simp add: close_connection_def)
  show ?thesis
  proof (cases "mgr_abs (mgr w) gid")
    case None
    then have "mgr_abs m = mgr_abs (mgr w)" using m(3) by auto
    then show ?thesis using None w' m ow tt type by (simp add: conns_ok_def free_conns_def)
  next
    case (Some v)
    obtain k p where v: "v = (k, p)" by fastforce
    obtain w1 where w1: "on_close v w = (Inr (), w1)" using hook(1) [of v w] by (cases "on_close v w") auto
    then have r: "mgr w1 = mgr w" "pools w1 = pools w" using hook(2) [of v w] by (simp_all add: resources_def)
    obtain i where i: "p = Some (class_of tt, i)"
      "conn_owners N tt (insert i (free_conns w)) ((mgr_abs (mgr w))(gid := None))"
      using conn_owners_unregister [OF ow Some [unfolded v]] by blast
    have "free_conns w' = insert i (free_conns w)"
      using w' m(4) Some v w1 r i tt type conn_release_pool [OF tt(1), of i "pools w"] by (simp add: free_conns_def)
    then show ?thesis using i w' m tt type by (simp add: conns_ok_def)
  qed
qed

lemma world_step_conns:
  assumes "world_step set_begin w w'" "begin_ok set_begin" "conns_ok N tt w"
  shows "conns_ok N tt w'"
  using assms
proof (induction rule: world_step.induct)
  case (Sweep ctl removed w r w')
  then show ?case using update_wait_remove_frame conns_ok_cong by metis
next
  case (Accept on_new os ssl fd w go w')
  then show ?case by (blast intro: accept_one_conns)
next
  case (Event ctl k ev w w')
  then show ?case using connection_event_resources conns_ok_resources by metis
next
  case (Close on_close gid w w')
  then show ?case by (blast intro: close_connection_conns)
next
  case (Other w' w)
  then show ?case using conns_ok_resources by metis
qed

lemma world_reachable_conns:
  assumes "(world_step set_begin)\<^sup>*\<^sup>* w w'" "begin_ok set_begin" "conns_ok N tt w"
  shows "conns_ok N tt w'"
  using assms by (induction rule: rtranclp_induct) (blast intro: world_step_conns)+

subsection \<open>The state after the start\<close>

lemma range_Suc: "{i..<i + Suc k} = insert i {Suc i..<Suc i + k}"
  by auto

lemma pool_init_loop_succeeds: "fst (pool_init_loop ctor i k p) \<longleftrightarrow> (\<forall>j \<in> {i..<i + k}. ctor j)"
proof (induction k arbitrary: i p)
  case (Suc k)
  then show ?case unfolding range_Suc by (simp del: atLeastLessThan_iff)
qed simp

lemma pool_init_loop_result:
  "\<forall>j \<in> {i..<i + k}. ctor j \<Longrightarrow> pool_init_loop ctor i k p =
     (True, p\<lparr>m_max_size := m_max_size p + k, m_set := m_set p \<union> {i..<i + k}\<rparr>)"
proof (induction k arbitrary: i p)
  case (Suc k)
  then show ?case using Suc.IH [of "Suc i"] unfolding range_Suc by simp
qed simp

lemma pool_init_outcome:
  assumes "m_set p = {}"
  shows "fst (pool_init mo ctor n block p) = 0 \<longleftrightarrow> mo \<and> (\<forall>i < n. ctor i)"
    and "mo \<Longrightarrow> \<forall>i < n. ctor i \<Longrightarrow> pool_init mo ctor n block p =
      (0, p\<lparr>m_objects := True, m_max_size := n, m_set := {0..<n}, m_block := block\<rparr>)"
  using pool_init_loop_succeeds [of ctor 0 n "p\<lparr>m_objects := mo, m_max_size := 0\<rparr>"]
    pool_init_loop_result [of 0 n ctor "p\<lparr>m_objects := mo, m_max_size := 0\<rparr>"] assms
  by (auto simp: pool_init_def Let_def split: prod.splits bool.splits)

definition world_fresh :: "world \<Rightarrow> bool" where
  "world_fresh w \<longleftrightarrow> \<not> m_init w \<and> m_set (socket_pool w) = {} \<and> m_remove_list1 w = [] \<and> m_remove_list2 w = [] \<and>
     (\<forall>tt \<in> {HTTP_TASK, STREAM_TASK, WEBSOCKET_TASK}. m_set (conn_pool tt (pools w)) = {} \<and> m_set (task_pool (disp w) tt) = {})"

definition allocations_ok :: "start_env \<Rightarrow> server \<Rightarrow> bool" where
  "allocations_ok env sv \<longleftrightarrow> (\<forall>p < 3. malloc_ok env p) \<and> (\<forall>i < m_connects sv. ctor_ok env 0 i \<and> ctor_ok env 1 i) \<and>
     (\<forall>i < m_connects sv * 3 mod u64_limit. ctor_ok env 2 i)"

lemma set_conn_pool_same: "tt \<noteq> NONE \<Longrightarrow> conn_pool tt (set_conn_pool tt p ps) = p"
  by (cases tt) (simp_all add: set_conn_pool_def conn_pool_def)

lemma start_pools_outcome:
  assumes "world_fresh w" "sv = server_obj w" "tt = get_task_type sv"
  shows "fst (start_pools env w) \<longleftrightarrow> tt \<noteq> NONE \<and> allocations_ok env sv" (is ?A)
    and "tt \<noteq> NONE \<Longrightarrow> allocations_ok env sv \<Longrightarrow> \<exists>ps p q d. start_pools env w =
       (True, w\<lparr>socket_pool := q, pools := ps, disp := (disp w)\<lparr>task_pool := (task_pool (disp w))(tt := p)\<rparr>\<rparr>) \<and>
       m_set q = {0..<m_connects sv} \<and> m_set (conn_pool tt ps) = {0..<m_connects sv} \<and>
       m_set p = {0..<m_connects sv * 3 mod u64_limit} \<and> m_block p" (is "_ \<Longrightarrow> _ \<Longrightarrow> ?B")
proof -
  have s: "m_set (socket_pool w) = {}" using assms(1) by (simp add: world_fresh_def)
  have c: "m_set (conn_pool tt (pools w)) = {}" "m_set (task_pool (disp w) tt) = {}" if "tt \<noteq> NONE"
    using assms(1) that by (cases tt; simp add: world_fresh_def)+
  let ?n = "m_connects sv"
  note P0 = pool_init_outcome [OF s, where mo = "malloc_ok env 0" and ctor = "ctor_ok env 0" and n = ?n and block = False]
  note P1 = pool_init_outcome [OF c(1), where mo = "malloc_ok env 1" and ctor = "ctor_ok env 1" and n = ?n and block = False]
  note P2 = pool_init_outcome [OF c(2), where mo = "malloc_ok env 2" and ctor = "ctor_ok env 2" and n = "?n * 3 mod u64_limit" and block = True]
  have three: "(\<forall>p < 3. malloc_ok env p) \<longleftrightarrow> malloc_ok env 0 \<and> malloc_ok env 1 \<and> malloc_ok env 2"
    by (auto simp: numeral_3_eq_3 less_Suc_eq numeral_2_eq_2)
  show ?A
    using P0(1) P1(1) P2(1) unfolding start_pools_def Let_def assms(2,3) allocations_ok_def three
    by (auto split: prod.splits)
  show ?B if "tt \<noteq> NONE" "allocations_ok env sv"
    using that P0(2) P1(2) [OF that(1)] P2(2) [OF that(1)] set_conn_pool_same [OF that(1)]
    unfolding start_pools_def Let_def assms(2,3) allocations_ok_def three
    by (intro exI) (auto split: prod.splits)
qed

lemma start_managers_outcome:
  assumes "\<not> m_init w" "m_set (socket_pool w) = {0..<m_connects sv}" "m_remove_list1 w = []" "m_remove_list2 w = []"
    "sv = server_obj w" "0 < m_threads sv mod 2 ^ 32"
  shows "\<exists>w'. start_managers os ctl epfd w = (True, w') \<and> world_ok (m_connects sv) {} w' \<and> pools w' = pools w \<and>
     disp w' = (disp w)\<lparr>mgr_type := get_task_type sv\<rparr> \<and> mgr_ok (mgr w') \<and> mgr_abs (mgr w') = (\<lambda>_. None) \<and>
     mgr_task_type (mgr w') = get_task_type sv \<and> m_thread_size (mgr w') = m_threads sv mod 2 ^ 32 \<and> m_init w'"
proof -
  let ?m = "snd (connection_mgr_init (get_task_type sv) (of_nat (m_threads sv)) (mgr w))"
  have n: "0 < (of_nat (m_threads sv) :: 32 word)"
    using assms(6) by (simp add: word_less_nat_alt unat_of_nat)
  have m: "mgr_ok ?m" "mgr_abs ?m = (\<lambda>_. None)" "mgr_task_type ?m = get_task_type sv" "m_thread_size ?m = m_threads sv mod 2 ^ 32"
    using mgr_ok_init [OF n, of "get_task_type sv" "mgr w"] mgr_abs_init [OF n, of "get_task_type sv" "mgr w"]
    by (simp_all add: connection_mgr_init_def unat_of_nat)
  let ?w = "w\<lparr>mgr := ?m, disp := (disp w)\<lparr>mgr_type := get_task_type sv\<rparr>\<rparr>"
  let ?h = "handler_init os ctl epfd (sv_ip sv) (sv_port sv) (int_of_size (m_connects sv)) (int_of_size (sv_wait_time sv)) ?w"
  have h: "fst ?h = 0" "world_ok (m_connects sv) {} (snd ?h)" "pools (snd ?h) = pools w" "disp (snd ?h) = disp ?w"
    "mgr (snd ?h) = ?m" "m_init (snd ?h)"
    using assms m
    by (auto simp: handler_init_def Let_def world_ok_def lists_ok_def listed_def owners_ok_def reg_of_def one_gid_def
        split: prod.split)
  have "start_managers os ctl epfd w = (True, snd ?h)"
    using h(1) assms(5)
    by (auto simp: start_managers_def Let_def connection_mgr_init_def task_mgr_init_def split: prod.split)
  with h m show ?thesis by simp
qed

text \<open>What the start is worth: the state of the running server.\<close>

definition server_ready :: "server \<Rightarrow> world \<Rightarrow> bool" where
  "server_ready sv w \<longleftrightarrow> m_init w \<and> world_ok (m_connects sv) {} w \<and> conns_ok (m_connects sv) (get_task_type sv) w \<and>
     mgr_abs (mgr w) = (\<lambda>_. None) \<and> m_thread_size (mgr w) = m_threads sv mod 2 ^ 32 \<and> length (workers (disp w)) = m_threads sv \<and>
     mgr_type (disp w) = get_task_type sv \<and> m_block (task_pool (disp w) (get_task_type sv)) \<and>
     tasks_accounted {} (disp w) \<and> free_tasks (disp w) = {0..<m_connects sv * 3 mod u64_limit}"

definition start_ok :: "start_env \<Rightarrow> server \<Rightarrow> bool" where
  "start_ok env sv \<longleftrightarrow> (m_use_ssl sv \<longrightarrow> ssl_context_ok env) \<and> get_task_type sv \<noteq> NONE \<and> allocations_ok env sv"

lemma server_start_outcome:
  assumes fresh: "world_fresh w" and threads: "0 < m_threads (server_obj w) mod 2 ^ 32"
  defines "sv \<equiv> server_obj w"
  shows "fst (server_start env os ctl epfd w) \<longleftrightarrow> start_ok env sv"
    and "start_ok env sv \<Longrightarrow> server_ready sv (snd (server_start env os ctl epfd w))"
proof -
  let ?w = "w\<lparr>disp := (disp w)\<lparr>workers := worker_pool_create (m_threads sv)\<rparr>\<rparr>"
  have fresh': "world_fresh ?w" using fresh by (simp add: world_fresh_def)
  note P = start_pools_outcome [OF fresh', of sv "get_task_type sv" env, unfolded sv_def, simplified]
  have go: "fst (server_start env os ctl epfd w) \<and> server_ready sv (snd (server_start env os ctl epfd w))" if c: "start_ok env sv"
  proof -
    have "get_task_type sv \<noteq> NONE" "allocations_ok env sv" using c by (simp_all add: start_ok_def)
    from P(2) [OF this [unfolded sv_def]] obtain ps p q where pools: "start_pools env ?w = (True,
        ?w\<lparr>socket_pool := q, pools := ps, disp := (disp ?w)\<lparr>task_pool := (task_pool (disp ?w))(get_task_type sv := p)\<rparr>\<rparr>)"
        "m_set q = {0..<m_connects sv}" "m_set (conn_pool (get_task_type sv) ps) = {0..<m_connects sv}"
        "m_set p = {0..<m_connects sv * 3 mod u64_limit}" "m_block p"
      unfolding sv_def by auto
    let ?w1 = "?w\<lparr>socket_pool := q, pools := ps, disp := (disp ?w)\<lparr>task_pool := (task_pool (disp ?w))(get_task_type sv := p)\<rparr>\<rparr>"
    have w1: "\<not> m_init ?w1" "m_set (socket_pool ?w1) = {0..<m_connects sv}" "m_remove_list1 ?w1 = []"
      "m_remove_list2 ?w1 = []" "sv = server_obj ?w1" "0 < m_threads sv mod 2 ^ 32"
      using fresh threads pools by (simp_all add: world_fresh_def sv_def)
    from start_managers_outcome [OF w1, of os ctl epfd] obtain w' where
      m: "start_managers os ctl epfd ?w1 = (True, w')" "world_ok (m_connects sv) {} w'" "pools w' = ps"
      "disp w' = (disp ?w1)\<lparr>mgr_type := get_task_type sv\<rparr>" "mgr_ok (mgr w')" "mgr_abs (mgr w') = (\<lambda>_. None)"
      "mgr_task_type (mgr w') = get_task_type sv" "m_thread_size (mgr w') = m_threads sv mod 2 ^ 32" "m_init w'"
      by auto
    have start: "server_start env os ctl epfd w = (True, w')"
      using pools(1) m(1) c by (auto simp: server_start_def start_ok_def sv_def)
    have empty: "queued_tasks (disp w') = []"
      using m(4) by (simp add: queued_tasks_def worker_pool_create_def worker_run_begin_def worker_new_def task_queue_new_def pending_def)
    have "conns_ok (m_connects sv) (get_task_type sv) w'"
      using m pools c by (simp add: start_ok_def conns_ok_def free_conns_def conn_owners_def typed_def one_conn_def used_def)
    then have "server_ready sv w'"
      using m pools empty by (simp add: server_ready_def tasks_accounted_def free_tasks_def worker_pool_create_def)
    with start show ?thesis by simp
  qed
  then show "start_ok env sv \<Longrightarrow> server_ready sv (snd (server_start env os ctl epfd w))" by simp
  have "\<not> fst (server_start env os ctl epfd w)" if "\<not> start_ok env sv"
    using that P(1) by (auto simp: server_start_def start_ok_def sv_def split: prod.splits)
  with go show "fst (server_start env os ctl epfd w) \<longleftrightarrow> start_ok env sv" by blast
qed

subsection \<open>A server to start\<close>

definition demo_env :: start_env where
  "demo_env = \<lparr>ssl_ctx_new = True, use_certificate_file = 1, use_PrivateKey_file = 1, malloc_ok = (\<lambda>_. True),
     ctor_ok = (\<lambda>_ _. True)\<rparr>"

definition demo_settings :: server where
  "demo_settings = server_config ''0.0.0.0'' 20023 2 4 10 50 ''STREAM_TASK'' [] [] False [] [] False server_new"

definition demo_fresh :: world where
  "demo_fresh = demo_world\<lparr>server_obj := demo_settings, socket_pool := pool_new,
     pools := \<lparr>http_pool = pool_new, stream_pool = pool_new, websocket_pool = pool_new\<rparr>,
     disp := \<lparr>task_pool = (\<lambda>_. pool_new), reasons = (\<lambda>_. (False, False)), workers = [], mgr_type = NONE\<rparr>\<rparr>"

definition demo_running :: world where
  "demo_running = snd (server_start demo_env (\<lambda>_. 3) (kernel (\<lambda>_. False)) 4 demo_fresh)"

lemma demo_fresh_ok: "world_fresh demo_fresh" "server_obj demo_fresh = demo_settings" "0 < m_threads demo_settings mod 2 ^ 32"
  "m_connects demo_settings = 4" "m_threads demo_settings = 2" "get_task_type demo_settings = STREAM_TASK"
  "start_ok demo_env demo_settings"
  by (simp_all add: demo_fresh_def demo_world_def world_fresh_def conn_pool_def pool_new_def demo_settings_def
      server_config_def get_task_type_def start_ok_def ssl_context_ok_def demo_env_def allocations_ok_def server_new_def)

lemma demo_running_start: "server_start demo_env (\<lambda>_. 3) (kernel (\<lambda>_. False)) 4 demo_fresh = (True, demo_running)"
  using server_start_outcome(1) [OF demo_fresh_ok(1), of demo_env "\<lambda>_. 3" "kernel (\<lambda>_. False)" 4] demo_fresh_ok
  by (simp add: demo_running_def prod_eq_iff)

subsection \<open>Properties\<close>

text \<open>C10: which failures keep \<open>server::start\<close> from the main loop, and what it has built when it gets there.
  The loop is entered exactly when the TLS context (if it is asked for) is made, the configured kind of
  server is known, and the allocations of the three object pools succeed. The answers of the system to
  \<open>socket\<close>, \<open>bind\<close>, \<open>listen\<close>, \<open>epoll_create\<close> and \<open>epoll_ctl\<close> do not matter: the code looks at none of them, so a
  server whose port is taken enters the loop all the same. In the loop the components agree with each
  other: the handler is initialised over a full socket pool and an empty table, the connection and task
  pools of that kind are full, the task pool blocks, the task manager and the connection manager have
  that kind, there is one worker per configured thread, and one shard per thread with the count cut to
  32 bits (as many shards as workers below \<open>2 ^ 32\<close> threads). The count of threads must not be a multiple
  of \<open>2 ^ 32\<close>.\<close>

theorem server_start_ready:
  assumes "world_fresh w" "0 < m_threads (server_obj w) mod 2 ^ 32"
  shows "(fst (server_start env os ctl epfd w) \<longleftrightarrow> start_ok env (server_obj w)) \<and>
    (start_ok env (server_obj w) \<longrightarrow> server_ready (server_obj w) (snd (server_start env os ctl epfd w)))"
  using server_start_outcome [OF assms] by blast

theorem server_start_ready_witness:
  "fst (server_start demo_env (\<lambda>_. 3) (kernel (\<lambda>_. False)) 4 demo_fresh) \<and> server_ready demo_settings demo_running"
  using server_start_ready [OF demo_fresh_ok(1), of demo_env "\<lambda>_. 3" "kernel (\<lambda>_. False)" 4] demo_fresh_ok
  by (simp add: demo_running_def)

text \<open>C1: type safety of the connection table. Start a server and let the event loop, the workers and the
  hooks run in any interleaving: the connection object that a task finds under its id has the class of the
  configured kind, so the unchecked cast at the head of every task is right; its slot is a valid one and
  is not free; and every connection object is free or registered, under one id only.\<close>

theorem registered_connections_typed:
  assumes "begin_ok set_begin" "world_fresh w" "0 < m_threads (server_obj w) mod 2 ^ 32"
    and "server_start env os ctl epfd w = (True, w1)" "(world_step set_begin)\<^sup>*\<^sup>* w1 w'"
  defines "tt \<equiv> get_task_type (server_obj w)"
  shows "(\<forall>gid k p. mgr_find gid (mgr w') = Some (k, p) \<longrightarrow>
       is_http p = (tt = HTTP_TASK) \<and> is_stream p = (tt = STREAM_TASK) \<and> is_websocket p = (tt = WEBSOCKET_TASK) \<and>
       (\<exists>i < m_connects (server_obj w). p = Some (class_of tt, i) \<and> i \<notin> free_conns w')) \<and>
     free_conns w' \<union> used (mgr_abs (mgr w')) = {0..<m_connects (server_obj w)} \<and>
     free_conns w' \<inter> used (mgr_abs (mgr w')) = {} \<and> one_conn (mgr_abs (mgr w'))"
proof -
  have "start_ok env (server_obj w)" using server_start_outcome(1) [OF assms(2,3), of env os ctl epfd] assms(4) by simp
  from server_start_outcome(2) [OF assms(2,3) this, of os ctl epfd]
  have "conns_ok (m_connects (server_obj w)) tt w1"
    using assms(4) by (simp add: server_ready_def tt_def)
  from world_reachable_conns [OF assms(5,1) this] have ok: "conns_ok (m_connects (server_obj w)) tt w'" .
  then have m: "mgr_ok (mgr w')" and tt: "tt \<noteq> NONE"
    and ow: "conn_owners (m_connects (server_obj w)) tt (free_conns w') (mgr_abs (mgr w'))"
    by (simp_all add: conns_ok_def)
  have "is_http p = (tt = HTTP_TASK) \<and> is_stream p = (tt = STREAM_TASK) \<and> is_websocket p = (tt = WEBSOCKET_TASK) \<and>
       (\<exists>i < m_connects (server_obj w). p = Some (class_of tt, i) \<and> i \<notin> free_conns w')"
    if "mgr_find gid (mgr w') = Some (k, p)" for gid k p
  proof -
    have e: "mgr_abs (mgr w') gid = Some (k, p)" using that mgr_find_abs [OF m] by simp
    then obtain i where p: "p = Some (class_of tt, i)" using ow unfolding conn_owners_def typed_def by blast
    then have i: "i \<in> used (mgr_abs (mgr w'))" using e unfolding used_def by blast
    then have "i < m_connects (server_obj w)" "i \<notin> free_conns w'"
      using ow unfolding conn_owners_def by (metis Un_iff atLeastLessThan_iff, blast)
    with p tt show ?thesis
      by (cases tt) (simp_all add: is_http_def is_stream_def is_websocket_def has_class_def)
  qed
  with ow show ?thesis unfolding conn_owners_def by blast
qed

theorem registered_connections_typed_witness:
  "free_conns demo_running \<union> used (mgr_abs (mgr demo_running)) = {0..<4} \<and> one_conn (mgr_abs (mgr demo_running))"
  using registered_connections_typed
    [OF begin_ok_Min demo_fresh_ok(1) _ demo_running_start rtranclp.rtrancl_refl] demo_fresh_ok
  by simp

text \<open>A stop request ends the server: at the first turn that sees a new second the main loop stops the
  workers, runs the stop hook and returns, whatever else is pending. An error of \<open>epoll_wait\<close> other than
  an interruption makes such a request.\<close>

lemma stop_request_ends_loop:
  assumes "now_seconds t \<noteq> lastest_tick_time w"
  shows "(is_stop (server_obj w) \<longrightarrow> (\<exists>w'.
       handle_loop set_begin os ssl ctl on_new on_tick app_stop (t # ts) w = Some (False, stop_run app_stop (server_obj w) w') \<and>
       server_obj w' = server_obj w \<and> workers (disp w') = map worker_stop (workers (disp w)))) \<and>
     (\<not> is_stop (server_obj w) \<and> num t < 0 \<and> wait_errno t \<noteq> EINTR \<longrightarrow> (\<exists>w'.
       handle_turn set_begin os ssl ctl on_new tick t w = Some (True, w') \<and> is_stop (server_obj w')))"
proof -
  obtain r w1 where u: "update_wait_remove ctl {} w = (r, w1)" by fastforce
  note f = update_wait_remove_frame [OF u]
  show ?thesis
    using assms u f
    by (auto simp: handle_turn_def is_stop_def on_stop_def worker_pool_stop_def to_stop_def Let_def split: prod.splits)
qed

text \<open>
  A turn in the second of the last tick does not look at the request; it keeps it, as long as the hooks do not clear
  it (nothing in the program does, outside the constructor of the server).
\<close>

definition stopping :: "nat \<Rightarrow> world \<Rightarrow> bool" where
  "stopping s w \<longleftrightarrow> is_stop (server_obj w) \<and> lastest_tick_time w = s"

definition keeps_stop :: "('a \<Rightarrow> world \<Rightarrow> unit res \<times> world) \<Rightarrow> bool" where
  "keeps_stop hook \<longleftrightarrow> (\<forall>x w s. stopping s w \<longrightarrow> stopping s (snd (hook x w)))"

lemma world_do_task_stopping: "world_do_task set_begin gid r sd w = Some w' \<Longrightarrow> stopping s w' = stopping s w"
  by (auto simp: world_do_task_def stopping_def split: prod.splits dispatch.splits)

lemma push_wait_remove_stopping [simp]: "stopping s (push_wait_remove p w) = stopping s w"
  by (simp add: push_wait_remove_def stopping_def split: option.split)

lemma stopping_update [simp]:
  "stopping s (w\<lparr>pools := a\<rparr>) = stopping s w" "stopping s (w\<lparr>mgr := b\<rparr>) = stopping s w"
  "stopping s (w\<lparr>conns := c\<rparr>) = stopping s w" "stopping s (w\<lparr>sockets := d\<rparr>) = stopping s w"
  "stopping s (w\<lparr>calls := e\<rparr>) = stopping s w" "stopping s (w\<lparr>m_epoll := f\<rparr>) = stopping s w"
  "stopping s (w\<lparr>socket_pool := g\<rparr>) = stopping s w" "stopping s (w\<lparr>gid_seq := h\<rparr>) = stopping s w"
  "stopping s (new_connection gid k cl i w) = stopping s w" "stopping s (new_socket os fd k w) = stopping s w"
  "stopping s (snd (handler_detach ctl k w)) = stopping s w" "stopping s (snd (alloc_socket set_begin w)) = stopping s w"
  by (auto simp: stopping_def new_connection_def new_socket_def handler_detach_def alloc_socket_def Let_def
      split: prod.splits alloc.splits)

lemma accept_register_stopping:
  assumes "keeps_stop on_new" "stopping s w" "accept_register set_begin on_new gid k w = Some (go, w')"
  shows "stopping s w'"
proof -
  have hook: "stopping s v" if "mgr_on_new_connection on_new gid m u = Some v" "stopping s u" for m u v
    using assms(1) that
    by (auto simp: mgr_on_new_connection_def mgr_if_exist_def safe_mapping_if_exist_def keeps_stop_def
        split: option.splits if_splits)
  show ?thesis
    using assms(2,3)
    by (auto simp: accept_register_def Let_def world_do_task_stopping dest: hook
        split: prod.splits option.splits bool.splits if_splits)
qed

lemma accept_one_stopping:
  assumes "keeps_stop on_new" "stopping s w" "accept_one set_begin os ssl on_new fd w = Some (go, w')"
  shows "stopping s w'"
proof -
  obtain ko w1 where a: "alloc_socket set_begin w = (ko, w1)" by fastforce
  then have "stopping s w1" using assms(2) stopping_update(12) by (metis snd_conv)
  then show ?thesis
    using assms(2,3) a
    by (auto simp: accept_one_def Let_def dest: accept_register_stopping [OF assms(1), rotated]
        split: if_splits option.splits prod.splits)
qed

lemma accept_loop_stopping:
  "keeps_stop on_new \<Longrightarrow> stopping s w \<Longrightarrow> accept_loop set_begin os ssl on_new n fds w = Some w' \<Longrightarrow> stopping s w'"
  by (induction set_begin os ssl on_new n fds w rule: accept_loop.induct)
    (auto dest: accept_one_stopping split: option.splits prod.splits bool.splits)

lemma connection_event_stopping:
  "stopping s w \<Longrightarrow> connection_event set_begin ctl k ev w = Some w' \<Longrightarrow> stopping s w'"
  by (auto simp: connection_event_def world_mark_close_def conn_mark_close_def Let_def world_do_task_stopping
      split: if_splits option.splits prod.splits list.splits request.splits)

lemma process_events_stopping:
  "keeps_stop on_new \<Longrightarrow> stopping s w \<Longrightarrow> process_events set_begin os ssl ctl on_new removed fds evs w = Some w' \<Longrightarrow>
   stopping s w'"
proof (induction evs arbitrary: w)
  case (Cons e evs)
  then show ?case
    by (cases e; cases "fst e")
      (auto dest: accept_loop_stopping connection_event_stopping split: option.splits if_splits)
qed simp

lemma handle_turn_stopping:
  assumes "keeps_stop on_new" "\<And>w. stopping s w \<Longrightarrow> stopping s (tick w)" "stopping s w" "now_seconds t = s"
    "handle_turn set_begin os ssl ctl on_new tick t w = Some (go, w')"
  shows "go \<and> stopping s w'"
proof -
  obtain r w1 where u: "update_wait_remove ctl {} w = (r, w1)" by fastforce
  have w1: "stopping s w1" using update_wait_remove_frame [OF u] assms(3) by (simp add: stopping_def)
  then have c: "clock_update (now_seconds t) w1 = w1" "lastest_tick_time w1 = now_seconds t"
    using assms(4) by (simp_all add: clock_update_def stopping_def)
  have "stopping s (v\<lparr>server_obj := to_stop (server_obj v)\<rparr>)" if "stopping s v" for v
    using that by (simp add: stopping_def is_stop_def to_stop_def)
  then show ?thesis
    using assms(5) u c assms(2) [OF w1]
    by (auto simp: handle_turn_def Let_def dest: process_events_stopping [OF assms(1), rotated] split: if_splits)
qed

lemma handle_loop_stopping:
  assumes "keeps_stop on_new" "keeps_stop on_tick" "stopping s w" "\<forall>u \<in> set us. now_seconds u = s"
    "handle_loop set_begin os ssl ctl on_new on_tick app_stop us w \<noteq> None"
  shows "\<exists>w1. stopping s w1 \<and> (\<forall>ts. handle_loop set_begin os ssl ctl on_new on_tick app_stop (us @ ts) w =
      handle_loop set_begin os ssl ctl on_new on_tick app_stop ts w1)"
  using assms(3-5)
proof (induction us arbitrary: w)
  case (Cons u us)
  have tick: "stopping s (tick_run on_tick (server_obj v) v)" if "stopping s v" for v
    using that assms(2) by (auto simp: tick_run_def keeps_stop_def split: task_type.split)
  from Cons.prems(3) obtain go w1 where
    t: "handle_turn set_begin os ssl ctl on_new (\<lambda>w. tick_run on_tick (server_obj w) w) u w = Some (go, w1)"
    by (fastforce split: option.splits)
  have "go \<and> stopping s w1" by (rule handle_turn_stopping [OF assms(1) tick Cons.prems(1) _ t]) (use Cons.prems in auto)
  with Cons t show ?case by auto
qed auto

definition demo_turn :: turn where
  "demo_turn = \<lparr>num = 0, wait_errno = 0, events = [], now_seconds = 101, accepted = []\<rparr>"

lemma inifile_get_frame: "fst (inifile_get s' k' (snd (inifile_get s k m))) = fst (inifile_get s' k' m)"
proof -
  obtain kvs m1 where 1: "map_at [] s m = (kvs, m1)" by fastforce
  obtain v kvs' where 2: "map_at [] k kvs = (v, kvs')" by fastforce
  have kvs: "kvs = (case map_find s m of None \<Rightarrow> [] | Some x \<Rightarrow> x)"
    using 1 by (auto simp: map_at_def split: option.splits)
  have f1: "map_find x m1 = (if x = s \<and> map_find s m = None then Some [] else map_find x m)" for x
    using map_at_frame [of x "[]" s m] 1 by simp
  have f2: "map_find x kvs' = (if x = k \<and> map_find k kvs = None then Some [] else map_find x kvs)" for x
    using map_at_frame [of x "[]" k kvs] 2 by simp
  have "snd (inifile_get s k m) = map_put s kvs' m1" using 1 2 by (simp add: inifile_get_def)
  then show ?thesis
    by (auto simp: inifile_get_value f1 f2 kvs map_find_nil split: option.splits)
qed

text \<open>C37: how the configuration reaches the server. Every setting of the section \<open>server\<close> lands in the field
  of its name, but for two: \<open>system::init\<close> passes \<open>accept_per_tick\<close> and \<open>wait_time\<close> to
  \<open>server::config\<close> in the wrong order, so the file's \<open>accept_per_tick\<close> becomes the timeout of the event
  loop and its \<open>wait_time\<close> the number of accepts per turn.\<close>

theorem settings_swapped:
  "read_settings ini sv = (let setting = (\<lambda>k. fst (inifile_get ''server'' k ini)); number = (\<lambda>k. value_to_int (setting k)) in
     sv\<lparr>sv_ip := setting ''ip'', sv_port := number ''port'', m_threads := size_of_int (number ''threads''),
        m_connects := size_of_int (number ''max_conn''), sv_wait_time := size_of_int (number ''accept_per_tick''),
        m_accept_per_tick := size_of_int (number ''wait_time''), m_task_type := setting ''task_type'',
        m_http_static_dir := setting ''http_static_dir'', m_lua_dir := setting ''lua_dir'',
        m_daemon := (number ''daemon'' \<noteq> 0), m_use_ssl := (number ''use_ssl'' \<noteq> 0),
        m_crt_pem := setting ''crt.pem'', m_key_pem := setting ''key.pem''\<rparr>)"
  unfolding read_settings_def configure_server_def server_config_def Let_def prod.case_eq_if inifile_get_frame by simp

end
