(* ===== verification/Tk_Log.thy ===== *)
theory Tk_Log
  imports Tk_Prelude Tk_Text
begin

section \<open>The logger (external/tubekit-log/logger.cpp)\<close>

text \<open>
  One file is open for appending. A message is one line: the time, the level, the place in the source and the formatted
  text. \<open>printf\<close> formatting of the message is done by the caller, here the text is given; the file system is the content of each
  file. Both the failure to open a file and a message without an open file end the process.

  The theory shows what a line is, that messages only append and keep their order, and that the time of a line names the
  month twice because of the conversion \<open>%D\<close>.
\<close>

datatype log_flag = LOG_DEBUG | LOG_INFO | LOG_WARN | LOG_ERROR | LOG_FATAL

fun s_flag :: "log_flag \<Rightarrow> string" where
  "s_flag LOG_DEBUG = ''DEBUG''"
| "s_flag LOG_INFO = ''INFO''"
| "s_flag LOG_WARN = ''WARN''"
| "s_flag LOG_ERROR = ''ERROR''"
| "s_flag LOG_FATAL = ''FATAL''"

record logger =
  m_fp :: "string option"
  log_files :: "string \<Rightarrow> string"

datatype 'a log_result = Log_exit | Log_done 'a

definition logger_new :: "(string \<Rightarrow> string) \<Rightarrow> logger" where
  "logger_new disk = \<lparr>m_fp = None, log_files = disk\<rparr>"

definition logger_close :: "logger \<Rightarrow> logger" where
  "logger_close l = (if m_fp l \<noteq> None then l\<lparr>m_fp := None\<rparr> else l)"

definition logger_open :: "(string \<Rightarrow> bool) \<Rightarrow> string \<Rightarrow> logger \<Rightarrow> logger log_result" where
  "logger_open fopen_ok path l =
     (let l = logger_close l in if \<not> fopen_ok path then Log_exit else Log_done (l\<lparr>m_fp := Some path\<rparr>))"

text \<open>\<open>strftime\<close> with the format \<open>%Y-%m-%D %H:%M:%S  \<close>; \<open>%D\<close> is \<open>%m/%d/%y\<close>.\<close>

definition strftime_D :: "tm \<Rightarrow> string" where
  "strftime_D t = two_digits (tm_mon t + 1) @ ''/'' @ two_digits (tm_mday t) @ ''/'' @ two_digits (tm_year t mod 100)"

definition log_time :: "tm \<Rightarrow> string" where
  "log_time t =
     to_string (tm_year t + 1900) @ ''-'' @ two_digits (tm_mon t + 1) @ ''-'' @ strftime_D t @ '' '' @
     two_digits (tm_hour t) @ '':'' @ two_digits (tm_min t) @ '':'' @ two_digits (tm_sec t) @ ''  ''"

definition log_line :: "tm \<Rightarrow> log_flag \<Rightarrow> string \<Rightarrow> int \<Rightarrow> string \<Rightarrow> string" where
  "log_line now f src line msg =
     log_time now @ ''  '' @ s_flag f @ ''  '' @ src @ '':'' @ to_string line @ ''  '' @ msg @ [CHR 0x0D, CHR 0x0A]"

definition logger_log :: "tm \<Rightarrow> log_flag \<Rightarrow> string \<Rightarrow> int \<Rightarrow> string \<Rightarrow> logger \<Rightarrow> logger log_result" where
  "logger_log now f src line msg l =
     (case m_fp l of
        None \<Rightarrow> Log_exit
      | Some path \<Rightarrow> Log_done (l\<lparr>log_files := (log_files l)(path := log_files l path @ log_line now f src line msg)\<rparr>))"

definition log_debug :: "tm \<Rightarrow> string \<Rightarrow> int \<Rightarrow> string \<Rightarrow> logger \<Rightarrow> logger log_result" where
  "log_debug now = logger_log now LOG_DEBUG"

definition log_info :: "tm \<Rightarrow> string \<Rightarrow> int \<Rightarrow> string \<Rightarrow> logger \<Rightarrow> logger log_result" where
  "log_info now = logger_log now LOG_INFO"

definition log_warn :: "tm \<Rightarrow> string \<Rightarrow> int \<Rightarrow> string \<Rightarrow> logger \<Rightarrow> logger log_result" where
  "log_warn now = logger_log now LOG_WARN"

definition log_error :: "tm \<Rightarrow> string \<Rightarrow> int \<Rightarrow> string \<Rightarrow> logger \<Rightarrow> logger log_result" where
  "log_error now = logger_log now LOG_ERROR"

definition log_fatal :: "tm \<Rightarrow> string \<Rightarrow> int \<Rightarrow> string \<Rightarrow> logger \<Rightarrow> logger log_result" where
  "log_fatal now = logger_log now LOG_FATAL"

subsection \<open>Facts\<close>

fun log_all :: "(tm \<times> log_flag \<times> string \<times> int \<times> string) list \<Rightarrow> logger \<Rightarrow> logger log_result" where
  "log_all [] l = Log_done l"
| "log_all ((now, f, src, line, msg) # ms) l =
     (case logger_log now f src line msg l of Log_exit \<Rightarrow> Log_exit | Log_done l \<Rightarrow> log_all ms l)"

lemma log_all_appends:
  assumes "m_fp l = Some path"
  shows "log_all ms l =
    Log_done (l\<lparr>log_files := (log_files l)(path := log_files l path @ concat (map (\<lambda>(now, f, src, line, msg). log_line now f src line msg) ms))\<rparr>)"
  using assms by (induction ms l rule: log_all.induct) (auto simp: logger_log_def)

lemma log_without_file: "m_fp l = None \<Longrightarrow> logger_log now f src line msg l = Log_exit"
  by (simp add: logger_log_def)

lemma logger_reopen:
  assumes "logger_open fopen_ok path l = Log_done l'"
  shows "m_fp l' = Some path" "log_files l' = log_files l"
  using assms by (auto simp: logger_open_def logger_close_def Let_def split: if_splits)

text \<open>The 14th of May 2023 is printed with the month and the year twice.\<close>

lemma log_time_repeats_month:
  "log_time \<lparr>tm_year = 123, tm_mon = 4, tm_mday = 14, tm_hour = 9, tm_min = 5, tm_sec = 0\<rparr> = ''2023-05-05/14/23 09:05:00  ''"
  by code_simp

end
