(* ===== verification/Tk_Json.thy ===== *)
theory Tk_Json
  imports Tk_Prelude Tk_Text Tk_Omap
begin

section \<open>JSON values, printer and parser (external/tubekit-json)\<close>

text \<open>
  A \<open>json\<close> object has a type tag and one member per type; every method keeps the members of the other
  types at their defaults (\<open>clear\<close> resets all of them, assignments clear first), so the object is the
  tagged value below. Floating point numbers are a type \<open>'d\<close> with the conversions \<open>atof\<close> and
  \<open>operator<<\<close> of the standard library as parameters. A parser works on the rest of its string from
  \<open>m_idx\<close> on; \<open>m_idx--\<close> puts the character back.

  The theory shows that the parser returns on every input, that what it builds is well formed and that
  printing and parsing are inverse. The comparison operator and assignment to itself are
  shown to lose arrays and objects.
\<close>

subsection \<open>Values\<close>

datatype json_type = json_null | json_bool | json_integer | json_double | json_string | json_array | json_object

datatype 'd json =
    J_null
  | J_bool bool
  | J_integer int
  | J_double 'd
  | J_string string
  | J_array "'d json list"
  | J_object "(string \<times> 'd json) list"

fun json_type_of :: "'d json \<Rightarrow> json_type" where
  "json_type_of J_null = json_null"
| "json_type_of (J_bool _) = json_bool"
| "json_type_of (J_integer _) = json_integer"
| "json_type_of (J_double _) = json_double"
| "json_type_of (J_string _) = json_string"
| "json_type_of (J_array _) = json_array"
| "json_type_of (J_object _) = json_object"

fun json_new :: "json_type \<Rightarrow> 'd :: zero json" where
  "json_new json_null = J_null"
| "json_new json_bool = J_bool False"
| "json_new json_integer = J_integer 0"
| "json_new json_double = J_double 0"
| "json_new json_string = J_string []"
| "json_new json_array = J_array []"
| "json_new json_object = J_object []"

definition as_bool :: "'d json \<Rightarrow> bool res" where
  "as_bool j = (case j of J_bool b \<Rightarrow> Inr b | _ \<Rightarrow> Inl (Logic_error ''function json::as_bool value type error''))"

definition as_integer :: "'d json \<Rightarrow> int res" where
  "as_integer j = (case j of J_integer i \<Rightarrow> Inr i | _ \<Rightarrow> Inl (Logic_error ''function json::as_integet value type error''))"

definition as_double :: "'d json \<Rightarrow> 'd res" where
  "as_double j = (case j of J_double d \<Rightarrow> Inr d | _ \<Rightarrow> Inl (Logic_error ''function json::as_double value type error''))"

definition as_string :: "'d json \<Rightarrow> string res" where
  "as_string j = (case j of J_string s \<Rightarrow> Inr s | _ \<Rightarrow> Inl (Logic_error ''function json::as_string value type error''))"

definition json_size :: "'d json \<Rightarrow> nat res" where
  "json_size j =
     (case j of J_array js \<Rightarrow> Inr (length js) | J_object kvs \<Rightarrow> Inr (length kvs)
      | _ \<Rightarrow> Inl (Logic_error ''function json::size value type error''))"

definition json_empty :: "'d json \<Rightarrow> bool res" where
  "json_empty j =
     (case j of J_null \<Rightarrow> Inr True | J_array js \<Rightarrow> Inr (js = []) | J_object kvs \<Rightarrow> Inr (kvs = [])
      | _ \<Rightarrow> Inl (Logic_error ''function json::empty value type error''))"

text \<open>\<open>clear\<close> keeps the tag.\<close>

definition json_clear :: "'d :: zero json \<Rightarrow> 'd json" where
  "json_clear j = json_new (json_type_of j)"

text \<open>
  \<open>copy\<close> clears the object before it reads the other one; \<open>same\<close> says that the two are the same object.
\<close>

definition json_copy :: "bool \<Rightarrow> 'd :: zero json \<Rightarrow> 'd json \<Rightarrow> 'd json" where
  "json_copy same other j = (if same then json_clear j else other)"

definition json_remove_index :: "nat \<Rightarrow> 'd json \<Rightarrow> bool \<times> 'd json" where
  "json_remove_index i j =
     (case j of
        J_array js \<Rightarrow> if length js \<le> i then (False, j) else (True, J_array (take i js @ drop (Suc i) js))
      | _ \<Rightarrow> (False, j))"

definition json_remove_key :: "string \<Rightarrow> 'd json \<Rightarrow> bool \<times> 'd json" where
  "json_remove_key k j =
     (case j of
        J_object kvs \<Rightarrow> if map_find k kvs = None then (False, j) else (True, J_object (map_erase k kvs))
      | _ \<Rightarrow> (False, j))"

definition json_has_index :: "nat \<Rightarrow> 'd json \<Rightarrow> bool" where
  "json_has_index i j = (case j of J_array js \<Rightarrow> i < length js | _ \<Rightarrow> False)"

definition json_has_key :: "string \<Rightarrow> 'd json \<Rightarrow> bool" where
  "json_has_key k j = (case j of J_object kvs \<Rightarrow> map_find k kvs \<noteq> None | _ \<Rightarrow> False)"

definition json_get_index :: "nat \<Rightarrow> 'd json \<Rightarrow> 'd json res" where
  "json_get_index i j =
     (case j of
        J_array js \<Rightarrow> Inr (if i < length js then js ! i else J_null)
      | _ \<Rightarrow> Inl (Logic_error ''function json::get [int] requires array value''))"

definition json_get_key :: "string \<Rightarrow> 'd json \<Rightarrow> 'd json res" where
  "json_get_key k j =
     (case j of
        J_object kvs \<Rightarrow> Inr (case map_find k kvs of Some v \<Rightarrow> v | None \<Rightarrow> J_null)
      | _ \<Rightarrow> Inl (Logic_error ''function json::get [const string&] requires object value''))"

definition json_append :: "'d json \<Rightarrow> 'd json \<Rightarrow> 'd json res" where
  "json_append v j =
     (case j of
        J_null \<Rightarrow> Inr (J_array [v])
      | J_array js \<Rightarrow> Inr (J_array (js @ [v]))
      | _ \<Rightarrow> Inl (Logic_error ''function json::append requires array value''))"

text \<open>
  Access through \<open>operator[]\<close> makes room for the element; the result is a reference to it, here the
  object with room, the value of the element, and an assignment through the reference.
\<close>

definition json_at_index :: "nat \<Rightarrow> 'd json \<Rightarrow> ('d json \<times> 'd json) res" where
  "json_at_index i j =
     (case (case j of J_null \<Rightarrow> J_array [] | _ \<Rightarrow> j) of
        J_array js \<Rightarrow>
          (let js = (if length js \<le> i then js @ replicate (Suc i - length js) J_null else js) in
           Inr (js ! i, J_array js))
      | _ \<Rightarrow> Inl (Logic_error ''function json::operator [int] requires array value''))"

definition json_at_key :: "string \<Rightarrow> 'd json \<Rightarrow> ('d json \<times> 'd json) res" where
  "json_at_key k j =
     (case (case j of J_null \<Rightarrow> J_object [] | _ \<Rightarrow> j) of
        J_object kvs \<Rightarrow> (case map_at J_null k kvs of (v, kvs) \<Rightarrow> Inr (v, J_object kvs))
      | _ \<Rightarrow> Inl (Logic_error ''function json::operator [const std::string&] requires object value''))"

definition json_assign_index :: "nat \<Rightarrow> 'd json \<Rightarrow> 'd json \<Rightarrow> 'd json res" where
  "json_assign_index i v j =
     (case json_at_index i j of
        Inr (_, J_array js) \<Rightarrow> Inr (J_array (js[i := v])) | Inr (_, j) \<Rightarrow> Inr j | Inl e \<Rightarrow> Inl e)"

definition json_assign_key :: "string \<Rightarrow> 'd json \<Rightarrow> 'd json \<Rightarrow> 'd json res" where
  "json_assign_key k v j =
     (case json_at_key k j of
        Inr (_, J_object kvs) \<Rightarrow> Inr (J_object (map_put k v kvs)) | Inr (_, j) \<Rightarrow> Inr j | Inl e \<Rightarrow> Inl e)"

text \<open>\<open>operator==\<close>; \<open>deq\<close> compares floating point numbers.\<close>

definition json_eq :: "('d \<Rightarrow> 'd \<Rightarrow> bool) \<Rightarrow> 'd json \<Rightarrow> 'd json \<Rightarrow> bool" where
  "json_eq deq a b =
     (if json_type_of a \<noteq> json_type_of b then False
      else (case (a, b) of
              (J_array _, _) \<Rightarrow> False
            | (J_bool x, J_bool y) \<Rightarrow> x = y
            | (J_double x, J_double y) \<Rightarrow> deq x y
            | (J_integer x, J_integer y) \<Rightarrow> x = y
            | (J_null, _) \<Rightarrow> True
            | (J_object _, _) \<Rightarrow> False
            | (J_string x, J_string y) \<Rightarrow> x = y
            | _ \<Rightarrow> False))"

subsection \<open>The printer\<close>

fun commas :: "string list \<Rightarrow> string" where
  "commas [] = []"
| "commas [x] = x"
| "commas (x # y # xs) = x @ '','' @ commas (y # xs)"

primrec json_to_string :: "('d \<Rightarrow> string) \<Rightarrow> 'd json \<Rightarrow> string" where
  "json_to_string sd J_null = ''null''"
| "json_to_string sd (J_bool b) = (if b then ''true'' else ''false'')"
| "json_to_string sd (J_integer i) = to_string i"
| "json_to_string sd (J_double d) = sd d"
| "json_to_string sd (J_string s) = quoted s"
| "json_to_string sd (J_array js) = ''['' @ commas (map (json_to_string sd) js) @ '']''"
| "json_to_string sd (J_object kvs) =
     ''{'' @ commas (map (\<lambda>(k, s). quoted k @ '':'' @ s) (map (map_prod id (json_to_string sd)) kvs)) @ ''}''"

subsection \<open>The parser\<close>

definition get_next_token :: "string \<Rightarrow> (char \<times> string) res" where
  "get_next_token s =
     (case skip_white_spaces s of [] \<Rightarrow> Inl (Logic_error ''unexpected end of input'') | c # r \<Rightarrow> Inr (c, r))"

definition parse_null :: "string \<Rightarrow> ('d json \<times> string) res" where
  "parse_null s = (if take 4 s = ''null'' then Inr (J_null, drop 4 s) else Inl (Logic_error ''parse null error''))"

definition parse_bool :: "string \<Rightarrow> ('d json \<times> string) res" where
  "parse_bool s =
     (if take 4 s = ''true'' then Inr (J_bool True, drop 4 s)
      else if take 5 s = ''false'' then Inr (J_bool False, drop 5 s)
      else Inl (Logic_error ''parse bool error''))"

fun parse_string :: "string \<Rightarrow> string \<Rightarrow> (string \<times> string) res" where
  "parse_string out [] = Inl (Logic_error ''unexpected end of input in string'')"
| "parse_string out (ch # s) =
     (if ch = CHR 0x22 then Inr (out, s)
      else if ch \<noteq> CHR 0x5C then parse_string (out @ [ch]) s
      else Inl (Logic_error ''not support escaped characters in string''))"

text \<open>\<open>atoll\<close> is \<open>strtoll\<close> in base 10, which clamps to the range of \<open>long long\<close>.\<close>

definition atoll :: "string \<Rightarrow> int" where
  "atoll s = max (- (2 ^ 63)) (min (2 ^ 63 - 1) (atoi s))"

definition integer_part :: "string \<Rightarrow> string res" where
  "integer_part s =
     (if cur s = CHR ''0''
      then (if char_isdigit (cur (tl s)) then Inl (Logic_error ''leading 0s not permitted in numbers'') else Inr (tl s))
      else if char_isdigit (cur s) then Inr (dropWhile char_isdigit (tl s))
      else Inl (Logic_error ''invalid character in number''))"

definition parse_number :: "(string \<Rightarrow> 'd) \<Rightarrow> string \<Rightarrow> ('d json \<times> string) res" where
  "parse_number atof s =
     (case integer_part (if cur s = CHR ''-'' then tl s else s) of
        Inl e \<Rightarrow> Inl e
      | Inr r \<Rightarrow>
          if cur r = CHR ''.''
          then (if \<not> char_isdigit (cur (tl r)) then Inl (Logic_error ''at least one digit required in fractional part'')
                else Inr (J_double (atof s), dropWhile char_isdigit (tl r)))
          else Inr (J_integer (atoll s), r))"

text \<open>
  \<open>parse\<close> with its two loops; the fuel bounds the depth of the calls, and running out of it is
  \<open>None\<close>.
\<close>

fun json_value :: "(string \<Rightarrow> 'd) \<Rightarrow> nat \<Rightarrow> string \<Rightarrow> ('d json \<times> string) res option"
  and json_elems :: "(string \<Rightarrow> 'd) \<Rightarrow> nat \<Rightarrow> 'd json list \<Rightarrow> string \<Rightarrow> ('d json \<times> string) res option"
  and json_members :: "(string \<Rightarrow> 'd) \<Rightarrow> nat \<Rightarrow> (string \<times> 'd json) list \<Rightarrow> char \<Rightarrow> string \<Rightarrow> ('d json \<times> string) res option"
where
  "json_value atof 0 s = None"
| "json_value atof (Suc n) s =
     (case get_next_token s of
        Inl e \<Rightarrow> Some (Inl e)
      | Inr (ch, r) \<Rightarrow>
          if ch = CHR ''n'' then Some (parse_null (ch # r))
          else if ch = CHR ''t'' \<or> ch = CHR ''f'' then Some (parse_bool (ch # r))
          else if ch = CHR ''-'' \<or> char_isdigit ch then Some (parse_number atof (ch # r))
          else if ch = CHR 0x22
          then Some (case parse_string [] r of Inl e \<Rightarrow> Inl e | Inr (out, r) \<Rightarrow> Inr (J_string out, r))
          else if ch = CHR ''[''
          then (case get_next_token r of
                  Inl e \<Rightarrow> Some (Inl e)
                | Inr (ch, r) \<Rightarrow> if ch = CHR '']'' then Some (Inr (J_array [], r)) else json_elems atof n [] (ch # r))
          else if ch = CHR ''{''
          then (case get_next_token r of
                  Inl e \<Rightarrow> Some (Inl e)
                | Inr (ch, r) \<Rightarrow> if ch = CHR ''}'' then Some (Inr (J_object [], r)) else json_members atof n [] ch r)
          else Some (Inl (Logic_error ''unexpected character in parse json'')))"
| "json_elems atof 0 arr s = None"
| "json_elems atof (Suc n) arr s =
     (case json_value atof n s of
        None \<Rightarrow> None
      | Some (Inl e) \<Rightarrow> Some (Inl e)
      | Some (Inr (v, r)) \<Rightarrow>
          (case get_next_token r of
             Inl e \<Rightarrow> Some (Inl e)
           | Inr (ch, r) \<Rightarrow>
               if ch = CHR '']'' then Some (Inr (J_array (arr @ [v]), r))
               else if ch \<noteq> CHR '','' then Some (Inl (Logic_error ''expected ',' in array''))
               else (case get_next_token r of
                       Inl e \<Rightarrow> Some (Inl e)
                     | Inr (ch, r) \<Rightarrow> json_elems atof n (arr @ [v]) (ch # r))))"
| "json_members atof 0 obj ch s = None"
| "json_members atof (Suc n) obj ch s =
     (if ch \<noteq> CHR 0x22 then Some (Inl (Logic_error (''expected '' @ [CHR 0x27, CHR 0x22, CHR 0x27] @ '' in object'')))
      else (case parse_string [] s of
              Inl e \<Rightarrow> Some (Inl e)
            | Inr (key, r) \<Rightarrow>
                (case get_next_token r of
                   Inl e \<Rightarrow> Some (Inl e)
                 | Inr (ch, r) \<Rightarrow>
                     if ch \<noteq> CHR '':'' then Some (Inl (Logic_error ''expected ':' in object''))
                     else (case json_value atof n r of
                             None \<Rightarrow> None
                           | Some (Inl e) \<Rightarrow> Some (Inl e)
                           | Some (Inr (v, r)) \<Rightarrow>
                               (case get_next_token r of
                                  Inl e \<Rightarrow> Some (Inl e)
                                | Inr (ch, r) \<Rightarrow>
                                    if ch = CHR ''}'' then Some (Inr (J_object (map_put key v obj), r))
                                    else if ch \<noteq> CHR '','' then Some (Inl (Logic_error ''expected ',' in object''))
                                    else (case get_next_token r of
                                            Inl e \<Rightarrow> Some (Inl e)
                                          | Inr (ch, r) \<Rightarrow> json_members atof n (map_put key v obj) ch r))))))"

definition json_parse :: "(string \<Rightarrow> 'd) \<Rightarrow> string \<Rightarrow> ('d json \<times> string) res option" where
  "json_parse atof str = json_value atof (2 * length str + 1) str"

subsection \<open>The parser consumes input and builds well-formed values\<close>

definition text_ok :: "string \<Rightarrow> bool" where
  "text_ok s \<longleftrightarrow> CHR 0x22 \<notin> set s \<and> CHR 0x5C \<notin> set s"

primrec json_wf :: "'d json \<Rightarrow> bool" where
  "json_wf J_null = True"
| "json_wf (J_bool b) = True"
| "json_wf (J_integer i) = (- (2 ^ 63) \<le> i \<and> i < 2 ^ 63)"
| "json_wf (J_double d) = True"
| "json_wf (J_string s) = text_ok s"
| "json_wf (J_array js) = list_all id (map json_wf js)"
| "json_wf (J_object kvs) = (omap_ok kvs \<and> list_all (\<lambda>(k, ok). text_ok k \<and> ok) (map (map_prod id json_wf) kvs))"

lemma json_wf_array: "json_wf (J_array js) \<longleftrightarrow> (\<forall>j \<in> set js. json_wf j)"
  by (auto simp: list_all_iff)

lemma json_wf_object: "json_wf (J_object kvs) \<longleftrightarrow> omap_ok kvs \<and> (\<forall>(k, v) \<in> set kvs. text_ok k \<and> json_wf v)"
  by (auto simp: list_all_iff)

declare json_wf.simps(6,7) [simp del]

lemma get_next_token_shrinks: "get_next_token s = Inr (c, r) \<Longrightarrow> length r < length s"
  using length_dropWhile_le [of json_space s] by (auto simp: get_next_token_def skip_white_spaces_def split: list.splits)

lemma parse_string_shrinks: "parse_string out s = Inr (t, r) \<Longrightarrow> length r < length s"
  by (induction out s rule: parse_string.induct) (auto split: if_splits)

lemma parse_string_ok: "parse_string out s = Inr (t, r) \<Longrightarrow> text_ok out \<Longrightarrow> text_ok t"
  by (induction out s rule: parse_string.induct) (auto simp: text_ok_def split: if_splits)

lemma integer_part_shrinks: "integer_part s = Inr r \<Longrightarrow> length r < length s"
  using length_dropWhile_le [of char_isdigit "tl s"]
  by (cases s) (auto simp: integer_part_def char_isdigit_def split: if_splits)

lemma parse_number_result:
  "parse_number atof (c # s) = Inr (v, r) \<Longrightarrow> length r \<le> length s \<and> json_wf v"
  using length_dropWhile_le [of char_isdigit] integer_part_shrinks
  by (fastforce simp: parse_number_def atoll_def split: if_splits sum.splits dest: integer_part_shrinks intro: order_trans)

lemma json_wf_put:
  assumes "json_wf (J_object obj)" "text_ok k" "json_wf v"
  shows "json_wf (J_object (map_put k v obj))"
proof -
  have "set (map_put k v obj) \<subseteq> insert (k, v) (set obj)"
    by (induction k v obj rule: map_put.induct) auto
  with assms show ?thesis unfolding json_wf_object by fastforce
qed

text \<open>One call of each of the three functions, when the calls it makes behave.\<close>

definition good_result :: "nat \<Rightarrow> ('d json \<times> string) res option \<Rightarrow> bool" where
  "good_result n x \<longleftrightarrow> (\<exists>e. x = Some (Inl e)) \<or> (\<exists>v r. x = Some (Inr (v, r)) \<and> json_wf v \<and> length r < n)"

lemma good_result_simps [simp]:
  "good_result n (Some (Inl e))" "good_result n (Some (Inr (v, r))) \<longleftrightarrow> json_wf v \<and> length r < n" "\<not> good_result n None"
  by (auto simp: good_result_def)

lemma good_result_mono: "good_result m x \<Longrightarrow> m \<le> n \<Longrightarrow> good_result n x"
  by (auto simp: good_result_def)

lemma good_result_if: "good_result n a \<Longrightarrow> good_result n b \<Longrightarrow> good_result n (if c then a else b)"
  by simp

lemma json_value_step:
  assumes elems: "\<And>c r. length r + 2 \<le> length s \<Longrightarrow> good_result (length s) (json_elems atof n [] (c # r))"
    and members: "\<And>c r. length r + 2 \<le> length s \<Longrightarrow> good_result (length s) (json_members atof n [] c r)"
  shows "good_result (length s) (json_value atof (Suc n) s)"
proof (cases "get_next_token s")
  case (Inr cr)
  obtain ch r where cr: "cr = (ch, r)" by (cases cr)
  have r: "length r < length s" using Inr cr get_next_token_shrinks by simp
  have nested: "good_result (length s) (case get_next_token r of Inl e \<Rightarrow> Some (Inl e) | Inr (ch, r) \<Rightarrow> f ch r)"
    if "\<And>c r'. length r' + 2 \<le> length s \<Longrightarrow> good_result (length s) (f c r')" for f
    using that r get_next_token_shrinks [of r] by (fastforce split: sum.split prod.split)
  have null: "good_result (length s) (Some (parse_null (ch # r)))"
    using r by (auto simp: parse_null_def good_result_def)
  have bool: "good_result (length s) (Some (parse_bool (ch # r)))"
    using r by (auto simp: parse_bool_def good_result_def)
  have number: "good_result (length s) (Some (parse_number atof (ch # r)))"
    using r parse_number_result [of atof ch r] by (cases "parse_number atof (ch # r)") fastforce+
  have str: "good_result (length s) (Some (case parse_string [] r of Inl e \<Rightarrow> Inl e | Inr (out, r) \<Rightarrow> Inr (J_string out, r)))"
    using r parse_string_shrinks [of "[]" r] parse_string_ok [of "[]" r]
    by (fastforce simp: text_ok_def split: sum.split)
  have arr: "good_result (length s) (case get_next_token r of Inl e \<Rightarrow> Some (Inl e)
      | Inr (ch, r) \<Rightarrow> if ch = CHR '']'' then Some (Inr (J_array [], r)) else json_elems atof n [] (ch # r))"
    by (rule nested) (use elems in \<open>auto simp: json_wf_array\<close>)
  have obj: "good_result (length s) (case get_next_token r of Inl e \<Rightarrow> Some (Inl e)
      | Inr (ch, r) \<Rightarrow> if ch = CHR ''}'' then Some (Inr (J_object [], r)) else json_members atof n [] ch r)"
    by (rule nested) (use members in \<open>auto simp: json_wf_object omap_ok_def\<close>)
  show ?thesis unfolding json_value.simps Inr cr sum.case prod.case
    by (intro good_result_if null bool number str arr obj good_result_simps(1))
qed simp

lemma good_result_cases:
  assumes "good_result n x"
  obtains (thrown) e where "x = Some (Inl e)" | (built) v r where "x = Some (Inr (v, r))" "json_wf v" "length r < n"
  using assms by (auto simp: good_result_def)

lemma json_elems_step:
  assumes val: "good_result (length s) (json_value atof n s)"
    and elems: "\<And>c r v. json_wf v \<Longrightarrow> length r + 2 < length s \<Longrightarrow> good_result (length s) (json_elems atof n (arr @ [v]) (c # r))"
    and arr: "json_wf (J_array arr)"
  shows "good_result (length s) (json_elems atof (Suc n) arr s)"
  using val
proof (cases rule: good_result_cases)
  case (built v r)
  have a: "json_wf (J_array (arr @ [v]))" using arr built by (auto simp: json_wf_array)
  show ?thesis
  proof (cases "get_next_token r")
    case (Inr cr)
    obtain ch r1 where cr: "cr = (ch, r1)" by (cases cr)
    have r1: "length r1 < length r" using Inr cr get_next_token_shrinks by simp
    have rest: "good_result (length s) (case get_next_token r1 of Inl e \<Rightarrow> Some (Inl e) | Inr (ch, r) \<Rightarrow> json_elems atof n (arr @ [v]) (ch # r))"
      using get_next_token_shrinks [of r1] r1 built elems by (fastforce split: sum.split prod.split)
    show ?thesis
      unfolding json_elems.simps built Inr cr sum.case prod.case option.case
      by (intro good_result_if rest good_result_simps(1)) (use a r1 built in simp)
  qed (simp add: built)
qed simp

lemma json_members_step:
  assumes val: "\<And>r. length r + 2 \<le> length s \<Longrightarrow> good_result (length r) (json_value atof n r)"
    and members: "\<And>c r k v. text_ok k \<Longrightarrow> json_wf v \<Longrightarrow> length r + 2 \<le> length s \<Longrightarrow>
      good_result (length s) (json_members atof n (map_put k v obj) c r)"
    and obj: "json_wf (J_object obj)"
  shows "good_result (length s) (json_members atof (Suc n) obj ch s)"
proof (cases "parse_string [] s")
  case (Inr kr)
  obtain k r where kr: "kr = (k, r)" by (cases kr)
  have r: "length r < length s" "text_ok k"
    using Inr kr parse_string_shrinks parse_string_ok [of "[]" s k r] by (auto simp: text_ok_def)
  show ?thesis
  proof (cases "get_next_token r")
    case Inr': (Inr cr)
    obtain c r1 where cr: "cr = (c, r1)" by (cases cr)
    have r1: "length r1 < length r" using Inr' cr get_next_token_shrinks by simp
    have "good_result (length r1) (json_value atof n r1)" using val r r1 by simp
    then show ?thesis
    proof (cases rule: good_result_cases)
      case (built v r2)
      have put: "json_wf (J_object (map_put k v obj))"
        using obj r(2) built by (intro json_wf_put)
      show ?thesis
      proof (cases "get_next_token r2")
        case Inr'': (Inr cr')
        obtain c' r3 where cr': "cr' = (c', r3)" by (cases cr')
        have r3: "length r3 < length r2" using Inr'' cr' get_next_token_shrinks by simp
        have rest: "good_result (length s) (case get_next_token r3 of Inl e \<Rightarrow> Some (Inl e)
            | Inr (ch, r) \<Rightarrow> json_members atof n (map_put k v obj) ch r)"
          using get_next_token_shrinks [of r3] r r1 r3 built members by (fastforce split: sum.split prod.split)
        show ?thesis
          unfolding json_members.simps Inr kr Inr' cr built Inr'' cr' sum.case prod.case option.case
          by (intro good_result_if rest good_result_simps(1)) (use put r r1 r3 built in simp)
      qed (simp add: Inr kr Inr' cr built)
    qed (simp add: Inr kr Inr' cr)
  qed (simp add: Inr kr)
qed simp

lemma parser_returns:
  "2 * length s + 1 \<le> n \<Longrightarrow> good_result (length s) (json_value atof n s)"
  "2 * length s + 2 \<le> n \<Longrightarrow> json_wf (J_array arr) \<Longrightarrow> good_result (length s) (json_elems atof n arr s)"
  "2 * length s + 2 \<le> n \<Longrightarrow> json_wf (J_object obj) \<Longrightarrow> good_result (length s) (json_members atof n obj c s)"
proof (induction n arbitrary: s arr obj c)
  case (Suc n)
  { case 1
    show ?case
    proof (rule json_value_step)
      show "good_result (length s) (json_elems atof n [] (c # r))" if "length r + 2 \<le> length s" for c r
        by (rule good_result_mono [OF Suc.IH(2)]) (use that 1 in \<open>simp_all add: json_wf_array\<close>)
      show "good_result (length s) (json_members atof n [] c r)" if "length r + 2 \<le> length s" for c r
        by (rule good_result_mono [OF Suc.IH(3)]) (use that 1 in \<open>simp_all add: json_wf_object omap_ok_def\<close>)
    qed }
  { case 2
    show ?case
    proof (rule json_elems_step)
      show "good_result (length s) (json_value atof n s)" by (rule Suc.IH(1)) (use 2 in simp)
      show "good_result (length s) (json_elems atof n (arr @ [v]) (c # r))" if "json_wf v" "length r + 2 < length s" for c r v
        by (rule good_result_mono [OF Suc.IH(2)]) (use that 2 in \<open>auto simp: json_wf_array\<close>)
    qed (use 2 in simp) }
  { case 3
    show ?case
    proof (rule json_members_step)
      show "good_result (length r) (json_value atof n r)" if "length r + 2 \<le> length s" for r
        by (rule Suc.IH(1)) (use 3 that in simp)
      show "good_result (length s) (json_members atof n (map_put k v obj) c r)"
        if "text_ok k" "json_wf v" "length r + 2 \<le> length s" for c r k v
        by (rule good_result_mono [OF Suc.IH(3)]) (use that 3 in \<open>simp_all add: json_wf_put\<close>)
    qed (use 3 in simp) }
qed simp_all

subsection \<open>Parsing what was printed\<close>

primrec no_double :: "'d json \<Rightarrow> bool" where
  "no_double J_null = True"
| "no_double (J_bool b) = True"
| "no_double (J_integer i) = True"
| "no_double (J_double d) = False"
| "no_double (J_string s) = True"
| "no_double (J_array js) = list_all id (map no_double js)"
| "no_double (J_object kvs) = list_all snd (map (map_prod id no_double) kvs)"

definition stops :: "string \<Rightarrow> bool" where
  "stops s \<longleftrightarrow> \<not> char_isdigit (cur s) \<and> cur s \<noteq> CHR ''.''"

lemma next_token_Cons [simp]: "\<not> json_space c \<Longrightarrow> get_next_token (c # r) = Inr (c, r)"
  by (simp add: get_next_token_def skip_white_spaces_def)

lemma parse_string_quoted: "text_ok s \<Longrightarrow> parse_string out (s @ CHR 0x22 # rest) = Inr (out @ s, rest)"
  by (induction s arbitrary: out) (auto simp: text_ok_def)

lemma dec_digits_head: "0 < n \<Longrightarrow> cur (dec_digits n) \<noteq> CHR ''0''"
proof (induction n rule: dec_digits.induct)
  case (1 n)
  have z: "dec_char d \<noteq> CHR ''0''" if "0 < d" "d < 10" for d
    using dec_char_props(1) [OF that(2)] that by auto
  show ?case
  proof (cases "n < 10")
    case True
    then show ?thesis using 1 z by (subst dec_digits.simps) simp
  next
    case False
    obtain c cs where c: "dec_digits (n div 10) = c # cs" using dec_digits_ne by (metis list.exhaust)
    have "cur (dec_digits (n div 10)) \<noteq> CHR ''0''" using 1 False by simp
    then show ?thesis using False c by (subst dec_digits.simps) simp
  qed
qed

lemma dropWhile_digits:
  "(\<And>c. c \<in> set ds \<Longrightarrow> char_isdigit c) \<Longrightarrow> \<not> char_isdigit (cur rest) \<Longrightarrow> dropWhile char_isdigit (ds @ rest) = rest"
  by (induction ds) (auto, cases rest, auto)

lemma takeWhile_digits:
  "(\<And>c. c \<in> set ds \<Longrightarrow> char_isdigit c) \<Longrightarrow> \<not> char_isdigit (cur rest) \<Longrightarrow> takeWhile char_isdigit (ds @ rest) = ds"
  by (induction ds) (auto, cases rest, auto)

lemma zero_char: "char_of (48 :: nat) = CHR ''0''"
  by code_simp

lemma integer_part_digits:
  assumes "stops rest"
  shows "integer_part (dec_digits n @ rest) = Inr rest"
proof -
  obtain c cs where c: "dec_digits n = c # cs" using dec_digits_ne by (metis list.exhaust)
  have dig: "x \<in> set (c # cs) \<Longrightarrow> char_isdigit x" for x using dec_digits_isdigit c by metis
  show ?thesis
  proof (cases "n = 0")
    case True
    then have "dec_digits n = ''0''" by (subst dec_digits.simps) (simp add: dec_char_def zero_char)
    then show ?thesis using assms by (simp add: integer_part_def stops_def)
  next
    case False
    then have "c \<noteq> CHR ''0''" using dec_digits_head [of n] c by simp
    moreover have "dropWhile char_isdigit (cs @ rest) = rest"
      by (rule dropWhile_digits) (use dig assms in \<open>auto simp: stops_def\<close>)
    ultimately show ?thesis using dig by (simp add: integer_part_def c)
  qed
qed

lemma atoi_append:
  assumes "stops rest"
  shows "atoi (to_string i @ rest) = i"
proof -
  have d: "sign_of (dropWhile char_isspace (dec_digits n @ rest)) = (1, dec_digits n @ rest)" for n
  proof -
    obtain c cs where c: "dec_digits n = c # cs" using dec_digits_ne by (metis list.exhaust)
    then have "char_isdigit c" using dec_digits_isdigit [of c n] by simp
    from isdigit_neq [OF this] c show ?thesis by simp
  qed
  have t: "takeWhile char_isdigit (dec_digits n @ rest) = dec_digits n" for n
    by (rule takeWhile_digits) (use assms dec_digits_isdigit in \<open>auto simp: stops_def\<close>)
  have "\<not> char_isspace (CHR ''-'')" by (simp add: char_isspace_def)
  then show ?thesis using d t by (auto simp: to_string_def atoi_def)
qed

lemma parse_number_print:
  assumes "stops rest" "- (2 ^ 63) \<le> i" "i < 2 ^ 63"
  shows "parse_number atof (to_string i @ rest) = Inr (J_integer i, rest)"
proof -
  obtain c cs where c: "dec_digits (nat i) = c # cs" using dec_digits_ne by (metis list.exhaust)
  have "c \<noteq> CHR ''-''" using dec_digits_isdigit [of c "nat i"] c isdigit_neq(2) by simp
  then have "integer_part (if cur (to_string i @ rest) = CHR ''-'' then tl (to_string i @ rest) else to_string i @ rest) = Inr rest"
    using integer_part_digits [OF assms(1)] integer_part_digits [OF assms(1), of "nat i"] c by (auto simp: to_string_def)
  moreover have "atoll (to_string i @ rest) = i" using atoi_append [OF assms(1)] assms(2,3) by (simp add: atoll_def)
  ultimately show ?thesis using assms(1) by (simp add: parse_number_def stops_def)
qed

lemma to_string_head:
  obtains c cs where "to_string i = c # cs" "c = CHR ''-'' \<or> char_isdigit c"
proof -
  have "\<exists>c cs. dec_digits n = c # cs \<and> char_isdigit c" for n
    using dec_digits_ne [of n] dec_digits_isdigit by (metis list.exhaust list.set_intros(1))
  then show ?thesis using that by (cases "i < 0") (auto simp: to_string_def)
qed

lemma digit_props:
  assumes "char_isdigit c \<or> c = CHR ''-''"
  shows "\<not> json_space c" "c \<noteq> CHR ''n''" "c \<noteq> CHR ''t''" "c \<noteq> CHR ''f''" "c \<noteq> CHR '']''" "c \<noteq> CHR ''}''"
  using assms by (auto simp: char_isdigit_def json_space_def)

definition starts_value :: "string \<Rightarrow> bool" where
  "starts_value s \<longleftrightarrow> (\<exists>c cs. s = c # cs \<and> \<not> json_space c \<and> c \<noteq> CHR '']'')"

lemma print_starts: "no_double j \<Longrightarrow> starts_value (json_to_string sd j)"
proof (cases j)
  case (J_integer i)
  obtain c cs where "to_string i = c # cs" "c = CHR ''-'' \<or> char_isdigit c" by (rule to_string_head)
  then show ?thesis using J_integer digit_props [of c] by (auto simp: starts_value_def)
qed (auto simp: starts_value_def quoted_def json_space_def)

text \<open>The round trip for one value, at every fuel that covers its text and with any continuation.\<close>

definition reads_back :: "(string \<Rightarrow> 'd) \<Rightarrow> ('d \<Rightarrow> string) \<Rightarrow> 'd json \<Rightarrow> bool" where
  "reads_back atof sd j \<longleftrightarrow> (\<forall>n rest. stops rest \<longrightarrow> 2 * length (json_to_string sd j @ rest) + 1 \<le> n \<longrightarrow>
     json_value atof n (json_to_string sd j @ rest) = Some (Inr (j, rest)))"

lemma reads_backD:
  "reads_back atof sd j \<Longrightarrow> stops rest \<Longrightarrow> 2 * length (json_to_string sd j @ rest) + 1 \<le> n \<Longrightarrow>
     json_value atof n (json_to_string sd j @ rest) = Some (Inr (j, rest))"
  by (simp add: reads_back_def)

lemma reads_backI:
  assumes "\<And>n rest. stops rest \<Longrightarrow> 2 * length (json_to_string sd j @ rest) \<le> n \<Longrightarrow>
     json_value atof (Suc n) (json_to_string sd j @ rest) = Some (Inr (j, rest))"
  shows "reads_back atof sd j"
  unfolding reads_back_def
proof (intro allI impI)
  fix n rest
  assume "stops rest" "2 * length (json_to_string sd j @ rest) + 1 \<le> n"
  then show "json_value atof n (json_to_string sd j @ rest) = Some (Inr (j, rest))"
    using assms [of rest "n - 1"] by (cases n) (simp_all del: json_value.simps)
qed

lemma stops_Cons [simp]: "stops (c # r) \<longleftrightarrow> \<not> char_isdigit c \<and> c \<noteq> CHR ''.''"
  by (simp add: stops_def)

lemma not_digit [simp]: "\<not> char_isdigit CHR '']''" "\<not> char_isdigit CHR '',''" "\<not> char_isdigit CHR ''}''"
  "\<not> char_isdigit CHR 0x22" "\<not> char_isdigit CHR ''[''" "\<not> char_isdigit CHR ''{''"
  by (simp_all add: char_isdigit_def)

lemma commas_Cons: "xs \<noteq> [] \<Longrightarrow> commas (x # xs) = x @ CHR '','' # commas xs"
  by (cases xs) simp_all

lemma starts_commas: "starts_value x \<Longrightarrow> starts_value (commas (x # xs) @ r)"
  by (cases xs) (auto simp: starts_value_def)

lemma elems_print:
  assumes "js \<noteq> []" "\<forall>j \<in> set js. reads_back atof sd j \<and> no_double j"
    and "2 * length (commas (map (json_to_string sd) js) @ CHR '']'' # rest) + 2 \<le> n"
  shows "json_elems atof n arr (commas (map (json_to_string sd) js) @ CHR '']'' # rest) = Some (Inr (J_array (arr @ js), rest))"
  using assms
proof (induction js arbitrary: arr n)
  case (Cons j js)
  obtain m where n: "n = Suc m" using Cons.prems(3) by (cases n) simp_all
  show ?case
  proof (cases "js = []")
    case True
    then have "json_value atof m (json_to_string sd j @ CHR '']'' # rest) = Some (Inr (j, CHR '']'' # rest))"
      using Cons.prems by (intro reads_backD) (simp_all add: n)
    then show ?thesis by (simp add: n True)
  next
    case False
    let ?rest = "commas (map (json_to_string sd) js) @ CHR '']'' # rest"
    have whole: "commas (map (json_to_string sd) (j # js)) @ CHR '']'' # rest = json_to_string sd j @ CHR '','' # ?rest"
      using False by (simp add: commas_Cons)
    have first: "json_value atof m (json_to_string sd j @ CHR '','' # ?rest) = Some (Inr (j, CHR '','' # ?rest))"
      using Cons.prems False by (intro reads_backD) (simp_all add: n commas_Cons)
    obtain j' js' where js: "js = j' # js'" using False by (cases js) simp_all
    have "starts_value ?rest"
      unfolding js list.map by (rule starts_commas, rule print_starts) (use Cons.prems js in simp)
    then obtain c cs where c: "?rest = c # cs" "\<not> json_space c" by (auto simp: starts_value_def)
    have "json_elems atof m (arr @ [j]) ?rest = Some (Inr (J_array ((arr @ [j]) @ js), rest))"
      by (rule Cons.IH) (use Cons.prems False n in \<open>simp_all add: commas_Cons\<close>)
    then show ?thesis unfolding whole n json_elems.simps first using c by simp
  qed
qed simp

definition member :: "('d \<Rightarrow> string) \<Rightarrow> string \<times> 'd json \<Rightarrow> string" where
  "member sd kv = quoted (fst kv) @ '':'' @ json_to_string sd (snd kv)"

lemma print_object: "json_to_string sd (J_object kvs) = ''{'' @ commas (map (member sd) kvs) @ ''}''"
  by (simp add: comp_def member_def [abs_def] split_beta)

declare json_to_string.simps(7) [simp del]

lemma members_print:
  assumes "new \<noteq> []" "\<forall>(k, v) \<in> set new. text_ok k \<and> reads_back atof sd v" "omap_ok (obj @ new)"
    and "CHR 0x22 # s = commas (map (member sd) new) @ CHR ''}'' # rest" "2 * length s + 2 \<le> n"
  shows "json_members atof n obj (CHR 0x22) s = Some (Inr (J_object (obj @ new), rest))"
  using assms
proof (induction new arbitrary: obj n s)
  case (Cons kv new)
  obtain k v where kv: "kv = (k, v)" by (cases kv)
  obtain m where n: "n = Suc m" using Cons.prems(5) by (cases n) simp_all
  have k: "text_ok k" "reads_back atof sd v" using Cons.prems(2) by (simp_all add: kv)
  have put: "map_put k v obj = obj @ [(k, v)]"
    by (rule map_put_last) (use Cons.prems(3) in \<open>auto simp: kv omap_ok_def sorted_wrt_append\<close>)
  have parse: "parse_string [] (k @ CHR 0x22 # r) = Inr (k, r)" for r
    using parse_string_quoted [OF k(1), of "[]" r] by simp
  show ?case
  proof (cases "new = []")
    case True
    then have s: "s = k @ CHR 0x22 # CHR '':'' # json_to_string sd v @ CHR ''}'' # rest"
      using Cons.prems(4) by (simp add: kv member_def quoted_def)
    have "json_value atof m (json_to_string sd v @ CHR ''}'' # rest) = Some (Inr (v, CHR ''}'' # rest))"
      using Cons.prems(5) by (intro reads_backD k) (simp_all add: n s)
    then show ?thesis by (simp add: n s parse True put kv)
  next
    case False
    then obtain k' v' new' where new: "new = (k', v') # new'" by (cases new) auto
    obtain s' where s': "commas (map (member sd) new) @ CHR ''}'' # rest = CHR 0x22 # s'"
      by (cases new') (simp_all add: new member_def quoted_def)
    have s: "s = k @ CHR 0x22 # CHR '':'' # json_to_string sd v @ CHR '','' # CHR 0x22 # s'"
      using Cons.prems(4) False s' by (simp add: kv member_def [of sd "(k, v)"] quoted_def commas_Cons)
    have val: "json_value atof m (json_to_string sd v @ CHR '','' # CHR 0x22 # s') = Some (Inr (v, CHR '','' # CHR 0x22 # s'))"
      using Cons.prems(5) by (intro reads_backD k) (simp_all add: n s)
    have "json_members atof m (obj @ [(k, v)]) (CHR 0x22) s' = Some (Inr (J_object ((obj @ [(k, v)]) @ new), rest))"
      by (rule Cons.IH) (use Cons.prems False s' in \<open>auto simp: kv n s\<close>)
    then show ?thesis by (simp add: n s parse put kv val)
  qed
qed simp

lemma json_reads_back: "json_wf j \<Longrightarrow> no_double j \<Longrightarrow> reads_back atof sd j"
proof (induction j)
  case (J_integer i)
  obtain c cs where c: "to_string i = c # cs" "c = CHR ''-'' \<or> char_isdigit c" by (rule to_string_head)
  have "json_value atof n (to_string i @ rest) = Some (Inr (J_integer i, rest))" if "stops rest" "0 < n" for n rest
    using parse_number_print [OF that(1), of i atof] J_integer.prems c digit_props [of c] that(2) by (cases n) auto
  then show ?case by (simp add: reads_back_def)
next
  case (J_string s)
  have "json_value atof n (quoted s @ rest) = Some (Inr (J_string s, rest))" if "0 < n" for n rest
    using parse_string_quoted [of s "[]" rest] J_string.prems that by (cases n) (simp_all add: quoted_def)
  then show ?case by (simp add: reads_back_def)
next
  case (J_array js)
  have sub: "\<forall>j \<in> set js. reads_back atof sd j \<and> no_double j"
    using J_array by (auto simp: json_wf_array list_all_iff)
  have "json_value atof (Suc n) (CHR ''['' # commas (map (json_to_string sd) js) @ CHR '']'' # rest) = Some (Inr (J_array js, rest))"
    if "2 * length (commas (map (json_to_string sd) js) @ CHR '']'' # rest) + 2 \<le> n" for n rest
  proof (cases js)
    case (Cons j js')
    let ?t = "commas (map (json_to_string sd) js) @ CHR '']'' # rest"
    have "starts_value ?t" unfolding Cons list.map by (rule starts_commas, rule print_starts) (use sub Cons in simp)
    then obtain c cs where c: "?t = c # cs" "\<not> json_space c" "c \<noteq> CHR '']''" by (auto simp: starts_value_def)
    have "json_elems atof n [] ?t = Some (Inr (J_array js, rest))"
      using elems_print [OF _ sub that, of "[]"] Cons by simp
    then show ?thesis using c by simp
  qed simp
  then show ?case by (intro reads_backI) (simp del: json_value.simps)
next
  case (J_object kvs)
  have sub: "\<forall>(k, v) \<in> set kvs. text_ok k \<and> reads_back atof sd v" and ok: "omap_ok ([] @ kvs)"
    using J_object by (fastforce simp: json_wf_object list_all_iff)+
  have "json_value atof (Suc n) (CHR ''{'' # commas (map (member sd) kvs) @ CHR ''}'' # rest) = Some (Inr (J_object kvs, rest))"
    if "2 * length (commas (map (member sd) kvs) @ CHR ''}'' # rest) + 2 \<le> n" for n rest
  proof (cases kvs)
    case (Cons kv kvs')
    obtain s where s: "CHR 0x22 # s = commas (map (member sd) kvs) @ CHR ''}'' # rest"
      by (cases kvs') (simp_all add: Cons member_def quoted_def)
    have "json_members atof n [] (CHR 0x22) s = Some (Inr (J_object ([] @ kvs), rest))"
      by (rule members_print [OF _ sub ok s]) (use Cons that [folded s] in simp_all)
    then show ?thesis unfolding s [symmetric] by simp
  qed simp
  then show ?case by (intro reads_backI) (simp add: print_object del: json_value.simps)
qed (auto intro!: reads_backI simp: parse_null_def parse_bool_def)

lemma json_reparse:
  assumes "json_wf j" "no_double j"
  shows "json_parse atof (json_to_string sd j) = Some (Inr (j, []))"
proof -
  have "stops []" by (simp add: stops_def char_isdigit_def)
  from reads_backD [OF json_reads_back [OF assms] this] show ?thesis
    by (simp add: json_parse_def del: json_value.simps)
qed

subsection \<open>Properties\<close>

text \<open>C23: what \<open>to_string\<close> prints, \<open>parse\<close> reads back completely and as the same value, for every value without
  floating point numbers whose strings hold neither quotes nor backslashes (the printer does not escape
  and the parser refuses escapes).\<close>

theorem json_roundtrip:
  assumes "json_wf j" "no_double j"
  shows "json_parse atof (json_to_string sd j) = Some (Inr (j, []))"
  using assms by (rule json_reparse)

definition demo_json :: "int json" where
  "demo_json = J_object [(''a'', J_array [J_integer (- 12), J_bool True, J_null]), (''b'', J_string ''x'')]"

lemma demo_json_ok: "json_wf demo_json" "no_double demo_json"
  by (simp_all add: demo_json_def json_wf_object json_wf_array omap_ok_def text_ok_def)

theorem json_roundtrip_witness:
  "json_parse (\<lambda>_. 0) (json_to_string (\<lambda>_. []) demo_json) = Some (Inr (demo_json, []))"
  by (rule json_roundtrip) (rule demo_json_ok)+

text \<open>C28: \<open>parse\<close> returns on every input, however deeply nested or broken: it throws or it builds a value,
  which took at least one character. What it builds is well formed (integers fit \<open>long long\<close>, strings hold
  no quotes, the keys of an object are unique and in order), so a value without floating point numbers that
  was once parsed survives printing and parsing.\<close>

theorem json_parse_total:
  "\<exists>r. json_parse atof str = Some r \<and> (\<forall>v rest. r = Inr (v, rest) \<longrightarrow> json_wf v \<and> length rest < length str \<and>
     (no_double v \<longrightarrow> json_parse atof (json_to_string sd v) = Some (Inr (v, []))))"
proof -
  have "good_result (length str) (json_parse atof str)" unfolding json_parse_def by (rule parser_returns(1)) simp
  then show ?thesis using json_reparse by (auto simp: good_result_def)
qed

theorem json_parse_total_witness:
  "\<exists>r. json_parse (\<lambda>_. 0 :: int) ''[1,[2'' = Some r"
  using json_parse_total [of "\<lambda>_. 0 :: int" "''[1,[2''" "\<lambda>_. []"] by blast

text \<open>Arrays and objects lose against themselves. \<open>operator==\<close> answers false for two equal arrays or
  objects, and assigning an object to itself empties it, because \<open>copy\<close> clears before it reads.\<close>

lemma json_containers_not_equal:
  "\<not> json_eq deq (J_array js) (J_array js) \<and> \<not> json_eq deq (J_object kvs) (J_object kvs) \<and>
   json_copy True (J_array js) (J_array js) = J_array [] \<and> json_copy True (J_string s) (J_string s) = J_string []"
  by (simp add: json_eq_def json_copy_def json_clear_def)

text \<open>Elements assigned through \<open>operator[]\<close> are found again; a null value becomes the container that is needed.\<close>

lemma json_assign_key_get:
  assumes "j = J_null \<or> json_type_of j = json_object"
  shows "\<exists>j'. json_assign_key k v j = Inr j' \<and> json_get_key k j' = Inr v \<and> json_has_key k j'"
  using assms by (cases j) (auto simp: json_assign_key_def json_at_key_def json_get_key_def json_has_key_def split: prod.split)

lemma json_assign_index_get:
  assumes "j = J_null \<or> json_type_of j = json_array"
  shows "\<exists>j'. json_assign_index i v j = Inr j' \<and> json_get_index i j' = Inr v \<and> json_has_index i j'"
proof -
  obtain js where js: "json_at_index i j = Inr (js ! i, J_array js)" "i < length js"
    using assms
    by (cases j) (auto simp: json_at_index_def Let_def simp del: replicate_Suc)
  then show ?thesis by (simp add: json_assign_index_def json_get_index_def json_has_index_def)
qed

end
