(* ===== verification/Tk_Timer.thy ===== *)
theory Tk_Timer
  imports Tk_Prelude "HOL-Library.Multiset"
begin

section \<open>Timers (external/tubekit-timer)\<close>

text \<open>
  A timer manager keeps its timers in a \<open>std::priority_queue\<close> by expiry. The queue is modelled by the list
  of its timers in the order in which \<open>top\<close> and \<open>pop\<close> deliver them; where a \<open>push\<close> puts a timer among
  those of the same expiry is left open by the library, so \<open>push\<close> is a parameter of which only the order
  and the contents are assumed (locale \<open>timer_queue\<close>). Times are seconds, callbacks are known by the id of
  their timer, the clock is an argument. The mutex makes each method one step. The code runs, and even deletes, the timer at the top
  before it calls \<open>pop\<close>; \<open>pop\<close> is taken to remove that element, which holds because it compares only the others, although
  the library asks for an intact heap there.

  The theory shows that a check runs every expired timer exactly once, in the order of expiry, and no other,
  and that a timer fires as often as it was asked to.
\<close>

record timer =
  t_id :: int
  m_expired_time :: int
  m_repeated_times :: int
  m_interval :: int

text \<open>The static counter is part of the manager's state.\<close>

definition generate_id :: "int \<Rightarrow> int \<times> int" where
  "generate_id s_initial_id = (let s_initial_id = s_initial_id + 1 in (s_initial_id, s_initial_id))"

definition timer_new :: "int \<Rightarrow> int \<Rightarrow> int \<Rightarrow> int \<Rightarrow> timer \<times> int" where
  "timer_new now s_initial_id repeated_times interval =
     (case generate_id s_initial_id of (new_id, s_initial_id) \<Rightarrow>
        (\<lparr>t_id = new_id, m_expired_time = now + interval, m_repeated_times = repeated_times, m_interval = interval\<rparr>,
         s_initial_id))"

text \<open>The bool says whether the callback is called.\<close>

definition timer_run :: "timer \<Rightarrow> bool \<times> timer" where
  "timer_run t =
     (m_repeated_times t = -1 \<or> 1 \<le> m_repeated_times t,
      t\<lparr>m_repeated_times := (if 1 \<le> m_repeated_times t then m_repeated_times t - 1 else m_repeated_times t),
        m_expired_time := m_expired_time t + m_interval t\<rparr>)"

definition is_expired :: "int \<Rightarrow> timer \<Rightarrow> bool" where
  "is_expired now t \<longleftrightarrow> m_expired_time t \<le> now"

record timer_manager =
  m_queue :: "timer list"
  s_initial_id :: int

definition timer_manager_add :: "(timer \<Rightarrow> timer list \<Rightarrow> timer list) \<Rightarrow> int \<Rightarrow> int \<Rightarrow> int \<Rightarrow> timer_manager \<Rightarrow>
    int \<times> timer_manager" where
  "timer_manager_add push now repeated_times interval m =
     (case timer_new now (s_initial_id m) repeated_times interval of (t, initial_id) \<Rightarrow>
        (t_id t, m\<lparr>m_queue := push t (m_queue m), s_initial_id := initial_id\<rparr>))"

fun check_loop :: "int \<Rightarrow> timer list \<Rightarrow> int list \<Rightarrow> timer list \<Rightarrow> int list \<times> timer list \<times> timer list" where
  "check_loop now [] fired m_list = (fired, m_list, [])"
| "check_loop now (t # queue) fired m_list =
     (if is_expired now t
      then (case timer_run t of (calls, t') \<Rightarrow>
              check_loop now queue (if calls then fired @ [t_id t] else fired)
                (if m_repeated_times t' = 0 then m_list else m_list @ [t']))
      else (fired, m_list, t # queue))"

definition check_and_handle :: "(timer \<Rightarrow> timer list \<Rightarrow> timer list) \<Rightarrow> int \<Rightarrow> timer list \<Rightarrow> int list \<times> timer list" where
  "check_and_handle push now queue =
     (case check_loop now queue [] [] of (fired, m_list, queue) \<Rightarrow> (fired, fold push m_list queue))"

subsection \<open>What a check does\<close>

definition by_expiry :: "timer list \<Rightarrow> bool" where
  "by_expiry q \<longleftrightarrow> sorted (map m_expired_time q)"

text \<open>
  What the comments of the library ask for, without the code: a timer that repeats for ever (-1) or has repetitions
  left fires; one that has a repetition left after that, or repeats for ever, is armed again one interval later.
\<close>

definition fires :: "timer \<Rightarrow> bool" where
  "fires t \<longleftrightarrow> m_repeated_times t = -1 \<or> 0 < m_repeated_times t"

definition next_round :: "timer \<Rightarrow> timer" where
  "next_round t =
     \<lparr>t_id = t_id t, m_expired_time = m_expired_time t + m_interval t,
      m_repeated_times = (if 0 < m_repeated_times t then m_repeated_times t - 1 else m_repeated_times t),
      m_interval = m_interval t\<rparr>"

definition rearmed :: "timer list \<Rightarrow> timer list" where
  "rearmed ts = map next_round (filter (\<lambda>t. m_repeated_times t \<noteq> 0 \<and> m_repeated_times t \<noteq> 1) ts)"

lemma timer_run_spec: "timer_run t = (fires t, next_round t)"
  by (auto simp: timer_run_def fires_def next_round_def)

lemma check_loop_result:
  "check_loop now q fired m_list =
     (fired @ map t_id (filter fires (takeWhile (is_expired now) q)),
      m_list @ rearmed (takeWhile (is_expired now) q), dropWhile (is_expired now) q)"
  by (induction now q fired m_list rule: check_loop.induct)
     (auto simp: timer_run_spec rearmed_def next_round_def)

lemma not_yet_expired:
  "by_expiry (t # q) \<Longrightarrow> \<not> is_expired now t \<Longrightarrow> u \<in> set q \<Longrightarrow> \<not> is_expired now u"
  by (force simp: is_expired_def by_expiry_def)

lemma expired_prefix: "by_expiry q \<Longrightarrow> takeWhile (is_expired now) q = filter (is_expired now) q"
proof (induction q)
  case (Cons t q)
  then show ?case using not_yet_expired [OF Cons.prems] by (auto simp: filter_empty_conv by_expiry_def)
qed simp

lemma pending_suffix: "by_expiry q \<Longrightarrow> dropWhile (is_expired now) q = filter (\<lambda>t. \<not> is_expired now t) q"
proof (induction q)
  case (Cons t q)
  then show ?case using not_yet_expired [OF Cons.prems] by (auto simp: filter_id_conv by_expiry_def)
qed simp

text \<open>The contract of the priority queue.\<close>

locale timer_queue =
  fixes push :: "timer \<Rightarrow> timer list \<Rightarrow> timer list"
  assumes push_order: "by_expiry q \<Longrightarrow> by_expiry (push t q)"
    and push_contents: "mset (push t q) = add_mset t (mset q)"
begin

lemma push_all: "by_expiry q \<Longrightarrow> by_expiry (fold push ts q) \<and> mset (fold push ts q) = mset ts + mset q"
  by (induction ts arbitrary: q) (simp_all add: push_order push_contents)

lemma check_spec:
  assumes "by_expiry q" "check_and_handle push now q = (fired, q')"
  shows "fired = map t_id (filter fires (filter (is_expired now) q))" "by_expiry q'"
    "mset q' = mset (rearmed (filter (is_expired now) q)) + mset (filter (\<lambda>t. \<not> is_expired now t) q)"
proof -
  have r: "fired = map t_id (filter fires (filter (is_expired now) q))"
    "q' = fold push (rearmed (filter (is_expired now) q)) (filter (\<lambda>t. \<not> is_expired now t) q)"
    using assms by (simp_all add: check_and_handle_def check_loop_result expired_prefix pending_suffix)
  then show "fired = map t_id (filter fires (filter (is_expired now) q))" by simp
  have "by_expiry (filter (\<lambda>t. \<not> is_expired now t) q)"
    using assms(1) by (simp add: by_expiry_def sorted_filter)
  from push_all [OF this, of "rearmed (filter (is_expired now) q)"] r(2)
  show "by_expiry q'" "mset q' = mset (rearmed (filter (is_expired now) q)) + mset (filter (\<lambda>t. \<not> is_expired now t) q)"
    by simp_all
qed

end

text \<open>A queue that puts a timer behind those of the same expiry.\<close>

fun push_last :: "timer \<Rightarrow> timer list \<Rightarrow> timer list" where
  "push_last t [] = [t]"
| "push_last t (u # q) = (if m_expired_time u \<le> m_expired_time t then u # push_last t q else t # u # q)"

lemma mset_push_last: "mset (push_last t q) = add_mset t (mset q)"
  by (induction t q rule: push_last.induct) auto

lemma set_push_last: "set (push_last t q) = insert t (set q)"
  using mset_push_last [of t q] by (metis set_mset_add_mset_insert set_mset_mset)

interpretation fifo: timer_queue push_last
proof (unfold_locales, goal_cases)
  case (1 q t)
  then show ?case
    by (induction t q rule: push_last.induct) (auto simp: by_expiry_def set_push_last)
qed (rule mset_push_last)

subsection \<open>Over many checks\<close>

fun checks :: "(timer \<Rightarrow> timer list \<Rightarrow> timer list) \<Rightarrow> int list \<Rightarrow> timer list \<Rightarrow> int list \<times> timer list" where
  "checks push [] q = ([], q)"
| "checks push (now # ns) q =
     (case check_and_handle push now q of (fired, q) \<Rightarrow>
        (case checks push ns q of (fired', q) \<Rightarrow> (fired @ fired', q)))"

definition remaining :: "int \<Rightarrow> timer list \<Rightarrow> int" where
  "remaining x q = sum_list (map m_repeated_times (filter (\<lambda>t. t_id t = x) q))"

lemma remaining_append [simp]: "remaining x (p @ q) = remaining x p + remaining x q"
  by (simp add: remaining_def)

lemma remaining_mset: "mset p = mset q \<Longrightarrow> remaining x p = remaining x q"
proof -
  assume "mset p = mset q"
  then have "mset (map m_repeated_times (filter (\<lambda>t. t_id t = x) p)) = mset (map m_repeated_times (filter (\<lambda>t. t_id t = x) q))"
    unfolding mset_map mset_filter by simp
  then show ?thesis unfolding remaining_def by (metis sum_mset_sum_list)
qed

lemma remaining_filter: "remaining x q = remaining x (filter P q) + remaining x (filter (\<lambda>t. \<not> P t) q)"
  by (induction q) (auto simp: remaining_def)

definition counted :: "int \<Rightarrow> timer list \<Rightarrow> bool" where
  "counted x q \<longleftrightarrow> (\<forall>t \<in> set q. t_id t = x \<longrightarrow> 1 \<le> m_repeated_times t)"

lemma remaining_counted: "counted x q \<Longrightarrow> 0 \<le> remaining x q \<and> (remaining x q = 0 \<longleftrightarrow> x \<notin> t_id ` set q)"
  by (induction q) (auto simp: remaining_def counted_def)

lemma remaining_rearmed:
  "counted x ts \<Longrightarrow> int (count_list (map t_id (filter fires ts)) x) + remaining x (rearmed ts) = remaining x ts"
proof (induction ts)
  case (Cons t ts)
  then have "counted x ts" and t: "t_id t = x \<Longrightarrow> 1 \<le> m_repeated_times t" by (simp_all add: counted_def)
  with Cons.IH show ?case
    by (cases "t_id t = x") (auto simp: remaining_def rearmed_def fires_def next_round_def)
qed (simp add: remaining_def rearmed_def)

lemma counted_rearmed: "counted x ts \<Longrightarrow> counted x (rearmed ts)"
  by (force simp: counted_def rearmed_def next_round_def)

context timer_queue
begin

lemma check_remaining:
  assumes "by_expiry q" "counted x q" "check_and_handle push now q = (fired, q')"
  shows "int (count_list fired x) + remaining x q' = remaining x q" "counted x q'" "by_expiry q'"
proof -
  note spec = check_spec [OF assms(1,3)]
  let ?e = "filter (is_expired now) q" and ?r = "filter (\<lambda>t. \<not> is_expired now t) q"
  have c: "counted x ?e" "counted x ?r" using assms(2) by (auto simp: counted_def)
  have m: "mset q' = mset (rearmed ?e @ ?r)" using spec(3) by simp
  show "int (count_list fired x) + remaining x q' = remaining x q"
    using remaining_mset [OF m] remaining_rearmed [OF c(1)] remaining_filter [of x q "is_expired now"] spec(1) by simp
  have "set q' = set (rearmed ?e @ ?r)" using m by (metis set_mset_mset)
  then show "counted x q'" using counted_rearmed [OF c(1)] c(2) by (auto simp: counted_def)
  show "by_expiry q'" by (rule spec)
qed

lemma checks_remaining:
  assumes "by_expiry q" "counted x q" "checks push ns q = (fired, q')"
  shows "int (count_list fired x) + remaining x q' = remaining x q \<and> counted x q'"
  using assms
proof (induction ns arbitrary: q fired)
  case (Cons now ns)
  obtain f1 q1 where 1: "check_and_handle push now q = (f1, q1)" by fastforce
  obtain f2 where 2: "checks push ns q1 = (f2, q')" "fired = f1 @ f2"
    using Cons.prems(3) 1 by (auto split: prod.splits)
  note r = check_remaining [OF Cons.prems(1,2) 1]
  from Cons.IH [OF r(3,2) 2(1)] r(1) 2(2) show ?case by simp
qed simp

text \<open>A new timer is the only one of its id.\<close>

lemma added_timer:
  assumes "by_expiry (m_queue m)" "\<forall>t \<in> set (m_queue m). t_id t \<le> s_initial_id m" "1 \<le> n"
    and "timer_manager_add push now n interval m = (x, m')"
  shows "by_expiry (m_queue m')" "counted x (m_queue m')" "remaining x (m_queue m') = n"
proof -
  let ?t = "\<lparr>t_id = x, m_expired_time = now + interval, m_repeated_times = n, m_interval = interval\<rparr>"
  have x: "x = s_initial_id m + 1" and q: "m_queue m' = push ?t (m_queue m)"
    using assms(4) by (auto simp: timer_manager_add_def timer_new_def generate_id_def Let_def)
  have contents: "mset (m_queue m') = mset (?t # m_queue m)" unfolding q by (simp add: push_contents)
  then have "set (m_queue m') = set (?t # m_queue m)" by (metis set_mset_mset)
  then show "counted x (m_queue m')" using assms(2,3) x by (auto simp: counted_def)
  have "\<forall>t \<in> set (m_queue m). t_id t \<noteq> x" using assms(2) x by auto
  then have "remaining x (m_queue m) = 0" by (simp add: remaining_def filter_empty_conv)
  then show "remaining x (m_queue m') = n" using remaining_mset [OF contents, of x] by (simp add: remaining_def)
  show "by_expiry (m_queue m')" unfolding q by (rule push_order [OF assms(1)])
qed

end

subsection \<open>Properties\<close>

text \<open>C26: a check of the timers calls the callback of every expired timer that repeats for ever or has repetitions
  left, once, in the order of expiry, and no other; it drops the expired timers whose last repetition this was, arms the
  others one interval later with one repetition less (or still for ever), leaves the timers that are not due alone, and keeps the queue in
  order, whatever the queue does with timers of the same expiry.\<close>

theorem timers_fire_once_per_check:
  assumes "timer_queue push" "by_expiry q" "check_and_handle push now q = (fired, q')"
  shows "fired = map t_id (filter fires (filter (is_expired now) q)) \<and> by_expiry q' \<and>
    mset q' = mset (rearmed (filter (is_expired now) q)) + mset (filter (\<lambda>t. \<not> is_expired now t) q)"
  using timer_queue.check_spec [OF assms] by blast

definition demo_timers :: timer_manager where
  "demo_timers =
     snd (timer_manager_add push_last 100 (- 1) 7 (snd (timer_manager_add push_last 100 2 5 \<lparr>m_queue = [], s_initial_id = 0\<rparr>)))"

lemma demo_timers_ok: "by_expiry (m_queue demo_timers)"
  by (simp add: demo_timers_def timer_manager_add_def timer_new_def generate_id_def by_expiry_def)

theorem timers_fire_once_per_check_witness:
  "\<exists>q'. check_and_handle push_last 105 (m_queue demo_timers) = ([1], q') \<and> by_expiry q'"
proof -
  obtain fired q' where c: "check_and_handle push_last 105 (m_queue demo_timers) = (fired, q')" by fastforce
  from timers_fire_once_per_check [OF fifo.timer_queue_axioms demo_timers_ok c]
  have "fired = [1]" "by_expiry q'"
    by (simp_all add: demo_timers_def timer_manager_add_def timer_new_def generate_id_def is_expired_def fires_def)
  with c show ?thesis by simp
qed

text \<open>C27: a timer added with \<open>n \<ge> 1\<close> repetitions fires \<open>n\<close> times and no more. Over any sequence of checks after its
  addition the calls of its callback are at most \<open>n\<close>; together with the repetitions that it has left they are \<open>n\<close>; and they
  are \<open>n\<close> exactly when the timer is gone from the queue.\<close>

theorem timer_fires_n_times:
  assumes "timer_queue push" "by_expiry (m_queue m)" "\<forall>t \<in> set (m_queue m). t_id t \<le> s_initial_id m" "1 \<le> n"
    and "timer_manager_add push now n interval m = (x, m')" "checks push ns (m_queue m') = (fired, q')"
  shows "int (count_list fired x) \<le> n \<and> int (count_list fired x) + remaining x q' = n \<and>
    (int (count_list fired x) = n \<longleftrightarrow> x \<notin> t_id ` set q')"
proof -
  note added = timer_queue.added_timer [OF assms(1-5)]
  have "int (count_list fired x) + remaining x q' = n" "counted x q'"
    using timer_queue.checks_remaining [OF assms(1) added(1,2) assms(6)] added(3) by simp_all
  with remaining_counted [OF this(2)] show ?thesis by auto
qed

theorem timer_fires_n_times_witness:
  "\<exists>m' fired q'. timer_manager_add push_last 100 2 5 demo_timers = (3, m') \<and>
     checks push_last [105, 106, 110, 120] (m_queue m') = (fired, q') \<and> int (count_list fired 3) + remaining 3 q' = 2"
proof -
  obtain x m' where a: "timer_manager_add push_last 100 2 5 demo_timers = (x, m')" by fastforce
  obtain fired q' where c: "checks push_last [105, 106, 110, 120] (m_queue m') = (fired, q')" by fastforce
  have "\<forall>t \<in> set (m_queue demo_timers). t_id t \<le> s_initial_id demo_timers" "x = 3"
    using a by (auto simp: demo_timers_def timer_manager_add_def timer_new_def generate_id_def)
  with timer_fires_n_times [OF fifo.timer_queue_axioms demo_timers_ok this(1) _ a c] a c show ?thesis by auto
qed

end
