(* ===== verification/Tk_Xml.thy ===== *)
theory Tk_Xml
  imports Tk_Prelude Tk_Text Tk_Omap
begin

section \<open>XML elements, printer and parser (external/tubekit-xml)\<close>

text \<open>
  An element has a name, a text, children and attributes. The parser works on the rest of its string from
  \<open>m_idx\<close> on, in which \<open>cur\<close> is the current character (the null character at the end). Two of its inner
  loops look for a character without watching the end of the string: when it does not occur they read past
  the terminating null, which is the result \<open>Xml_overrun\<close>. The outer loop may not end, so the parser has
  fuel, and \<open>None\<close> means that it was not enough.

  The theory shows that printing and parsing are inverse on elements that the format can express, that the
  parser never returns from a wrong end tag when the right one occurs later, and that an empty element
  gets a nameless child.
\<close>

subsection \<open>Elements\<close>

datatype element = Element (m_name: string) (m_text: string) (m_children: "element list") (m_attrs: "(string \<times> string) list")

definition element_null :: element where
  "element_null = Element [] [] [] []"

definition element_new :: "string \<Rightarrow> string \<Rightarrow> element" where
  "element_new name text = Element name text [] []"

definition set_name :: "string \<Rightarrow> element \<Rightarrow> element" where
  "set_name name el = Element name (m_text el) (m_children el) (m_attrs el)"

definition set_text :: "string \<Rightarrow> element \<Rightarrow> element" where
  "set_text text el = Element (m_name el) text (m_children el) (m_attrs el)"

definition element_attr :: "string \<Rightarrow> element \<Rightarrow> string \<times> element" where
  "element_attr key el =
     (case map_at [] key (m_attrs el) of (v, attrs) \<Rightarrow> (v, Element (m_name el) (m_text el) (m_children el) attrs))"

definition set_attr :: "string \<Rightarrow> string \<Rightarrow> element \<Rightarrow> element" where
  "set_attr key val el =
     Element (m_name el) (m_text el) (m_children el)
       (if val \<noteq> [] then map_put key val (m_attrs el)
        else if map_find key (m_attrs el) \<noteq> None then map_erase key (m_attrs el) else m_attrs el)"

definition element_at :: "int \<Rightarrow> element \<Rightarrow> element" where
  "element_at index el =
     (if 0 \<le> index \<and> index < int (length (m_children el)) then m_children el ! nat index else element_null)"

definition element_child :: "string \<Rightarrow> element \<Rightarrow> element" where
  "element_child name el = (case find (\<lambda>c. m_name c = name) (m_children el) of Some c \<Rightarrow> c | None \<Rightarrow> element_null)"

definition element_append :: "element \<Rightarrow> element \<Rightarrow> element" where
  "element_append child el = Element (m_name el) (m_text el) (m_children el @ [child]) (m_attrs el)"

definition element_size :: "element \<Rightarrow> nat" where
  "element_size el = length (m_children el)"

definition element_clear :: "element \<Rightarrow> element" where
  "element_clear el = Element [] [] [] []"

definition attr_text :: "string \<times> string \<Rightarrow> string" where
  "attr_text kv = '' '' @ fst kv @ ''='' @ quoted (snd kv)"

primrec element_to_string :: "element \<Rightarrow> string" where
  "element_to_string (Element name text children attrs) =
     (if name = [] then []
      else ''<'' @ name @ concat (map attr_text attrs) @ ''>'' @
           (if children \<noteq> [] then concat (map element_to_string children) else text) @ ''</'' @ name @ ''>'')"

subsection \<open>The parser\<close>

datatype 'a xml = Xml_ok 'a string | Xml_throw string | Xml_overrun

definition name_start :: "char \<Rightarrow> bool" where
  "name_start c \<longleftrightarrow> (65 \<le> code c \<and> code c \<le> 90) \<or> (97 \<le> code c \<and> code c \<le> 122) \<or> c = CHR ''_''"

definition name_char :: "char \<Rightarrow> bool" where
  "name_char c \<longleftrightarrow> char_isalnum c \<or> c = CHR ''_'' \<or> c = CHR ''-'' \<or> c = CHR '':''"

definition parse_declaration :: "string \<Rightarrow> string option" where
  "parse_declaration s = map_option (\<lambda>pos. drop (pos + 2) s) (find_sub ''?>'' s)"

definition parse_comment :: "string \<Rightarrow> string option" where
  "parse_comment s = map_option (\<lambda>pos. drop (pos + 3) s) (find_sub ''-->'' s)"

definition parse_element_name :: "string \<Rightarrow> string \<times> string" where
  "parse_element_name s =
     (let s = skip_white_spaces s in
      if name_start (cur s) then (cur s # takeWhile name_char (tl s), dropWhile name_char (tl s)) else ([], s))"

definition parse_element_text :: "string \<Rightarrow> (string \<times> string) option" where
  "parse_element_text s =
     (let s = skip_white_spaces s in
      if CHR ''<'' \<in> set s then Some (takeWhile (\<lambda>c. c \<noteq> CHR ''<'') s, dropWhile (\<lambda>c. c \<noteq> CHR ''<'') s) else None)"

definition parse_element_attr_key :: "string \<Rightarrow> string \<times> string" where
  "parse_element_attr_key s = parse_element_name s"

definition parse_element_attr_val :: "string \<Rightarrow> string xml" where
  "parse_element_attr_val s =
     (let s = skip_white_spaces s in
      if cur s \<noteq> CHR 0x22 then Xml_throw ''xml element attr value should be in double quotes''
      else if CHR 0x22 \<in> set (tl s)
      then Xml_ok (takeWhile (\<lambda>c. c \<noteq> CHR 0x22) (tl s)) (tl (dropWhile (\<lambda>c. c \<noteq> CHR 0x22) (tl s)))
      else Xml_overrun)"

definition starts_comment :: "string \<Rightarrow> bool" where
  "starts_comment s \<longleftrightarrow> take 4 s = ''<!--''"

text \<open>What comes before the first tag: the declaration and one comment.\<close>

definition parse_prolog :: "string \<Rightarrow> unit xml" where
  "parse_prolog s =
     (let s = skip_white_spaces s in
      if cur s = CHR 0x00 then Xml_throw ''xml document is empty''
      else (case (if take 5 s = ''<?xml'' then parse_declaration s else Some s) of
              None \<Rightarrow> Xml_throw ''xml declaration is error''
            | Some s \<Rightarrow>
                let s = skip_white_spaces s in
                (case (if starts_comment s then parse_comment s else Some s) of
                   None \<Rightarrow> Xml_throw ''xml comment is error''
                 | Some s \<Rightarrow> Xml_ok () (skip_white_spaces s))))"

fun xml_parse :: "nat \<Rightarrow> string \<Rightarrow> element xml option"
  and xml_loop :: "nat \<Rightarrow> string \<Rightarrow> element \<Rightarrow> string \<Rightarrow> element xml option"
where
  "xml_parse 0 s = None"
| "xml_parse (Suc n) s =
     (case parse_prolog s of
        Xml_throw e \<Rightarrow> Some (Xml_throw e)
      | Xml_overrun \<Rightarrow> Some Xml_overrun
      | Xml_ok _ s \<Rightarrow>
          if cur s = CHR ''<'' \<and> name_start (cur (tl s))
          then (case parse_element_name (tl s) of
                  (name, s) \<Rightarrow> xml_loop n name (set_name name element_null) (skip_white_spaces s))
          else Some (Xml_ok element_null s))"
| "xml_loop 0 name elem s = None"
| "xml_loop (Suc n) name elem s =
     (if cur s = CHR 0x00 then Some (Xml_ok elem s)
      else if cur s = CHR ''>''
      then (case parse_element_text (tl s) of
              None \<Rightarrow> Some Xml_overrun
            | Some (text, s) \<Rightarrow>
                let s = skip_white_spaces s in
                if text \<noteq> [] then xml_loop n name (set_text text elem) (skip_white_spaces s)
                else (case xml_parse n s of
                        Some (Xml_ok child s) \<Rightarrow> xml_loop n name (element_append child elem) (skip_white_spaces s)
                      | r \<Rightarrow> r))
      else if cur s = CHR ''/''
      then (if cur (tl s) = CHR ''>'' then Some (Xml_ok elem (drop 2 s)) else Some (Xml_throw ''xml empty element is error''))
      else if cur s = CHR ''<''
      then (if cur (tl s) = CHR ''/''
            then (case find_sub (''</'' @ name @ ''>'') s of
                    None \<Rightarrow> Some (Xml_throw (''xml error '' @ name @ '' end tag not found''))
                  | Some pos \<Rightarrow>
                      if pos = 0 then Some (Xml_ok elem (drop (length name + 3) s))
                      else xml_loop n name elem (skip_white_spaces s))
            else if starts_comment s
            then (case parse_comment s of
                    None \<Rightarrow> Some (Xml_throw ''xml comment is error'')
                  | Some s \<Rightarrow> xml_loop n name elem (skip_white_spaces s))
            else (case xml_parse n s of
                    Some (Xml_ok child s) \<Rightarrow> xml_loop n name (element_append child elem) (skip_white_spaces s)
                  | r \<Rightarrow> r))
      else (case parse_element_attr_key s of
              (key, s) \<Rightarrow>
                let s = skip_white_spaces s in
                if cur s \<noteq> CHR ''='' then Some (Xml_throw (''xml element attr is error '' @ key))
                else (case parse_element_attr_val (tl s) of
                        Xml_throw e \<Rightarrow> Some (Xml_throw e)
                      | Xml_overrun \<Rightarrow> Some Xml_overrun
                      | Xml_ok val s \<Rightarrow> xml_loop n name (set_attr key val elem) (skip_white_spaces s))))"

text \<open>\<open>load_file\<close> joins the lines of the file without their newlines.\<close>

definition load_file :: "string list \<Rightarrow> string" where
  "load_file lines = concat lines"

subsection \<open>Reading the parts of a tag\<close>

fun name_ok :: "string \<Rightarrow> bool" where
  "name_ok [] = False"
| "name_ok (c # s) = (name_start c \<and> list_all name_char s)"

lemma name_start_props:
  assumes "name_start c"
  shows "\<not> json_space c" "c \<noteq> CHR 0x00" "c \<noteq> CHR ''>''" "c \<noteq> CHR ''/''" "c \<noteq> CHR ''<''" "c \<noteq> CHR ''?''" "c \<noteq> CHR ''!''"
  using assms by (auto simp: name_start_def json_space_def)

lemma no_name_char [simp]: "\<not> name_char CHR '' ''" "\<not> name_char CHR ''>''" "\<not> name_char CHR ''=''"
  by (simp_all add: name_char_def char_isalnum_def char_isdigit_def)

lemma name_parts:
  "list_all name_char s \<Longrightarrow> \<not> name_char (cur rest) \<Longrightarrow> takeWhile name_char (s @ rest) = s \<and> dropWhile name_char (s @ rest) = rest"
  by (induction s) (auto, (cases rest, auto)+)

lemma parse_name: "name_ok nm \<Longrightarrow> \<not> name_char (cur rest) \<Longrightarrow> parse_element_name (nm @ rest) = (nm, rest)"
  using name_parts [of "tl nm" rest] name_start_props(1) [of "hd nm"]
  by (cases nm) (simp_all add: parse_element_name_def Let_def)

lemma quoted_parts:
  "CHR 0x22 \<notin> set v \<Longrightarrow> takeWhile (\<lambda>c. c \<noteq> CHR 0x22) (v @ CHR 0x22 # r) = v \<and> dropWhile (\<lambda>c. c \<noteq> CHR 0x22) (v @ CHR 0x22 # r) = CHR 0x22 # r"
  by (induction v) auto

definition attr_ok :: "string \<times> string \<Rightarrow> bool" where
  "attr_ok kv \<longleftrightarrow> name_ok (fst kv) \<and> snd kv \<noteq> [] \<and> CHR 0x22 \<notin> set (snd kv)"

lemma loop_attr:
  assumes "attr_ok (k, v)"
  shows "xml_loop (Suc n) name el (k @ CHR ''='' # quoted v @ rest) = xml_loop n name (set_attr k v el) (skip_white_spaces rest)"
proof -
  obtain c cs where k: "k = c # cs" "name_start c" using assms by (cases k) (simp_all add: attr_ok_def)
  have key: "parse_element_attr_key (k @ CHR ''='' # quoted v @ rest) = (k, CHR ''='' # quoted v @ rest)"
    unfolding parse_element_attr_key_def by (rule parse_name) (use assms in \<open>simp_all add: attr_ok_def\<close>)
  have val: "parse_element_attr_val (quoted v @ rest) = Xml_ok v rest"
    using quoted_parts [of v rest] assms by (simp add: parse_element_attr_val_def quoted_def attr_ok_def)
  show ?thesis using name_start_props [OF k(2)] key val by (simp add: k(1))
qed

lemma loop_attrs:
  assumes "\<forall>kv \<in> set new. attr_ok kv" "omap_ok (attrs @ new)"
  shows "xml_loop (n + length new) name (Element nm t cs attrs) (skip_white_spaces (concat (map attr_text new) @ CHR ''>'' # r)) =
    xml_loop n name (Element nm t cs (attrs @ new)) (CHR ''>'' # r)"
  using assms
proof (induction new arbitrary: attrs)
  case (Cons kv new)
  obtain k v where kv: "kv = (k, v)" by (cases kv)
  have ok: "attr_ok (k, v)" using Cons.prems(1) by (simp add: kv)
  obtain c ks where k: "k = c # ks" "name_start c" using ok by (cases k) (simp_all add: attr_ok_def)
  let ?rest = "concat (map attr_text new) @ CHR ''>'' # r"
  have start: "skip_white_spaces (concat (map attr_text (kv # new)) @ CHR ''>'' # r) = k @ CHR ''='' # quoted v @ ?rest"
    using name_start_props(1) [OF k(2)] by (simp add: kv attr_text_def k(1))
  have put: "set_attr k v (Element nm t cs attrs) = Element nm t cs (attrs @ [kv])"
    using ok map_put_last [of attrs k v] Cons.prems(2)
    by (auto simp: set_attr_def attr_ok_def kv omap_ok_def sorted_wrt_append)
  have "xml_loop (n + length (kv # new)) name (Element nm t cs attrs) (k @ CHR ''='' # quoted v @ ?rest)
      = xml_loop (n + length new) name (Element nm t cs (attrs @ [kv])) (skip_white_spaces ?rest)"
    using loop_attr [OF ok, of "n + length new"] put by simp
  also have "\<dots> = xml_loop n name (Element nm t cs ((attrs @ [kv]) @ new)) (CHR ''>'' # r)"
    by (rule Cons.IH) (use Cons.prems in simp_all)
  finally show ?case unfolding start by simp
qed simp

lemma loop_end_tag: "xml_loop (Suc n) name el (''</'' @ name @ ''>'' @ rest) = Some (Xml_ok el rest)"
  using find_sub_prefix [of "''</'' @ name @ ''>''" rest] by (simp add: numeral_3_eq_3)

subsection \<open>Parsing what was printed\<close>

text \<open>
  The elements that the format can express: proper names, no empty attribute value, and either children
  or a text that does not start with white space.
\<close>

definition text_ok :: "string \<Rightarrow> bool" where
  "text_ok t \<longleftrightarrow> t \<noteq> [] \<and> \<not> json_space (hd t) \<and> CHR ''<'' \<notin> set t"

primrec element_ok :: "element \<Rightarrow> bool" where
  "element_ok (Element name text children attrs) =
     (name_ok name \<and> omap_ok attrs \<and> list_all attr_ok attrs \<and>
      (if children = [] then text_ok text else text = [] \<and> list_all id (map element_ok children)))"

definition reads_back :: "element \<Rightarrow> bool" where
  "reads_back el \<longleftrightarrow> (\<forall>n rest. 2 * length (element_to_string el @ rest) + 1 \<le> n \<longrightarrow>
     xml_parse n (element_to_string el @ rest) = Some (Xml_ok el rest))"

lemma parse_text_print:
  assumes "text_ok t"
  shows "parse_element_text (t @ CHR ''<'' # r) = Some (t, CHR ''<'' # r)"
proof -
  have "takeWhile (\<lambda>c. c \<noteq> CHR ''<'') (t @ CHR ''<'' # r) = t \<and> dropWhile (\<lambda>c. c \<noteq> CHR ''<'') (t @ CHR ''<'' # r) = CHR ''<'' # r"
    if "CHR ''<'' \<notin> set t" using that by (induction t) auto
  moreover obtain c cs where "t = c # cs" using assms by (cases t) (simp_all add: text_ok_def)
  ultimately show ?thesis using assms by (auto simp: parse_element_text_def text_ok_def)
qed

lemma loop_text:
  assumes "text_ok t"
  shows "xml_loop (Suc (Suc n)) name el (CHR ''>'' # t @ ''</'' @ name @ ''>'' @ rest) = Some (Xml_ok (set_text t el) rest)"
proof -
  have "t \<noteq> []" using assms by (simp add: text_ok_def)
  then have "xml_loop (Suc (Suc n)) name el (CHR ''>'' # t @ ''</'' @ name @ ''>'' @ rest) =
      xml_loop (Suc n) name (set_text t el) (''</'' @ name @ ''>'' @ rest)"
    using parse_text_print [OF assms, of "''/'' @ name @ ''>'' @ rest"] by (simp del: xml_loop.simps(2) add: xml_loop.simps(2) [of "Suc n" name el])
  then show ?thesis using loop_end_tag by simp
qed

lemma element_ok_start:
  assumes "element_ok el"
  shows "\<exists>c r. element_to_string el = CHR ''<'' # c # r \<and> name_start c"
proof (cases el)
  case (Element name t cs attrs)
  then show ?thesis using assms by (cases name) simp_all
qed

text \<open>One child in front of more input.\<close>

lemma loop_child:
  assumes "element_ok c" "reads_back c" "2 * length (element_to_string c @ s) + 1 \<le> n"
  shows "xml_loop (Suc n) name el (element_to_string c @ s) = xml_loop n name (element_append c el) (skip_white_spaces s)"
    and "xml_loop (Suc n) name el (CHR ''>'' # element_to_string c @ s) = xml_loop n name (element_append c el) (skip_white_spaces s)"
proof -
  obtain x r where x: "element_to_string c = CHR ''<'' # x # r" "name_start x"
    using element_ok_start [OF assms(1)] by blast
  have p: "xml_parse n (CHR ''<'' # x # r @ s) = Some (Xml_ok c s)"
    using assms(2,3) x(1) by (simp add: reads_back_def)
  note ne = name_start_props [OF x(2)]
  show "xml_loop (Suc n) name el (element_to_string c @ s) = xml_loop n name (element_append c el) (skip_white_spaces s)"
    using ne p by (simp add: x(1) starts_comment_def)
  show "xml_loop (Suc n) name el (CHR ''>'' # element_to_string c @ s) = xml_loop n name (element_append c el) (skip_white_spaces s)"
    using ne p by (simp add: x(1) parse_element_text_def)
qed

lemma loop_children:
  assumes "\<forall>c \<in> set new. element_ok c \<and> reads_back c"
    and "2 * length (concat (map element_to_string new) @ ''</'' @ name @ ''>'' @ rest) + 2 \<le> n"
  shows "xml_loop n name (Element nm t cs attrs) (concat (map element_to_string new) @ ''</'' @ name @ ''>'' @ rest) =
    Some (Xml_ok (Element nm t (cs @ new) attrs) rest)"
  using assms
proof (induction new arbitrary: cs n)
  case Nil
  then obtain m where "n = Suc m" by (cases n) simp_all
  then show ?case using loop_end_tag [of m name] by simp
next
  case (Cons c new)
  let ?s = "concat (map element_to_string new) @ ''</'' @ name @ ''>'' @ rest"
  obtain m where n: "n = Suc m" using Cons.prems(2) by (cases n) simp_all
  have skip: "skip_white_spaces ?s = ?s"
  proof (cases new)
    case (Cons d new')
    obtain x r where "element_to_string d = CHR ''<'' # x # r"
      using element_ok_start [of d] Cons.prems(1) Cons by fastforce
    then show ?thesis using Cons by simp
  qed simp
  have "xml_loop n name (Element nm t cs attrs) (element_to_string c @ ?s) =
      xml_loop m name (element_append c (Element nm t cs attrs)) ?s"
    using loop_child(1) [of c ?s m name] Cons.prems n skip by simp
  also have "\<dots> = Some (Xml_ok (Element nm t ((cs @ [c]) @ new) attrs) rest)"
    unfolding element_append_def element.sel
  proof (rule Cons.IH)
    have "0 < length (element_to_string c)" using element_ok_start [of c] Cons.prems(1) by fastforce
    then show "2 * length ?s + 2 \<le> m" using Cons.prems(2) n by (simp del: length_greater_0_conv)
  qed (use Cons.prems in simp)
  finally show ?case by simp
qed

lemma prolog_tag:
  assumes "name_start c"
  shows "parse_prolog (CHR ''<'' # c # r) = Xml_ok () (CHR ''<'' # c # r)"
  using name_start_props [OF assms] by (simp add: parse_prolog_def starts_comment_def Let_def)

lemma parse_tag:
  assumes "name_ok name" "list_all attr_ok attrs" "omap_ok attrs"
  shows "xml_parse (Suc (n + length attrs)) (''<'' @ name @ concat (map attr_text attrs) @ CHR ''>'' # r) =
    xml_loop n name (Element name [] [] attrs) (CHR ''>'' # r)"
proof -
  let ?a = "concat (map attr_text attrs) @ CHR ''>'' # r"
  obtain c cs where c: "name = c # cs" "name_start c" using assms(1) by (cases name) simp_all
  have "\<not> name_char (cur ?a)" by (cases attrs) (simp_all add: attr_text_def)
  from parse_name [OF assms(1) this] have nm: "parse_element_name (c # cs @ ?a) = (name, ?a)" by (simp add: c)
  have "xml_parse (Suc (n + length attrs)) (''<'' @ name @ ?a) =
      xml_loop (n + length attrs) name (set_name name element_null) (skip_white_spaces ?a)"
    using prolog_tag [OF c(2), of "cs @ ?a"] c nm by simp
  also have "\<dots> = xml_loop n name (Element name [] [] ([] @ attrs)) (CHR ''>'' # r)"
    unfolding set_name_def element_null_def element.sel
    by (rule loop_attrs) (use assms in \<open>simp_all add: list_all_iff\<close>)
  finally show ?thesis by simp
qed

lemma length_attrs: "length attrs \<le> length (concat (map attr_text attrs))"
  by (induction attrs) (simp_all add: attr_text_def)

lemma element_reads_back: "element_ok el \<Longrightarrow> reads_back el"
proof (induction el)
  case (Element name t cs attrs)
  have ok: "name_ok name" "list_all attr_ok attrs" "omap_ok attrs" and ne: "name \<noteq> []"
    using Element.prems by (auto simp: list_all_iff)
  let ?close = "\<lambda>rest. ''</'' @ name @ ''>'' @ rest"
  let ?body = "if cs \<noteq> [] then concat (map element_to_string cs) else t"
  have string: "element_to_string (Element name t cs attrs) @ rest =
      ''<'' @ name @ concat (map attr_text attrs) @ CHR ''>'' # ?body @ ?close rest" for rest
    using ne by simp
  have body: "xml_loop m name (Element name [] [] attrs) (CHR ''>'' # ?body @ ?close rest) = Some (Xml_ok (Element name t cs attrs) rest)"
    if m: "2 * length (CHR ''>'' # ?body @ ?close rest) + 2 \<le> m" for m rest
  proof (cases cs)
    case Nil
    then have "text_ok t" using Element.prems by simp
    moreover obtain k where "m = Suc (Suc k)" using m by (cases m; cases "m - 1") simp_all
    ultimately show ?thesis using loop_text [of t k name "Element name [] [] attrs" rest] Nil by (simp add: set_text_def)
  next
    case (Cons c cs')
    have sub: "\<forall>d \<in> set cs. element_ok d \<and> reads_back d" and t: "t = []"
      using Element Cons by (auto simp: list_all_iff)
    obtain k where k: "m = Suc k" using m by (cases m) simp_all
    let ?s = "concat (map element_to_string cs') @ ?close rest"
    have skip: "skip_white_spaces ?s = ?s"
    proof (cases cs')
      case (Cons d ds)
      then show ?thesis using element_ok_start [of d] sub \<open>cs = c # cs'\<close> by fastforce
    qed simp
    have "xml_loop m name (Element name [] [] attrs) (CHR ''>'' # element_to_string c @ ?s) =
        xml_loop k name (Element name [] ([] @ [c]) attrs) ?s"
      using loop_child(2) [of c ?s k name "Element name [] [] attrs"] sub m k skip Cons by (simp add: element_append_def)
    also have "\<dots> = Some (Xml_ok (Element name [] (([] @ [c]) @ cs') attrs) rest)"
      by (rule loop_children) (use sub m k Cons in simp_all)
    finally show ?thesis using Cons t by simp
  qed
  show ?case unfolding reads_back_def string
  proof (intro allI impI)
    fix n rest
    assume n: "2 * length (''<'' @ name @ concat (map attr_text attrs) @ CHR ''>'' # ?body @ ?close rest) + 1 \<le> n"
    define m where "m = n - Suc (length attrs)"
    have "0 < length name" using ne by simp
    then have m: "n = Suc (m + length attrs)" "2 * length (CHR ''>'' # ?body @ ?close rest) + 2 \<le> m"
      using n length_attrs [of attrs] by (simp_all add: m_def del: length_greater_0_conv)
    show "xml_parse n (''<'' @ name @ concat (map attr_text attrs) @ CHR ''>'' # ?body @ ?close rest) =
        Some (Xml_ok (Element name t cs attrs) rest)"
      unfolding m(1) using parse_tag [OF ok] body [OF m(2)] by simp
  qed
qed

subsection \<open>A wrong end tag\<close>

lemma find_sub_later:
  assumes "take (length p) s \<noteq> p" "s = u @ p @ w"
  shows "\<exists>pos. find_sub p s = Some pos \<and> pos \<noteq> 0"
  using assms
proof (induction u arbitrary: s)
  case (Cons c u)
  show ?case
  proof (cases "take (length p) (u @ p @ w) = p")
    case True
    then have "find_sub p (u @ p @ w) = Some 0" by (cases "u @ p @ w") auto
    then show ?thesis using Cons.prems by auto
  next
    case False
    then show ?thesis using Cons.IH [OF False refl] Cons.prems by auto
  qed
qed simp

lemma loop_stuck:
  assumes "s = ''</'' @ r" "find_sub (''</'' @ name @ ''>'') s = Some pos" "pos \<noteq> 0"
  shows "xml_loop n name el s = None"
  using assms by (induction n) simp_all

subsection \<open>Properties\<close>

text \<open>C25: an element that \<open>to_string\<close> printed is read back by \<open>parse\<close> with its name, attributes, text and
  children, and the parser stops right behind it; the fuel is twice the length of the input.\<close>

theorem xml_roundtrip:
  assumes "element_ok el" "2 * length (element_to_string el @ rest) + 1 \<le> n"
  shows "xml_parse n (element_to_string el @ rest) = Some (Xml_ok el rest)"
  using element_reads_back [OF assms(1)] assms(2) by (simp add: reads_back_def)

definition demo_element :: element where
  "demo_element = Element ''a'' [] [Element ''b'' ''x y'' [] [(''k'', ''v'')], Element ''c'' ''1'' [] []] []"

lemma demo_element_ok: "element_ok demo_element"
  by (simp add: demo_element_def text_ok_def omap_ok_def attr_ok_def name_start_def json_space_def)

theorem xml_roundtrip_witness:
  "xml_parse 100 (element_to_string demo_element @ ''!'') = Some (Xml_ok demo_element ''!'')"
  by (rule xml_roundtrip [OF demo_element_ok]) (simp add: demo_element_def attr_text_def quoted_def)

text \<open>C40: the parser does not return from a wrong end tag when the right one occurs later in the document: the
  loop finds the right tag at another place, leaves the index where it is and looks again.\<close>

theorem xml_wrong_end_tag_hangs:
  assumes "name_ok name" "text_ok t"
    and "take (length name + 1) (wrong @ ''</'' @ name @ ''>'') \<noteq> name @ ''>''"
  shows "xml_parse n (''<'' @ name @ ''>'' @ t @ ''</'' @ wrong @ ''</'' @ name @ ''>'' @ rest) = None"
proof (cases n)
  case (Suc m)
  let ?s = "''</'' @ wrong @ ''</'' @ name @ ''>'' @ rest"
  let ?p = "''</'' @ name @ ''>''"
  have "take (length name + 1) ((wrong @ ?p) @ rest) = take (length name + 1) (wrong @ ?p)"
    unfolding take_append [of _ "wrong @ ?p"] by simp
  then have "take (length name + 1) (wrong @ ?p @ rest) \<noteq> name @ ''>''" using assms(3) by simp
  then have "take (length ?p) ?s \<noteq> ?p" by simp
  then obtain pos where pos: "find_sub ?p ?s = Some pos" "pos \<noteq> 0"
    using find_sub_later [of ?p ?s "''</'' @ wrong" rest] by auto
  have "xml_parse n (''<'' @ name @ ''>'' @ t @ ?s) = xml_loop m name (Element name [] [] []) (CHR ''>'' # t @ ?s)"
    using parse_tag [OF assms(1), of "[]" m "t @ ?s"] Suc by (simp add: omap_ok_def)
  also have "\<dots> = None"
  proof (cases m)
    case (Suc k)
    have t: "t \<noteq> []" using assms(2) by (simp add: text_ok_def)
    have "xml_loop m name (Element name [] [] []) (CHR ''>'' # t @ ?s) = xml_loop k name (set_text t (Element name [] [] [])) ?s"
      using parse_text_print [OF assms(2), of "''/'' @ wrong @ ''</'' @ name @ ''>'' @ rest"] t Suc by simp
    also have "\<dots> = None" by (rule loop_stuck [OF _ pos]) simp
    finally show ?thesis .
  qed simp
  finally show ?thesis .
qed simp

theorem xml_wrong_end_tag_hangs_witness:
  "\<forall>n. xml_parse n ''<a>x</b></a>'' = None"
proof
  fix n
  show "xml_parse n ''<a>x</b></a>'' = None"
    using xml_wrong_end_tag_hangs [of "''a''" "''x''" "''b>''" n "[]"]
    by (simp add: text_ok_def name_start_def json_space_def del: xml_parse.simps)
qed

text \<open>An element without content is printed as an empty pair of tags and read back with a nameless child.\<close>

lemma xml_empty_element:
  assumes "name_ok name"
  shows "xml_parse (n + 3) (''<'' @ name @ ''></'' @ name @ ''>'' @ rest) = Some (Xml_ok (Element name [] [element_null] []) rest)"
proof -
  have "xml_parse (Suc (Suc (Suc n))) (''<'' @ name @ CHR ''>'' # ''</'' @ name @ ''>'' @ rest) =
      xml_loop (Suc (Suc n)) name (Element name [] [] []) (CHR ''>'' # ''</'' @ name @ ''>'' @ rest)"
    using parse_tag [OF assms, of "[]" "Suc (Suc n)"] by (simp add: omap_ok_def del: xml_loop.simps xml_parse.simps)
  also have "\<dots> = xml_loop (Suc n) name (Element name [] [element_null] []) (''</'' @ name @ ''>'' @ rest)"
    by (simp add: xml_loop.simps(2) [of "Suc n"] parse_element_text_def parse_prolog_def starts_comment_def
        element_append_def name_start_def Let_def del: xml_loop.simps(2))
  finally show ?thesis using loop_end_tag by (simp add: numeral_3_eq_3 del: xml_loop.simps xml_parse.simps)
qed

end
