(* ===== verification/Tk_Mime.thy ===== *)
theory Tk_Mime
  imports Tk_Prelude Tk_Text Tk_Omap
begin

section \<open>Media types (src/utility/mime_type.h)\<close>

text \<open>
  The table of file extensions, as the source lists it, the \<open>std::map\<close> made of it, and the lookups in both directions.
\<close>

definition types_1 :: "(string, string) omap" where
  "types_1 =
     [(''*3gpp'', ''audio/3gpp''), (''*jpm'', ''video/jpm''), (''*mp3'', ''audio/mp3''),
      (''*rtf'', ''text/rtf''), (''*wav'', ''audio/wave''), (''*xml'', ''text/xml''),
      (''3g2'', ''video/3gpp2''), (''3gp'', ''video/3gpp''), (''3gpp'', ''video/3gpp''),
      (''ac'', ''application/pkix-attr-cert''), (''adp'', ''audio/adpcm''),
      (''ai'', ''application/postscript''), (''apng'', ''image/apng''),
      (''appcache'', ''text/cache-manifest''), (''asc'', ''application/pgp-signature''),
      (''atom'', ''application/atom+xml''), (''atomcat'', ''application/atomcat+xml''),
      (''atomsvc'', ''application/atomsvc+xml''), (''au'', ''audio/basic''),
      (''aw'', ''application/applixware''), (''bdoc'', ''application/bdoc''),
      (''bin'', ''application/octet-stream''), (''bmp'', ''image/bmp''),
      (''bpk'', ''application/octet-stream''), (''buffer'', ''application/octet-stream''),
      (''ccxml'', ''application/ccxml+xml''), (''cdmia'', ''application/cdmi-capability''),
      (''cdmic'', ''application/cdmi-container''), (''cdmid'', ''application/cdmi-domain''),
      (''cdmio'', ''application/cdmi-object''), (''cdmiq'', ''application/cdmi-queue''),
      (''cer'', ''application/pkix-cert''), (''cgm'', ''image/cgm''),
      (''class'', ''application/java-vm''), (''coffee'', ''text/coffeescript''),
      (''conf'', ''text/plain''), (''cpt'', ''application/mac-compactpro''), (''cpp'', ''text/x-c''),
      (''crl'', ''application/pkix-crl''), (''css'', ''text/css''), (''csv'', ''text/csv''),
      (''cu'', ''application/cu-seeme''), (''davmount'', ''application/davmount+xml''),
      (''dbk'', ''application/docbook+xml''), (''deb'', ''application/octet-stream''),
      (''def'', ''text/plain''), (''deploy'', ''application/octet-stream''),
      (''disposition-notification'', ''message/disposition-notification''),
      (''dist'', ''application/octet-stream''), (''distz'', ''application/octet-stream''),
      (''dll'', ''application/octet-stream''), (''dmg'', ''application/octet-stream''),
      (''dms'', ''application/octet-stream''), (''doc'', ''application/msword''),
      (''dot'', ''application/msword''), (''drle'', ''image/dicom-rle''),
      (''dssc'', ''application/dssc+der''), (''dtd'', ''application/xml-dtd''),
      (''dump'', ''application/octet-stream''), (''ear'', ''application/java-archive''),
      (''ecma'', ''application/ecmascript''), (''elc'', ''application/octet-stream''),
      (''emf'', ''image/emf''), (''eml'', ''message/rfc822''), (''emma'', ''application/emma+xml''),
      (''eps'', ''application/postscript''), (''epub'', ''application/epub+zip''),
      (''es'', ''application/ecmascript''), (''exe'', ''application/octet-stream''),
      (''exi'', ''application/exi''), (''exr'', ''image/aces''),
      (''ez'', ''application/andrew-inset''), (''fits'', ''image/fits''), (''g3'', ''image/g3fax''),
      (''gbr'', ''application/rpki-ghostbusters''), (''geojson'', ''application/geo+json''),
      (''gif'', ''image/gif''), (''glb'', ''model/gltf-binary''), (''gltf'', ''model/gltf+json''),
      (''gml'', ''application/gml+xml''), (''gpx'', ''application/gpx+xml''),
      (''gram'', ''application/srgs''), (''grxml'', ''application/srgs+xml''),
      (''gxf'', ''application/gxf''), (''gz'', ''application/gzip''), (''h261'', ''video/h261''),
      (''h263'', ''video/h263''), (''h264'', ''video/h264''), (''heic'', ''image/heic''),
      (''heics'', ''image/heic-sequence''), (''heif'', ''image/heif''),
      (''heifs'', ''image/heif-sequence''), (''hjson'', ''application/hjson''),
      (''hlp'', ''application/winhlp''), (''hqx'', ''application/mac-binhex40''),
      (''htm'', ''text/html; charset=utf-8;''), (''html'', ''text/html; charset=utf-8;''),
      (''ics'', ''text/calendar''), (''ief'', ''image/ief''), (''ifb'', ''text/calendar''),
      (''iges'', ''model/iges''), (''igs'', ''model/iges''), (''img'', ''application/octet-stream''),
      (''in'', ''text/plain''), (''ini'', ''text/plain''), (''ink'', ''application/inkml+xml''),
      (''inkml'', ''application/inkml+xml''), (''ipfix'', ''application/ipfix''),
      (''iso'', ''application/octet-stream''), (''jade'', ''text/jade''),
      (''jar'', ''application/java-archive''), (''jls'', ''image/jls''), (''jp2'', ''image/jp2''),
      (''jpe'', ''image/jpeg''), (''jpeg'', ''image/jpeg''), (''jpf'', ''image/jpx'')]"

definition types_2 :: "(string, string) omap" where
  "types_2 =
     [(''jpg'', ''image/jpeg''), (''jpg2'', ''image/jp2''), (''jpgm'', ''video/jpm''),
      (''jpgv'', ''video/jpeg''), (''jpm'', ''image/jpm''), (''jpx'', ''image/jpx''),
      (''js'', ''application/javascript; charset=utf-8;''),
      (''json'', ''application/json; charset=utf-8;''), (''json5'', ''application/json5''),
      (''jsonld'', ''application/ld+json''), (''jsonml'', ''application/jsonml+json''),
      (''jsx'', ''text/jsx''), (''kar'', ''audio/midi''), (''ktx'', ''image/ktx''),
      (''less'', ''text/less''), (''list'', ''text/plain''), (''litcoffee'', ''text/coffeescript''),
      (''log'', ''text/plain''), (''lostxml'', ''application/lost+xml''),
      (''lrf'', ''application/octet-stream''), (''m1v'', ''video/mpeg''),
      (''m21'', ''application/mp21''), (''m2a'', ''audio/mpeg''), (''m2v'', ''video/mpeg''),
      (''m3a'', ''audio/mpeg''), (''m4a'', ''audio/mp4''), (''m4p'', ''application/mp4''),
      (''ma'', ''application/mathematica''), (''mads'', ''application/mads+xml''),
      (''man'', ''text/troff''), (''manifest'', ''text/cache-manifest''),
      (''map'', ''application/json''), (''mar'', ''application/octet-stream''),
      (''markdown'', ''text/markdown''), (''mathml'', ''application/mathml+xml''),
      (''mb'', ''application/mathematica''), (''mbox'', ''application/mbox''),
      (''md'', ''text/markdown; charset=utf-8;''), (''me'', ''text/troff''),
      (''mesh'', ''model/mesh''), (''meta4'', ''application/metalink4+xml''),
      (''metalink'', ''application/metalink+xml''), (''mets'', ''application/mets+xml''),
      (''mft'', ''application/rpki-manifest''), (''mid'', ''audio/midi''), (''midi'', ''audio/midi''),
      (''mime'', ''message/rfc822''), (''mj2'', ''video/mj2''), (''mjp2'', ''video/mj2''),
      (''mjs'', ''application/javascript''), (''mml'', ''text/mathml''),
      (''mods'', ''application/mods+xml''), (''mov'', ''video/quicktime''), (''mp2'', ''audio/mpeg''),
      (''mp21'', ''application/mp21''), (''mp2a'', ''audio/mpeg''), (''mp3'', ''audio/mpeg''),
      (''mp4'', ''video/mp4''), (''mp4a'', ''audio/mp4''), (''mp4s'', ''application/mp4''),
      (''mp4v'', ''video/mp4''), (''mpd'', ''application/dash+xml''), (''mpe'', ''video/mpeg''),
      (''mpeg'', ''video/mpeg''), (''mpg'', ''video/mpeg''), (''mpg4'', ''video/mp4''),
      (''mpga'', ''audio/mpeg''), (''mrc'', ''application/marc''),
      (''mrcx'', ''application/marcxml+xml''), (''ms'', ''text/troff''),
      (''mscml'', ''application/mediaservercontrol+xml''), (''msh'', ''model/mesh''),
      (''msi'', ''application/octet-stream''), (''msm'', ''application/octet-stream''),
      (''msp'', ''application/octet-stream''), (''mxf'', ''application/mxf''),
      (''mxml'', ''application/xv+xml''), (''n3'', ''text/n3''),
      (''nb'', ''application/mathematica''), (''oda'', ''application/oda''), (''oga'', ''audio/ogg''),
      (''ogg'', ''audio/ogg''), (''ogv'', ''video/ogg''), (''ogx'', ''application/ogg''),
      (''omdoc'', ''application/omdoc+xml''), (''onepkg'', ''application/onenote''),
      (''onetmp'', ''application/onenote''), (''onetoc'', ''application/onenote''),
      (''onetoc2'', ''application/onenote''), (''opf'', ''application/oebps-package+xml''),
      (''otf'', ''font/otf''), (''owl'', ''application/rdf+xml''), (''oxps'', ''application/oxps''),
      (''p10'', ''application/pkcs10''), (''p7c'', ''application/pkcs7-mime''),
      (''p7m'', ''application/pkcs7-mime''), (''p7s'', ''application/pkcs7-signature''),
      (''p8'', ''application/pkcs8''), (''pdf'', ''application/pdf''),
      (''pfr'', ''application/font-tdpfr''), (''pgp'', ''application/pgp-encrypted''),
      (''pkg'', ''application/octet-stream''), (''pki'', ''application/pkixcmp''),
      (''pkipath'', ''application/pkix-pkipath''), (''pls'', ''application/pls+xml''),
      (''png'', ''image/png''), (''prf'', ''application/pics-rules''),
      (''ps'', ''application/postscript''), (''pskcxml'', ''application/pskc+xml''),
      (''qt'', ''video/quicktime''), (''raml'', ''application/raml+yaml''),
      (''rdf'', ''application/rdf+xml''), (''rif'', ''application/reginfo+xml''),
      (''rl'', ''application/resource-lists+xml''),
      (''rld'', ''application/resource-lists-diff+xml''), (''rmi'', ''audio/midi'')]"

definition types_3 :: "(string, string) omap" where
  "types_3 =
     [(''rnc'', ''application/relax-ng-compact-syntax''), (''rng'', ''application/xml''),
      (''roa'', ''application/rpki-roa''), (''roff'', ''text/troff''),
      (''rq'', ''application/sparql-query''), (''rs'', ''application/rls-services+xml''),
      (''rsd'', ''application/rsd+xml''), (''rss'', ''application/rss+xml''),
      (''rtf'', ''application/rtf''), (''rtx'', ''text/richtext''), (''s3m'', ''audio/s3m''),
      (''sbml'', ''application/sbml+xml''), (''scq'', ''application/scvp-cv-request''),
      (''scs'', ''application/scvp-cv-response''), (''sdp'', ''application/sdp''),
      (''ser'', ''application/java-serialized-object''),
      (''setpay'', ''application/set-payment-initiation''),
      (''setreg'', ''application/set-registration-initiation''), (''sgi'', ''image/sgi''),
      (''sgm'', ''text/sgml''), (''sgml'', ''text/sgml''), (''shex'', ''text/shex''),
      (''shf'', ''application/shf+xml''), (''shtml'', ''text/html; charset=utf-8;''),
      (''sig'', ''application/pgp-signature''), (''sil'', ''audio/silk''), (''silo'', ''model/mesh''),
      (''slim'', ''text/slim''), (''slm'', ''text/slim''), (''smi'', ''application/smil+xml''),
      (''smil'', ''application/smil+xml''), (''snd'', ''audio/basic''),
      (''so'', ''application/octet-stream''), (''spp'', ''application/scvp-vp-response''),
      (''spq'', ''application/scvp-vp-request''), (''spx'', ''audio/ogg''),
      (''sru'', ''application/sru+xml''), (''srx'', ''application/sparql-results+xml''),
      (''ssdl'', ''application/ssdl+xml''), (''ssml'', ''application/ssml+xml''),
      (''stk'', ''application/hyperstudio''), (''styl'', ''text/stylus''),
      (''stylus'', ''text/stylus''), (''svg'', ''image/svg+xml''), (''svgz'', ''image/svg+xml''),
      (''t'', ''text/troff''), (''t38'', ''image/t38''), (''tei'', ''application/tei+xml''),
      (''teicorpus'', ''application/tei+xml''), (''text'', ''text/plain''),
      (''tfi'', ''application/thraud+xml''), (''tfx'', ''image/tiff-fx''), (''tif'', ''image/tiff''),
      (''tiff'', ''image/tiff''), (''tr'', ''text/troff''), (''ts'', ''video/mp2t''),
      (''tsd'', ''application/timestamped-data''), (''tsv'', ''text/tab-separated-values''),
      (''ttc'', ''font/collection''), (''ttf'', ''font/ttf''), (''ttl'', ''text/turtle''),
      (''txt'', ''text/plain; charset=utf-8;''), (''u8dsn'', ''message/global-delivery-status''),
      (''u8hdr'', ''message/global-headers''),
      (''u8mdn'', ''message/global-disposition-notification''), (''u8msg'', ''message/global''),
      (''uri'', ''text/uri-list''), (''uris'', ''text/uri-list''), (''urls'', ''text/uri-list''),
      (''vcard'', ''text/vcard''), (''vrml'', ''model/vrml''), (''vtt'', ''text/vtt''),
      (''vxml'', ''application/voicexml+xml''), (''war'', ''application/java-archive''),
      (''wasm'', ''application/wasm''), (''wav'', ''audio/wav''), (''weba'', ''audio/webm''),
      (''webm'', ''video/webm''), (''webmanifest'', ''application/manifest+json''),
      (''webp'', ''image/webp''), (''wgt'', ''application/widget''), (''wmf'', ''image/wmf''),
      (''woff'', ''font/woff''), (''woff2'', ''font/woff2''), (''wrl'', ''model/vrml''),
      (''wsdl'', ''application/wsdl+xml''), (''wspolicy'', ''application/wspolicy+xml''),
      (''x3d'', ''model/x3d+xml''), (''x3db'', ''model/x3d+binary''),
      (''x3dbz'', ''model/x3d+binary''), (''x3dv'', ''model/x3d+vrml''),
      (''x3dvz'', ''model/x3d+vrml''), (''x3dz'', ''model/x3d+xml''),
      (''xaml'', ''application/xaml+xml''), (''xdf'', ''application/xcap-diff+xml''),
      (''xdssc'', ''application/dssc+xml''), (''xenc'', ''application/xenc+xml''),
      (''xer'', ''application/patch-ops-error+xml''), (''xht'', ''application/xhtml+xml''),
      (''xhtml'', ''application/xhtml+xml''), (''xhvml'', ''application/xv+xml''),
      (''xm'', ''audio/xm''), (''xml'', ''application/xml''), (''xop'', ''application/xop+xml''),
      (''xpl'', ''application/xproc+xml''), (''xsd'', ''application/xml''),
      (''xsl'', ''application/xml''), (''xslt'', ''application/xslt+xml''),
      (''xspf'', ''application/xspf+xml''), (''xvm'', ''application/xv+xml''),
      (''xvml'', ''application/xv+xml''), (''yaml'', ''text/yaml''), (''yang'', ''application/yang''),
      (''yin'', ''application/yin+xml''), (''yml'', ''text/yaml''), (''zip'', ''application/zip'')]"

text \<open>A map made of a list of pairs keeps the first of two pairs with the same key.\<close>

definition map_init :: "('k :: linorder \<times> 'v) list \<Rightarrow> ('k, 'v) omap" where
  "map_init xs = fold (\<lambda>(k, v) m. if map_find k m = None then map_put k v m else m) xs []"

definition types :: "(string, string) omap" where
  "types = map_init (types_1 @ types_2 @ types_3)"

definition str_to_lower :: "string \<Rightarrow> string" where
  "str_to_lower in_data = map char_tolower in_data"

text \<open>\<open>find_last_of\<close> yields \<open>npos\<close> when there is no dot, and \<open>npos + 1\<close> is 0.\<close>

definition after_last_dot :: "string \<Rightarrow> string" where
  "after_last_dot filename = rev (takeWhile (\<lambda>c. c \<noteq> CHR ''.'') (rev filename))"

definition get_type :: "string \<Rightarrow> string res" where
  "get_type filename =
     (case map_find (str_to_lower (after_last_dot filename)) types of
        None \<Rightarrow> Inl (Runtime_error ''Mimetype not found'')
      | Some t \<Rightarrow> Inr t)"

definition get_extentions :: "string \<Rightarrow> string list res" where
  "get_extentions mime =
     (let exts = map fst (filter (\<lambda>(_, t). t = mime) types) in
      if exts = [] then Inl (Runtime_error ''Extention not found'') else Inr exts)"

lemma map_init_ok:
  "omap_ok m \<Longrightarrow> omap_ok (fold (\<lambda>(k, v) m. if map_find k m = None then map_put k v m else m) xs m)"
  by (induction xs arbitrary: m) auto

lemma types_ok: "omap_ok types"
  unfolding types_def map_init_def by (rule map_init_ok) (simp add: omap_ok_def)

text \<open>The two lookups agree: a file with one of the extensions of a media type has that type.\<close>

lemma get_type_extention:
  assumes "get_extentions mime = Inr exts" "e \<in> set exts" "str_to_lower e = e" "CHR ''.'' \<notin> set e"
  shows "get_type (name @ ''.'' @ e) = Inr mime"
proof -
  have "(e, mime) \<in> set types" using assms(1,2) by (auto simp: get_extentions_def Let_def split: if_splits)
  moreover have "distinct (map fst types)" using types_ok strict_sorted_iff by (auto simp: omap_ok_def)
  ultimately have "map_find e types = Some mime" by (simp add: map_find_def)
  moreover have "after_last_dot (name @ ''.'' @ e) = e"
    using assms(4) by (simp add: after_last_dot_def takeWhile_append2 takeWhile_append)
  ultimately show ?thesis using assms(3) by (simp add: get_type_def)
qed

text \<open>Every media type of the table is short.\<close>

lemma map_init_find:
  "map_find k (fold (\<lambda>(k, v) m. if map_find k m = None then map_put k v m else m) xs m) = Some v \<Longrightarrow>
     map_find k m = Some v \<or> (k, v) \<in> set xs"
  by (induction xs arbitrary: m) (fastforce split: if_splits)+

lemma types_1_short: "list_all (\<lambda>(_, t). length t \<le> 100) types_1"
  unfolding types_1_def by simp

lemma types_2_short: "list_all (\<lambda>(_, t). length t \<le> 100) types_2"
  unfolding types_2_def by simp

lemma types_3_short: "list_all (\<lambda>(_, t). length t \<le> 100) types_3"
  unfolding types_3_def by simp

lemma get_type_short: "get_type filename = Inr t \<Longrightarrow> length t \<le> 100"
  using types_1_short types_2_short types_3_short
  by (auto simp: get_type_def types_def map_init_def list_all_iff dest!: map_init_find split: option.splits)

end
