(* ===== verification/Tk_Http_App.thy ===== *)
theory Tk_Http_App
  imports Tk_Task Tk_Url Tk_Mime
begin

section \<open>The static file server (src/app/http_app.cpp)\<close>

text \<open>
  \<open>process_connection\<close> installs the callbacks of the connection: the process callback answers the
  request with a file, a directory listing or an error, the write-end callback supplies the next block
  whenever everything written so far has been sent, the destroy callback frees the response object.
  The response object that \<open>ptr\<close> points to is kept beside the connection. The file system and the
  success of \<open>new (std::nothrow)\<close> are parameters; an open file is the rest of its content.

  The theory shows that a file is delivered completely and in order, that a path that climbs up is
  refused before the file system is asked, and that a directory listing longer than one block is
  delivered wrongly.
\<close>

subsection \<open>Pages\<close>

text \<open>The lines of the frames are continued, so they carry the indentation of the source.\<close>

definition spaces :: "nat \<Rightarrow> string" where
  "spaces n = replicate n (CHR '' '')"

definition html_load :: "string \<Rightarrow> string" where
  "html_load body_text =
     (let frame1 = ''<!DOCTYPE html>'' @ spaces 24 @ ''<html>'' @ spaces 24 @ ''<head>'' @ spaces 24 @ ''<title></title>'' @
                   spaces 24 @ ''</head>'' @ spaces 24 @ ''<body>'';
          frame2 = ''</body>'' @ spaces 32 @ ''</html>'' in
      frame1 @ body_text @ frame2)"

definition a_tag :: "string \<Rightarrow> string \<Rightarrow> string" where
  "a_tag link label = ''<a href='' @ [CHR 0x22] @ link @ [CHR 0x22] @ ''>'' @ label @ ''</a></br>''"

definition http_app_on_body :: "'p http_connection \<Rightarrow> int res \<times> 'p http_connection" where
  "http_app_on_body c = (Inr (if 1024 < length (body c) then -1 else 0), c)"

subsection \<open>The response object\<close>

datatype response = Fd "bytes option" | Dir "(bytes \<times> nat) option"

type_synonym 'p http_state = "'p http_connection \<times> response option"

text \<open>
  What the file system says of a path: the questions of \<open>std::filesystem\<close> (\<open>exists\<close>, \<open>is_regular_file\<close>, \<open>is_directory\<close>) can
  throw, for instance when a directory on the way may not be searched.
\<close>

datatype fs_entry = Regular "bytes option" | Directory "string list" | Other_file | Fs_throws exn

definition crlf :: string where
  "crlf = [CHR 0x0D, CHR 0x0A]"

definition file_head :: "string \<Rightarrow> bytes" where
  "file_head mime =
     string_bytes (''HTTP/1.1 200 OK'' @ crlf @ ''Server: tubekit'' @ crlf @ ''Content-Type: '' @ mime @ crlf @ crlf)"

definition dir_head :: bytes where
  "dir_head = string_bytes (''HTTP/1.1 200 OK'' @ crlf @ ''Server: tubekit'' @ crlf @
     ''Content-Type: text/html; charset=UTF-8'' @ crlf @ crlf)"

definition not_found :: bytes where
  "not_found = string_bytes (''HTTP/1.1 404 Not Found'' @ crlf @ ''Server: tubekit'' @ crlf @
     ''Content-Type: text/text; charset=UTF-8'' @ crlf @ crlf)"

text \<open>A write whose \<open>runtime_error\<close> is caught and logged.\<close>

definition try_write :: "heap \<Rightarrow> bytes \<Rightarrow> 'p http_connection \<Rightarrow> bool \<times> 'p http_connection" where
  "try_write heap data c =
     (case buffer_write heap (Some data) (h_send_buffer c) of
        (Inl e, b) \<Rightarrow> (False, c\<lparr>h_send_buffer := b\<rparr>) | (Inr _, b) \<Rightarrow> (True, c\<lparr>h_send_buffer := b\<rparr>))"

definition fd_callback :: "heap \<Rightarrow> 'p http_connection \<times> bytes \<Rightarrow> 'p http_connection \<times> bytes" where
  "fd_callback heap x =
     (case x of (c, file) \<Rightarrow>
        let buf = take 102400 file; file = drop 102400 file in
        if 0 < length buf then (snd (try_write heap buf c), file) else (c\<lparr>response_end := True\<rparr>, file))"

definition dir_callback :: "heap \<Rightarrow> 'p http_connection \<times> bytes \<times> nat \<Rightarrow> 'p http_connection \<times> bytes \<times> nat" where
  "dir_callback heap x =
     (case x of (c, page, already_size) \<Rightarrow>
        if already_size < length page
        then (let need_send = length page - already_size;
                  need_send = (if 102400 < need_send then 102400 else need_send) in
              case try_write heap (take need_send page) c of
                (True, c) \<Rightarrow> (c, page, already_size + need_send)
              | (False, c) \<Rightarrow> (c, page, already_size))
        else (c\<lparr>response_end := True\<rparr>, page, already_size))"

text \<open>The write-end callback of the connection, by the kind of its response object.\<close>

definition http_write_end_callback :: "heap \<Rightarrow> 'p http_state \<Rightarrow> 'p http_state" where
  "http_write_end_callback heap x =
     (case x of
        (c, Some (Fd (Some file))) \<Rightarrow> (case fd_callback heap (c, file) of (c, file) \<Rightarrow> (c, Some (Fd (Some file))))
      | (c, Some (Dir (Some d))) \<Rightarrow> (case dir_callback heap (c, d) of (c, d) \<Rightarrow> (c, Some (Dir (Some d))))
      | _ \<Rightarrow> x)"

definition destory_response :: "'p http_state \<Rightarrow> 'p http_state" where
  "destory_response x = (case x of (c, r) \<Rightarrow> if r = None then (c, r) else (c\<lparr>h_ptr := False\<rparr>, None))"

subsection \<open>The process callback\<close>

fun has_dotdot :: "string \<Rightarrow> bool" where
  "has_dotdot (c # d # s) = (c = CHR ''.'' \<and> d = CHR ''.'' \<or> has_dotdot (d # s))"
| "has_dotdot _ = False"

definition mime_of :: "string \<Rightarrow> string" where
  "mime_of path = (case get_type path of Inl e \<Rightarrow> ''application/octet-stream'' | Inr t \<Rightarrow> t)"

definition serve_file :: "heap \<Rightarrow> bool \<Rightarrow> string \<Rightarrow> bytes option \<Rightarrow> 'p http_connection \<Rightarrow> 'p http_state" where
  "serve_file heap new_ok path file c =
     (if \<not> new_ok then (c\<lparr>response_end := True\<rparr>, None)
      else (let c = c\<lparr>h_ptr := True\<rparr>;
                c = snd (try_write heap (file_head (mime_of path)) c) in
            if file = None then (c\<lparr>response_end := True\<rparr>, Some (Fd None))
            else http_write_end_callback heap (c\<lparr>h_write_end_callback := True\<rparr>, Some (Fd file))))"

definition serve_directory :: "heap \<Rightarrow> bool \<Rightarrow> bool \<Rightarrow> string \<Rightarrow> string list \<Rightarrow> 'p http_connection \<Rightarrow>
    'p http_state" where
  "serve_directory heap new_ok new_ok' prefix entries c =
     (if \<not> new_ok then (c\<lparr>response_end := True\<rparr>, None)
      else if \<not> new_ok' then (c\<lparr>h_ptr := True, response_end := True\<rparr>, Some (Dir None))
      else (let c = snd (try_write heap dir_head (c\<lparr>h_ptr := True\<rparr>));
                a_tags = map (\<lambda>entry. let sub_path = drop (length prefix) entry in a_tag (url_encode sub_path) sub_path) entries in
            http_write_end_callback heap (c\<lparr>h_write_end_callback := True\<rparr>, Some (Dir (Some (string_bytes (html_load (concat a_tags)), 0))))))"

definition http_process_callback :: "heap \<Rightarrow> bool \<times> bool \<Rightarrow> (string \<Rightarrow> fs_entry option) \<Rightarrow> string \<Rightarrow>
    'p http_connection \<Rightarrow> unit res \<times> 'p http_state" where
  "http_process_callback heap news fs prefix c =
     (let decoded = url_decode (h_url c) in
      if has_dotdot decoded then (Inr (), c\<lparr>response_end := True\<rparr>, None)
      else (let path = prefix @ decoded in
            case fs path of
              Some (Fs_throws e) \<Rightarrow> (Inl e, c, None)
            | Some (Regular file) \<Rightarrow> (Inr (), serve_file heap (fst news) path file c)
            | Some (Directory entries) \<Rightarrow> (Inr (), serve_directory heap (fst news) (snd news) prefix entries c)
            | _ \<Rightarrow> (Inr (), (snd (try_write heap not_found c))\<lparr>response_end := True\<rparr>, None)))"

definition http_app_process_connection :: "'p http_connection \<Rightarrow> unit res \<times> 'p http_connection" where
  "http_app_process_connection c = (Inr (), c\<lparr>h_destory_callback := True, process_callback := True\<rparr>)"

subsection \<open>Delivering a response\<close>

text \<open>
  The task sends what is in the send buffer; when it is empty and the response has not ended it calls the
  write-end callback. \<open>response_rounds\<close> is that alternation, \<open>n\<close> rounds of it, with the bytes that leave.
\<close>

definition drain :: "heap \<Rightarrow> 'p http_connection \<Rightarrow> 'p http_connection" where
  "drain heap c = c\<lparr>h_send_buffer := snd (buffer_read heap False (Suc (length (content (h_send_buffer c)))) (h_send_buffer c))\<rparr>"

fun response_rounds :: "heap \<Rightarrow> nat \<Rightarrow> 'p http_state \<Rightarrow> bytes \<times> 'p http_state" where
  "response_rounds heap 0 x = ([], x)"
| "response_rounds heap (Suc n) (c, r) =
     (let out = content (h_send_buffer c); c = drain heap c in
      if response_end c then (out, (c, r))
      else (case response_rounds heap n (http_write_end_callback heap (c, r)) of (outs, y) \<Rightarrow> (out @ outs, y)))"

definition sendable :: "'p http_connection \<Rightarrow> bool" where
  "sendable c \<longleftrightarrow> buffer_inv (h_send_buffer c) \<and> 103424 \<le> m_limit_max (h_send_buffer c)"

lemma drain_ok:
  assumes "heap_total heap" "sendable c"
  shows "sendable (drain heap c)" "content (h_send_buffer (drain heap c)) = []" "response_end (drain heap c) = response_end c"
proof -
  let ?n = "Suc (length (content (h_send_buffer c)))"
  have inv: "buffer_inv (h_send_buffer c)" using assms(2) by (simp add: sendable_def)
  obtain b' where "buffer_read heap False ?n (h_send_buffer c) = (Inr (take ?n (content (h_send_buffer c))), b')" "buffer_inv b'"
    "content b' = drop ?n (content (h_send_buffer c))" "m_limit_max b' = m_limit_max (h_send_buffer c)"
    by (rule buffer_read_ok [OF assms(1) inv, of ?n]) simp_all
  with assms(2) show "sendable (drain heap c)" "content (h_send_buffer (drain heap c)) = []" "response_end (drain heap c) = response_end c"
    by (simp_all add: drain_def sendable_def)
qed

lemma try_write_ok:
  assumes "heap_total heap" "sendable c" "data \<noteq> []" "length (content (h_send_buffer c)) + length data \<le> 103424"
  shows "\<exists>b. try_write heap data c = (True, c\<lparr>h_send_buffer := b\<rparr>) \<and> sendable (c\<lparr>h_send_buffer := b\<rparr>) \<and>
    content b = content (h_send_buffer c) @ data"
proof -
  have inv: "buffer_inv (h_send_buffer c)" and limit: "length (content (h_send_buffer c)) + length data \<le> m_limit_max (h_send_buffer c)"
    using assms(2,4) by (simp_all add: sendable_def)
  obtain b where "buffer_write heap (Some data) (h_send_buffer c) = (Inr (length data), b)" "buffer_inv b"
    "content b = content (h_send_buffer c) @ data" "m_limit_max b = m_limit_max (h_send_buffer c)"
    by (rule buffer_write_ok [OF assms(1) inv assms(3) limit])
  with assms(2) show ?thesis by (intro exI [of _ b]) (simp add: try_write_def sendable_def)
qed

lemma fd_callback_ok:
  assumes "heap_total heap" "sendable c" "length (content (h_send_buffer c)) \<le> 1024" "file \<noteq> []"
  shows "\<exists>b. fd_callback heap (c, file) = (c\<lparr>h_send_buffer := b\<rparr>, drop 102400 file) \<and> sendable (c\<lparr>h_send_buffer := b\<rparr>) \<and>
    content b = content (h_send_buffer c) @ take 102400 file"
proof -
  have "take 102400 file \<noteq> []" "length (content (h_send_buffer c)) + length (take 102400 file) \<le> 103424"
    using assms(3,4) by simp_all
  from try_write_ok [OF assms(1,2) this] show ?thesis using assms(4) by (auto simp: fd_callback_def Let_def)
qed

lemma fd_rounds:
  assumes "heap_total heap" "sendable c" "\<not> response_end c" "length bs \<le> k * 102400" "k + 2 \<le> n"
  shows "\<exists>c'. response_rounds heap n (c, Some (Fd (Some bs))) = (content (h_send_buffer c) @ bs, (c', Some (Fd (Some [])))) \<and>
    response_end c'"
  using assms
proof (induction k arbitrary: n c bs)
  case 0
  have n: "n = Suc (Suc (n - 2))" using 0(5) by simp
  note d = drain_ok [OF 0(1,2)]
  let ?c = "(drain heap c)\<lparr>response_end := True\<rparr>"
  have s: "sendable ?c" using d by (simp add: sendable_def)
  note d2 = drain_ok [OF 0(1) s]
  have "response_rounds heap (Suc (Suc (n - 2))) (c, Some (Fd (Some bs))) =
      (content (h_send_buffer c) @ bs, (drain heap ?c, Some (Fd (Some []))))"
    using 0(3,4) d d2 by (simp add: http_write_end_callback_def fd_callback_def)
  then show ?case using d2(3) n by auto
next
  case (Suc k)
  then obtain m where n: "n = Suc m" "k + 2 \<le> m" by (cases n) simp_all
  note d = drain_ok [OF Suc.prems(1,2)]
  show ?case
  proof (cases "bs = []")
    case True
    then show ?thesis using Suc.IH [of c "[]" n] Suc.prems by simp
  next
    case False
    obtain b where b: "fd_callback heap (drain heap c, bs) = ((drain heap c)\<lparr>h_send_buffer := b\<rparr>, drop 102400 bs)"
      "sendable ((drain heap c)\<lparr>h_send_buffer := b\<rparr>)" "content b = take 102400 bs"
      using fd_callback_ok [OF Suc.prems(1) d(1) _ False] d(2) by auto
    let ?c = "(drain heap c)\<lparr>h_send_buffer := b\<rparr>"
    have "\<exists>c'. response_rounds heap m (?c, Some (Fd (Some (drop 102400 bs)))) =
        (content (h_send_buffer ?c) @ drop 102400 bs, (c', Some (Fd (Some [])))) \<and> response_end c'"
      by (rule Suc.IH) (use Suc.prems d b n in simp_all)
    then obtain c' where "response_rounds heap m (?c, Some (Fd (Some (drop 102400 bs)))) =
        (take 102400 bs @ drop 102400 bs, (c', Some (Fd (Some []))))" "response_end c'"
      using b(3) by auto
    then show ?thesis using b(1) d Suc.prems(3) by (simp add: n(1) http_write_end_callback_def)
  qed
qed

lemma dir_callback_ok:
  assumes "heap_total heap" "sendable c" "content (h_send_buffer c) = []" "already_size < length page"
  shows "\<exists>b. dir_callback heap (c, page, already_size) =
      (c\<lparr>h_send_buffer := b\<rparr>, page, already_size + min 102400 (length page - already_size)) \<and>
    sendable (c\<lparr>h_send_buffer := b\<rparr>) \<and> content b = take (min 102400 (length page - already_size)) page"
proof -
  let ?n = "min 102400 (length page - already_size)"
  have "take ?n page \<noteq> []" "length (content (h_send_buffer c)) + length (take ?n page) \<le> 103424"
    using assms(3,4) by auto
  from try_write_ok [OF assms(1,2) this] assms(3,4) show ?thesis by (auto simp: dir_callback_def Let_def min_def)
qed

lemma dir_round:
  assumes "heap_total heap" "sendable c" "\<not> response_end c" "already_size < length page"
  shows "\<exists>c'. sendable c' \<and> \<not> response_end c' \<and>
    content (h_send_buffer c') = take (min 102400 (length page - already_size)) page \<and>
    response_rounds heap (Suc n) (c, Some (Dir (Some (page, already_size)))) =
      (let (outs, y) = response_rounds heap n (c', Some (Dir (Some (page, already_size + min 102400 (length page - already_size)))))
       in (content (h_send_buffer c) @ outs, y))"
proof -
  note d = drain_ok [OF assms(1,2)]
  from dir_callback_ok [OF assms(1) d(1,2) assms(4)] obtain b where
    b: "dir_callback heap (drain heap c, page, already_size) =
      ((drain heap c)\<lparr>h_send_buffer := b\<rparr>, page, already_size + min 102400 (length page - already_size))"
    "sendable ((drain heap c)\<lparr>h_send_buffer := b\<rparr>)" "content b = take (min 102400 (length page - already_size)) page"
    by blast
  then show ?thesis using assms(3) d(3)
    by (intro exI [of _ "(drain heap c)\<lparr>h_send_buffer := b\<rparr>"]) (simp add: http_write_end_callback_def)
qed

lemma dir_last_round:
  assumes "heap_total heap" "sendable c" "\<not> response_end c"
  shows "\<exists>y. response_rounds heap (Suc (Suc n)) (c, Some (Dir (Some (page, length page)))) = (content (h_send_buffer c), y) \<and>
    response_end (fst y)"
proof -
  note d = drain_ok [OF assms(1,2)]
  let ?c = "(drain heap c)\<lparr>response_end := True\<rparr>"
  have "sendable ?c" using d by (simp add: sendable_def)
  note d2 = drain_ok [OF assms(1) this]
  show ?thesis using assms(3) d d2 by (simp add: http_write_end_callback_def dir_callback_def Let_def)
qed

lemma head_not_empty [simp]: "file_head mime \<noteq> []" "dir_head \<noteq> []"
  by (simp_all add: file_head_def dir_head_def string_bytes_def)

lemma file_head_short: "length (file_head (mime_of path)) \<le> 1024"
  using get_type_short [of path] by (auto simp: file_head_def mime_of_def string_bytes_def crlf_def split: sum.splits)

lemma process_file:
  assumes heap: "heap_total heap" and c: "sendable c" "content (h_send_buffer c) = []" "\<not> response_end c"
    and news: "fst news" and path: "\<not> has_dotdot (url_decode (h_url c))"
    "fs (prefix @ url_decode (h_url c)) = Some (Regular (Some bs))"
  shows "\<exists>c' rest out. http_process_callback heap news fs prefix c = (Inr (), c', Some (Fd (Some rest))) \<and> sendable c' \<and>
    content (h_send_buffer c') = file_head (mime_of (prefix @ url_decode (h_url c))) @ out \<and> bs = out @ rest \<and> length rest \<le> length bs \<and>
    (response_end c' \<longrightarrow> rest = [])"
proof -
  let ?mime = "mime_of (prefix @ url_decode (h_url c))"
  note head = file_head_short [of "prefix @ url_decode (h_url c)"]
  let ?c0 = "c\<lparr>h_ptr := True\<rparr>"
  have "sendable ?c0" using c(1) by (simp add: sendable_def)
  from try_write_ok [OF heap this head_not_empty(1), of ?mime] head c(2) obtain b where
    b: "try_write heap (file_head ?mime) ?c0 = (True, ?c0\<lparr>h_send_buffer := b\<rparr>)" "sendable (?c0\<lparr>h_send_buffer := b\<rparr>)"
    "content b = file_head ?mime" by auto
  let ?c1 = "?c0\<lparr>h_send_buffer := b, h_write_end_callback := True\<rparr>"
  have s1: "sendable ?c1" using b(2) by (simp add: sendable_def)
  have run: "http_process_callback heap news fs prefix c = (Inr (), http_write_end_callback heap (?c1, Some (Fd (Some bs))))"
    using news path b(1) by (simp add: http_process_callback_def serve_file_def Let_def)
  show ?thesis
  proof (cases "bs = []")
    case True
    then show ?thesis using run s1 b(3) by (simp add: http_write_end_callback_def fd_callback_def sendable_def)
  next
    case False
    obtain b2 where "fd_callback heap (?c1, bs) = (?c1\<lparr>h_send_buffer := b2\<rparr>, drop 102400 bs)" "sendable (?c1\<lparr>h_send_buffer := b2\<rparr>)"
      "content b2 = file_head ?mime @ take 102400 bs"
      using fd_callback_ok [OF heap s1 _ False] b(3) head by auto
    with run c(3) show ?thesis by (auto simp: http_write_end_callback_def)
  qed
qed

subsection \<open>Properties\<close>

text \<open>A file is served completely and in order. When the decoded path names a regular file that can be
  opened, the bytes that leave the connection are the response head with the media type of the file
  followed by its content, and then the response has ended; \<open>n\<close> rounds are enough when the file has
  at most \<open>n - 2\<close> blocks of 102400 bytes.\<close>

lemma http_serves_file:
  assumes "heap_total heap" "sendable c" "content (h_send_buffer c) = []" "\<not> response_end c"
    and "fst news" "\<not> has_dotdot (url_decode (h_url c))" "fs (prefix @ url_decode (h_url c)) = Some (Regular (Some bs))"
    and "length bs \<le> (n - 2) * 102400" "2 \<le> n"
  shows "\<exists>y. response_rounds heap n (snd (http_process_callback heap news fs prefix c)) =
      (file_head (mime_of (prefix @ url_decode (h_url c))) @ bs, y) \<and> response_end (fst y)"
proof -
  let ?mime = "mime_of (prefix @ url_decode (h_url c))"
  obtain c' rest out where c': "http_process_callback heap news fs prefix c = (Inr (), c', Some (Fd (Some rest)))" "sendable c'"
    "content (h_send_buffer c') = file_head ?mime @ out" "bs = out @ rest" "length rest \<le> length bs" "response_end c' \<longrightarrow> rest = []"
    using process_file [where fs = fs and prefix = prefix and news = news and c = c and heap = heap and bs = bs, OF assms(1-7)] by blast
  show ?thesis
  proof (cases "response_end c'")
    case True
    obtain m where "n = Suc m" using assms(9) by (cases n) simp_all
    then show ?thesis using c' True drain_ok [OF assms(1) c'(2)] by (simp add: Let_def)
  next
    case False
    have "length rest \<le> (n - 2) * 102400" "n - 2 + 2 \<le> n" using c'(5) assms(8,9) by simp_all
    from fd_rounds [OF assms(1) c'(2) False this] c' show ?thesis by auto
  qed
qed

text \<open>A directory page longer than one block is delivered wrongly. The callback sends the next block
  from the beginning of the page, not from \<open>already_size\<close>: of a page of more than one and at most two
  blocks the first block is sent, then its beginning again, as many bytes as the rest of the page has;
  the rest itself is never sent.\<close>

lemma long_listing_repeats_beginning:
  assumes "heap_total heap" "sendable c" "\<not> response_end c" "102400 < length page" "length page \<le> 204800" "4 \<le> n"
  shows "\<exists>y. response_rounds heap n (c, Some (Dir (Some (page, 0)))) =
      (content (h_send_buffer c) @ take 102400 page @ take (length page - 102400) page, y) \<and> response_end (fst y)"
proof -
  obtain m where "n = 4 + m" using assms(6) by (rule less_eqE)
  then have n: "n = Suc (Suc (Suc (Suc m)))" by simp
  have "0 < length page" "min 102400 (length page - 0) = 102400" using assms(4) by auto
  from dir_round [OF assms(1-3) this(1), of "Suc (Suc (Suc m))"] this(2) obtain c1 where
    c1: "sendable c1" "\<not> response_end c1" "content (h_send_buffer c1) = take 102400 page"
    "response_rounds heap n (c, Some (Dir (Some (page, 0)))) =
      (let (outs, y) = response_rounds heap (Suc (Suc (Suc m))) (c1, Some (Dir (Some (page, 102400)))) in (content (h_send_buffer c) @ outs, y))"
    by (auto simp: n simp del: response_rounds.simps)
  have "min 102400 (length page - 102400) = length page - 102400" using assms(5) by simp
  with dir_round [OF assms(1) c1(1,2) assms(4), of "Suc (Suc m)"] assms(4) obtain c2 where
    c2: "sendable c2" "\<not> response_end c2" "content (h_send_buffer c2) = take (length page - 102400) page"
    "response_rounds heap (Suc (Suc (Suc m))) (c1, Some (Dir (Some (page, 102400)))) =
      (let (outs, y) = response_rounds heap (Suc (Suc m)) (c2, Some (Dir (Some (page, length page)))) in (content (h_send_buffer c1) @ outs, y))"
    by (auto simp del: response_rounds.simps)
  from dir_last_round [OF assms(1) c2(1,2)] obtain y where
    "response_rounds heap (Suc (Suc m)) (c2, Some (Dir (Some (page, length page)))) = (content (h_send_buffer c2), y)" "response_end (fst y)"
    by blast
  with c1 c2 show ?thesis by (simp del: response_rounds.simps)
qed

end
