(* ===== verification/Tk_Http_Run.thy ===== *)
theory Tk_Http_Run
  imports Tk_Http_App
begin

section \<open>A file through the HTTP server (src/task/http_task.cpp with src/app/http_app.cpp)\<close>

text \<open>
  The HTTP task and the file server together: the task calls the callbacks the application installed, and
  the response object is reached through the connection (\<open>ptr\<close>). Here it travels in the component of the connection that the
  task leaves to its clients, beside the state of the parser.

  The theory shows that over any number of tasks of the connection, however much of each block the socket takes, the
  bytes that leave are a beginning of head and file, that the task ends the connection only after all of it has left
  (or when the socket failed), and that it does end when the socket goes on taking bytes.
\<close>

type_synonym 'p served = "('p \<times> response option) http_connection"

definition app_write_end :: "heap \<Rightarrow> 'p served \<Rightarrow> unit res \<times> 'p served" where
  "app_write_end heap c =
     (case http_write_end_callback heap (c, snd (h_parser c)) of (d, r) \<Rightarrow> (Inr (), d\<lparr>h_parser := (fst (h_parser c), r)\<rparr>))"

definition app_process :: "heap \<Rightarrow> bool \<times> bool \<Rightarrow> (string \<Rightarrow> fs_entry option) \<Rightarrow> string \<Rightarrow> 'p served \<Rightarrow> unit res \<times> 'p served" where
  "app_process heap news fs prefix c =
     (case http_process_callback heap news fs prefix c of (x, d, r) \<Rightarrow> (x, d\<lparr>h_parser := (fst (h_parser c), r)\<rparr>))"

text \<open>
  The write parts of successive tasks of one connection, each with the answers of the socket to its calls: the
  state after them, the bytes that left, and whether every task got rid of what was in its array. No result
  when a task does not return or the socket takes more than it was offered.
\<close>

fun http_runs :: "heap \<Rightarrow> socket \<Rightarrow> send_answer list list \<Rightarrow> 'p served \<Rightarrow> ('p served \<times> bytes \<times> bool) option" where
  "http_runs heap s [] c = Some (c, [], True)"
| "http_runs heap s (as # ass) c =
     (case http_write heap (app_write_end heap) s as c of
        Some (Inr _, d, trace) \<Rightarrow>
          if h_used_len d < h_start_use d then None
          else (let all = (h_everything_end c \<or> (case http_send_loop s as c of Some (e, _) \<Rightarrow> h_start_use e = h_used_len e | None \<Rightarrow> False)) in
                map_option (\<lambda>(e, out, all'). (e, concat trace @ out, all \<and> all')) (http_runs heap s ass d))
      | _ \<Rightarrow> None)"

fun file_rest :: "response option \<Rightarrow> bytes" where
  "file_rest (Some (Fd (Some file))) = file"
| "file_rest _ = []"

text \<open>What is still to be sent: the rest of the array, the send buffer, the rest of the file.\<close>

definition to_send :: "'p served \<Rightarrow> bytes" where
  "to_send c = seg (nat (h_start_use c)) (nat (h_used_len c)) (h_array c) @ content (h_send_buffer c) @ file_rest (snd (h_parser c))"

definition serving :: "'p served \<Rightarrow> bool" where
  "serving c \<longleftrightarrow> sendable c \<and> length (h_array c) = http_buffer_size \<and> 0 \<le> h_start_use c \<and> h_start_use c \<le> h_used_len c \<and>
     h_used_len c < int http_buffer_size \<and> h_write_end_callback c \<and> process_end c \<and> (\<exists>p file. h_parser c = (p, Some (Fd (Some file)))) \<and>
     (response_end c \<longrightarrow> h_everything_end c \<or> file_rest (snd (h_parser c)) = [])"

subsection \<open>One task\<close>

lemma http_send_loop_frame:
  assumes "http_send_loop s as c = Some (d, trace)" "\<not> h_everything_end c"
  shows "h_send_buffer d = h_send_buffer c \<and> h_parser d = h_parser c \<and> h_write_end_callback d = h_write_end_callback c \<and>
    process_end d = process_end c \<and> (if h_everything_end d then h_start_use d < h_used_len d \<and> (\<exists>a \<in> set as. fatal s a)
      else response_end d = response_end c)"
  using assms
proof (induction as arbitrary: c trace)
  case (Cons a as)
  obtain len e where a: "socket_send a 0 s = (len, e)" by fastforce
  show ?case
    using Cons.prems Cons.IH [of c] Cons.IH [of "c\<lparr>h_start_use := h_start_use c + len\<rparr>"]
    unfolding http_send_loop_unfold a prod.case by (auto simp: fatal_def a split: if_splits)
qed (auto simp: http_send_loop_unfold split: if_splits)

lemma serving_readable:
  assumes "heap_total heap" "serving c"
  obtains b where "can_readable_size heap (h_send_buffer c) = (Inr (length (content (h_send_buffer c))), b)"
    "content b = content (h_send_buffer c)" "serving (c\<lparr>h_send_buffer := b\<rparr>)" "to_send (c\<lparr>h_send_buffer := b\<rparr>) = to_send c"
proof -
  have "buffer_inv (h_send_buffer c)" using assms(2) by (simp add: serving_def sendable_def)
  then obtain b where b: "can_readable_size heap (h_send_buffer c) = (Inr (length (content (h_send_buffer c))), b)" "buffer_inv b"
    "content b = content (h_send_buffer c)" "m_limit_max b = m_limit_max (h_send_buffer c)"
    by (rule can_readable_size_ok [OF assms(1)])
  with assms(2) show ?thesis by (intro that [of b]) (auto simp: serving_def sendable_def to_send_def)
qed

lemma serving_write_end:
  assumes "heap_total heap" "serving c" "\<not> h_everything_end c" "h_start_use c = h_used_len c"
  shows "\<exists>d. http_write_end heap (app_write_end heap) c = (Inr (), d) \<and> serving d \<and> \<not> h_everything_end d \<and>
    h_start_use d = h_used_len d \<and> to_send d = to_send c \<and> (content (h_send_buffer d) = [] \<longrightarrow> response_end d)"
proof -
  obtain b where b: "can_readable_size heap (h_send_buffer c) = (Inr (length (content (h_send_buffer c))), b)"
    "content b = content (h_send_buffer c)" "serving (c\<lparr>h_send_buffer := b\<rparr>)" "to_send (c\<lparr>h_send_buffer := b\<rparr>) = to_send c"
    by (rule serving_readable [OF assms(1,2)])
  let ?c = "c\<lparr>h_send_buffer := b\<rparr>"
  obtain p rest where p: "h_parser c = (p, Some (Fd (Some rest)))" using assms(2) by (auto simp: serving_def)
  have cb: "h_write_end_callback c" using assms(2) by (simp add: serving_def)
  consider "content b \<noteq> [] \<or> response_end c" | "content b = []" "\<not> response_end c" "rest = []" | "content b = []" "\<not> response_end c" "rest \<noteq> []"
    by blast
  then show ?thesis
  proof cases
    case 1
    then show ?thesis using assms(3,4) b by (intro exI [of _ ?c]) (auto simp: http_write_end_def Let_def)
  next
    case 2
    let ?d = "?c\<lparr>response_end := True\<rparr>"
    have "app_write_end heap ?c = (Inr (), ?d)"
      using p 2 by (simp add: app_write_end_def http_write_end_callback_def fd_callback_def flip: p)
    then have "http_write_end heap (app_write_end heap) c = (Inr (), ?d)" using assms(4) b 2 cb by (simp add: http_write_end_def)
    moreover have "serving ?d" "to_send ?d = to_send c" using b(3,4) p 2 by (auto simp: serving_def sendable_def to_send_def)
    ultimately show ?thesis using assms(3,4) by (intro exI [of _ ?d]) simp
  next
    case 3
    have s: "sendable ?c" "length (content (h_send_buffer ?c)) \<le> 1024" using b(3) 3 by (simp_all add: serving_def)
    obtain b2 where b2: "fd_callback heap (?c, rest) = (?c\<lparr>h_send_buffer := b2\<rparr>, drop 102400 rest)" "sendable (?c\<lparr>h_send_buffer := b2\<rparr>)"
      "content b2 = take 102400 rest"
      using fd_callback_ok [OF assms(1) s 3(3)] 3(1) by auto
    let ?d = "c\<lparr>h_send_buffer := b2, h_parser := (p, Some (Fd (Some (drop 102400 rest))))\<rparr>"
    have "app_write_end heap ?c = (Inr (), ?d)"
      using p b2(1) by (simp add: app_write_end_def http_write_end_callback_def)
    then have "http_write_end heap (app_write_end heap) c = (Inr (), ?d)" using assms(4) b 3 cb by (simp add: http_write_end_def)
    moreover have "serving ?d" "to_send ?d = to_send c"
      using b(2-4) b2(2,3) p 3 by (auto simp: serving_def sendable_def to_send_def)
    ultimately show ?thesis using assms(3,4) b2(3) 3 by (intro exI [of _ ?d]) simp
  qed
qed

lemma serving_refill:
  assumes "heap_total heap" "serving c" "\<not> h_everything_end c" "h_start_use c = h_used_len c"
    and ended: "content (h_send_buffer c) = [] \<longrightarrow> response_end c"
  shows "\<exists>d. http_refill heap c = (Inr (), d) \<and> serving d \<and> \<not> h_everything_end d \<and> to_send d = to_send c \<and>
    (h_start_use d < h_used_len d \<or> h_start_use d = h_used_len d \<and> content (h_send_buffer d) = [] \<and> response_end d)"
proof -
  obtain b where b: "can_readable_size heap (h_send_buffer c) = (Inr (length (content (h_send_buffer c))), b)"
    "content b = content (h_send_buffer c)" "serving (c\<lparr>h_send_buffer := b\<rparr>)" "to_send (c\<lparr>h_send_buffer := b\<rparr>) = to_send c"
    by (rule serving_readable [OF assms(1,2)])
  show ?thesis
  proof (cases "content b = []")
    case True
    then show ?thesis using assms(3,4) ended b by (intro exI [of _ "c\<lparr>h_send_buffer := b\<rparr>"]) (simp add: http_refill_def)
  next
    case False
    let ?n = "http_buffer_size - 1"
    have inv: "buffer_inv b" "0 < ?n" using b(3) by (simp_all add: serving_def sendable_def http_buffer_size_def)
    obtain b2 where b2: "buffer_read heap False ?n b = (Inr (take ?n (content b)), b2)" "buffer_inv b2"
      "content b2 = drop ?n (content b)" "m_limit_max b2 = m_limit_max b"
      by (rule buffer_read_ok [OF assms(1) inv])
    define data where "data = take ?n (content b)"
    have data: "length data < http_buffer_size" "data \<noteq> []" "content b = data @ content b2" "length (h_array c) = http_buffer_size"
      using False b2(3) assms(2) by (auto simp: data_def http_buffer_size_def serving_def)
    let ?a = "(store_at 0 data (h_array c))[length data := 0]"
    let ?d = "c\<lparr>h_send_buffer := b2, h_used_len := int (length data), h_array := ?a, h_start_use := 0\<rparr>"
    have read: "buffer_read heap False ?n b = (Inr data, b2)" using b2(1) by (simp add: data_def)
    have run: "http_refill heap c = (Inr (), ?d)"
      using assms(4) b(1,2) False by (simp add: http_refill_def read [simplified])
    have "seg 0 (length data) ?a = data" "length ?a = http_buffer_size"
      using data by (simp_all add: seg_def store_at_def)
    then have "serving ?d" "to_send ?d = to_send c"
      using b(2-4) b2(2,4) data assms(3,4) by (auto simp: serving_def sendable_def to_send_def)
    with run data(2) assms(3) show ?thesis by (intro exI [of _ ?d]) simp
  qed
qed

lemma serving_finish:
  assumes "heap_total heap" "serving c" "\<not> h_everything_end c"
    and "h_start_use c < h_used_len c \<or> h_start_use c = h_used_len c \<and> content (h_send_buffer c) = [] \<and> response_end c"
  shows "\<exists>d. http_finish heap c = (Inr (), d) \<and> serving d \<and> to_send d = to_send c \<and>
    (if h_everything_end d then to_send d = [] else h_start_use d < h_used_len d)"
proof (cases "h_start_use c < h_used_len c")
  case True
  then show ?thesis using assms(2,3) by (intro exI [of _ c]) (simp add: http_finish_def)
next
  case False
  obtain b where b: "can_readable_size heap (h_send_buffer c) = (Inr (length (content (h_send_buffer c))), b)"
    "content b = content (h_send_buffer c)" "serving (c\<lparr>h_send_buffer := b\<rparr>)" "to_send (c\<lparr>h_send_buffer := b\<rparr>) = to_send c"
    by (rule serving_readable [OF assms(1,2)])
  let ?d = "c\<lparr>h_send_buffer := b, h_everything_end := True\<rparr>"
  have "to_send c = []" using False assms(2-4) by (auto simp: to_send_def serving_def)
  moreover have "serving ?d" "to_send ?d = to_send c" using b(3,4) by (simp_all add: serving_def sendable_def to_send_def)
  ultimately show ?thesis using False assms(4) b by (intro exI [of _ ?d]) (simp add: http_finish_def)
qed

text \<open>What follows the write loop, as one step.\<close>

definition after_writing :: "heap \<Rightarrow> 'p served \<Rightarrow> unit res \<times> 'p served" where
  "after_writing heap c = bindS (http_write_end heap (app_write_end heap) c) (\<lambda>_ c. bindS (http_refill heap c) (\<lambda>_ c. http_finish heap c))"

lemma after_writing_idle: "h_start_use c \<noteq> h_used_len c \<Longrightarrow> after_writing heap c = (Inr (), c)"
  by (simp add: after_writing_def http_write_end_def http_refill_def http_finish_def)

lemma serving_after_writing:
  assumes "heap_total heap" "serving c" "\<not> h_everything_end c" "h_start_use c = h_used_len c"
  shows "\<exists>d. after_writing heap c = (Inr (), d) \<and> serving d \<and> to_send d = to_send c \<and>
    (if h_everything_end d then to_send d = [] else h_start_use d < h_used_len d)"
proof -
  from serving_write_end [OF assms] obtain c2 where
    c2: "http_write_end heap (app_write_end heap) c = (Inr (), c2)" "serving c2" "\<not> h_everything_end c2" "h_start_use c2 = h_used_len c2"
    "to_send c2 = to_send c" "content (h_send_buffer c2) = [] \<longrightarrow> response_end c2" by blast
  from serving_refill [OF assms(1) c2(2,3,4,6)] obtain c3 where
    c3: "http_refill heap c2 = (Inr (), c3)" "serving c3" "\<not> h_everything_end c3" "to_send c3 = to_send c2"
    "h_start_use c3 < h_used_len c3 \<or> h_start_use c3 = h_used_len c3 \<and> content (h_send_buffer c3) = [] \<and> response_end c3" by blast
  from serving_finish [OF assms(1) c3(2,3,5)] c2 c3 show ?thesis by (simp add: after_writing_def)
qed

lemma serving_send_loop:
  assumes "serving c" "\<not> h_everything_end c" "http_send_loop s as c = Some (d, trace)" "h_start_use d \<le> h_used_len d"
  shows "serving d" "concat trace @ to_send d = to_send c" "h_start_use d = h_used_len d \<Longrightarrow> \<not> h_everything_end d"
    "h_everything_end d \<Longrightarrow> \<exists>a \<in> set as. fatal s a" "h_start_use c < h_start_use d \<Longrightarrow> length (to_send d) < length (to_send c)"
    "h_start_use c \<le> h_start_use d" "h_used_len d = h_used_len c"
proof -
  have c: "0 \<le> h_start_use c" "h_start_use c \<le> h_used_len c" using assms(1) by (simp_all add: serving_def)
  note frame = http_send_loop_frame [OF assms(3,2)]
  note sends = http_send_loop_sends [OF c assms(3)]
  let ?i = "nat (h_start_use c)" and ?j = "nat (h_start_use d)" and ?k = "nat (h_used_len c)"
  have ij: "?i \<le> ?j" "?j \<le> ?k" using sends assms(4) by (auto intro: nat_mono)
  have trace: "concat trace = seg ?i ?j (h_array c)" using sends ij by (simp add: min_absorb1)
  with seg_join [OF ij, of "h_array c"] show p: "concat trace @ to_send d = to_send c" using frame sends by (simp add: to_send_def)
  show "serving d" using assms(1,2,4) frame sends c by (auto simp: serving_def sendable_def split: if_splits)
  show "h_start_use d = h_used_len d \<Longrightarrow> \<not> h_everything_end d" "h_everything_end d \<Longrightarrow> \<exists>a \<in> set as. fatal s a"
    "h_start_use c \<le> h_start_use d" "h_used_len d = h_used_len c"
    using frame sends by (auto split: if_splits)
  assume "h_start_use c < h_start_use d"
  moreover have "?k \<le> length (h_array c)" using assms(1) by (auto simp: serving_def)
  ultimately have "0 < length (concat trace)" using trace c ij by (simp add: seg_def)
  moreover have "length (concat trace) + length (to_send d) = length (to_send c)" using p by (metis length_append)
  ultimately show "length (to_send d) < length (to_send c)" by linarith
qed

lemma http_write_eq:
  assumes "serving c" "\<not> h_everything_end c"
  shows "http_write heap (app_write_end heap) s as c =
    map_option (\<lambda>(c1, trace). case after_writing heap c1 of (r, d) \<Rightarrow> (r, d, trace)) (http_send_loop s as c)"
  using assms by (auto simp: http_write_def serving_def after_writing_def split: option.splits prod.splits)

text \<open>One task: what left and what is pending is what was pending; it ends the connection only when nothing is
  pending or the socket failed; when it got rid of its array it ends the connection or has something to send.\<close>

lemma serving_write:
  assumes heap: "heap_total heap" and c: "serving c" "\<not> h_everything_end c"
    and loop: "http_send_loop s as c = Some (c1, trace)" "h_start_use c1 \<le> h_used_len c1"
  shows "\<exists>d. http_write heap (app_write_end heap) s as c = Some (Inr (), d, trace) \<and> serving d \<and> concat trace @ to_send d = to_send c \<and>
    (h_everything_end d \<longrightarrow> to_send d = [] \<or> (\<exists>a \<in> set as. fatal s a)) \<and>
    (h_start_use c1 = h_used_len c1 \<longrightarrow> (if h_everything_end d then to_send d = [] else h_start_use d < h_used_len d) \<and>
      (h_start_use c < h_used_len c \<longrightarrow> length (to_send d) < length (to_send c)))"
proof -
  note s1 = serving_send_loop [OF c loop]
  show ?thesis
  proof (cases "h_start_use c1 = h_used_len c1")
    case False
    then show ?thesis using s1 loop(1) by (auto simp: http_write_eq [OF c] after_writing_idle)
  next
    case True
    from serving_after_writing [OF heap s1(1) s1(3) [OF True] True] obtain d where
      d: "after_writing heap c1 = (Inr (), d)" "serving d" "to_send d = to_send c1"
      "if h_everything_end d then to_send d = [] else h_start_use d < h_used_len d" by blast
    have "length (to_send d) < length (to_send c)" if "h_start_use c < h_used_len c" using s1(5,7) True that d(3) by simp
    with d s1(2) loop(1) True show ?thesis by (intro exI [of _ d]) (auto simp: http_write_eq [OF c] split: if_splits)
  qed
qed

lemma http_write_loop:
  assumes "serving c" "\<not> h_everything_end c" "http_write heap (app_write_end heap) s as c = Some (r, d, trace)" "h_start_use d \<le> h_used_len d"
  obtains c1 where "http_send_loop s as c = Some (c1, trace)" "h_start_use c1 \<le> h_used_len c1"
proof -
  obtain c1 where c1: "http_send_loop s as c = Some (c1, trace)" "after_writing heap c1 = (r, d)"
    using assms(3) by (auto simp: http_write_eq [OF assms(1,2)] split_beta)
  then have "h_start_use c1 \<le> h_used_len c1" using after_writing_idle [of c1 heap] assms(4) by (cases "h_start_use c1 = h_used_len c1") simp_all
  with c1 show ?thesis by (intro that)
qed

subsection \<open>The request\<close>

text \<open>A connection that has not answered yet, and that reading keeps it so.\<close>

definition fresh :: "'p http_connection \<Rightarrow> bool" where
  "fresh c \<longleftrightarrow> sendable c \<and> content (h_send_buffer c) = [] \<and> length (h_array c) = http_buffer_size \<and> h_start_use c = 0 \<and>
     \<not> process_end c \<and> \<not> response_end c"

lemma fresh_updates [simp]:
  "fresh (c\<lparr>h_url := u\<rparr>) = fresh c" "fresh (c\<lparr>h_method := u\<rparr>) = fresh c" "fresh (c\<lparr>head_field_tmp := u\<rparr>) = fresh c"
  "fresh (c\<lparr>h_headers := hs\<rparr>) = fresh c" "fresh (c\<lparr>body := bs\<rparr>) = fresh c" "fresh (c\<lparr>recv_end := q\<rparr>) = fresh c"
  "fresh (c\<lparr>h_everything_end := q\<rparr>) = fresh c" "fresh (c\<lparr>h_used_len := n\<rparr>) = fresh c" "fresh (c\<lparr>h_parser := p\<rparr>) = fresh c"
  by (simp_all add: fresh_def sendable_def)

lemma fresh_settings: "fresh (snd (http_settings http_app_on_body e c)) = fresh c"
  by (cases e) (auto simp: http_add_header_def http_app_on_body_def add_to_body_def)

lemma fresh_callbacks: "fresh (snd (run_callbacks (http_settings http_app_on_body) es c)) = fresh c"
proof (induction es arbitrary: c)
  case (Cons e es)
  obtain r d where d: "http_settings http_app_on_body e c = (r, d)" by fastforce
  then have "fresh d = fresh c" using fresh_settings [of e c] by simp
  with Cons.IH [of d] d show ?case by (cases "run_callbacks (http_settings http_app_on_body) es d") simp
qed simp

lemma fresh_parsed:
  assumes "http_parser_execute parser http_app_on_body bs c = (n, u, d)"
  shows "fresh d = fresh c"
  using assms fresh_callbacks [of "fst (parser (h_parser c) bs)" c] by (auto simp: http_parser_execute_def split: prod.splits)

lemma fresh_read_loop:
  assumes "http_read_loop parser http_app_on_body s as c = Some d" "fresh c"
    and "\<forall>data. Received data \<in> set as \<longrightarrow> length data \<le> http_buffer_size"
  shows "fresh d \<and> (\<not> h_everything_end d \<longrightarrow> h_used_len d = 0)"
  using assms
proof (induction as arbitrary: c)
  case (Cons a as)
  obtain len data e where a: "socket_recv a 0 s = (len, data, e)" by (rule prod_cases3)
  define c1 where "c1 = c\<lparr>h_array := store_at 0 data (h_array c), h_used_len := len\<rparr>"
  have "length data \<le> http_buffer_size"
    using a Cons.prems(3) by (cases a) (auto simp: socket_recv_def split: if_splits)
  then have c1: "fresh c1" using Cons.prems(2) by (auto simp: c1_def fresh_def sendable_def)
  obtain np up c2 where p: "http_parser_execute parser http_app_on_body (take (nat len) (h_array c1)) c1 = (np, up, c2)" by (rule prod_cases3)
  have c2: "fresh c2" using fresh_parsed [OF p] c1 by simp
  have "http_read_loop parser http_app_on_body s (a # as) c =
      (if len = -1 \<and> e = EAGAIN then Some (c1\<lparr>h_used_len := 0\<rparr>)
       else if len = -1 \<and> e = EINTR then http_read_loop parser http_app_on_body s as (c1\<lparr>h_used_len := 0\<rparr>)
       else if 0 < len
       then (if up then http_read_loop parser http_app_on_body s as c2
             else if np \<noteq> len then Some (c2\<lparr>h_used_len := 0, h_everything_end := True\<rparr>)
             else http_read_loop parser http_app_on_body s as c2)
       else Some (c1\<lparr>h_everything_end := True\<rparr>))"
    unfolding http_read_loop.simps a prod.case Let_def c1_def [symmetric] p ..
  moreover have "\<forall>data. Received data \<in> set as \<longrightarrow> length data \<le> http_buffer_size" using Cons.prems(3) by simp
  ultimately show ?case
    using Cons.prems(1) Cons.IH [of "c1\<lparr>h_used_len := 0\<rparr>"] Cons.IH [of c2] c1 c2 by (auto split: if_splits)
qed simp

text \<open>What the application leaves alone when it answers.\<close>

definition same_frame :: "'p http_connection \<Rightarrow> 'p http_connection \<Rightarrow> bool" where
  "same_frame c d \<longleftrightarrow> h_array d = h_array c \<and> h_used_len d = h_used_len c \<and> h_start_use d = h_start_use c \<and> process_end d = process_end c \<and>
     h_everything_end d = h_everything_end c \<and> h_parser d = h_parser c"

lemma try_write_frame: "same_frame c (snd (try_write heap data c))"
  "h_write_end_callback (snd (try_write heap data c)) = h_write_end_callback c"
  by (auto simp: try_write_def same_frame_def split: prod.splits sum.splits)

lemma write_end_fd_frame:
  assumes "http_write_end_callback heap (c, Some (Fd (Some bs))) = (d, r)"
  shows "same_frame c d" "h_write_end_callback d = h_write_end_callback c"
  using assms try_write_frame [where c = c and heap = heap and data = "take 102400 bs"]
  by (auto simp: http_write_end_callback_def fd_callback_def same_frame_def Let_def split: if_splits prod.splits)

lemma process_file_frame:
  assumes "fst news" "\<not> has_dotdot (url_decode (h_url c))" "fs (prefix @ url_decode (h_url c)) = Some (Regular (Some bs))"
    and run: "http_process_callback heap news fs prefix c = (x, d, r)"
  shows "same_frame c d" "h_write_end_callback d"
proof -
  let ?c0 = "snd (try_write heap (file_head (mime_of (prefix @ url_decode (h_url c)))) (c\<lparr>h_ptr := True\<rparr>))"
  have "http_write_end_callback heap (?c0\<lparr>h_write_end_callback := True\<rparr>, Some (Fd (Some bs))) = (d, r)"
    using assms by (simp add: http_process_callback_def serve_file_def Let_def)
  from write_end_fd_frame [OF this] try_write_frame(1) [where c = "c\<lparr>h_ptr := True\<rparr>" and heap = heap]
  show "same_frame c d" "h_write_end_callback d" by (simp_all add: same_frame_def)
qed

lemma process_serves:
  fixes c :: "'p served"
  assumes heap: "heap_total heap" and c: "fresh c" "h_used_len c = 0" "recv_end c" "\<not> h_everything_end c"
    and path: "fst news" "\<not> has_dotdot (url_decode (h_url c))" "fs (prefix @ url_decode (h_url c)) = Some (Regular (Some bs))"
  defines "d \<equiv> http_process http_app_process_connection (app_process heap news fs prefix) c"
  shows "serving d" "\<not> h_everything_end d" "to_send d = file_head (mime_of (prefix @ url_decode (h_url c))) @ bs"
    "h_start_use d = h_used_len d"
proof -
  let ?c = "c\<lparr>process_end := True, h_destory_callback := True, process_callback := True\<rparr>"
  have c': "sendable ?c" "content (h_send_buffer ?c) = []" "\<not> response_end ?c" "h_url ?c = h_url c"
    using c(1) by (simp_all add: fresh_def sendable_def)
  obtain e rest out where e: "http_process_callback heap news fs prefix ?c = (Inr (), e, Some (Fd (Some rest)))" "sendable e"
    "content (h_send_buffer e) = file_head (mime_of (prefix @ url_decode (h_url c))) @ out" "bs = out @ rest" "response_end e \<longrightarrow> rest = []"
    using process_file [where fs = fs and prefix = prefix and news = news and c = ?c and heap = heap and bs = bs, OF heap c'(1-3) path(1)]
      path(2,3) c'(4) by auto
  have frame: "same_frame ?c e" "h_write_end_callback e"
    using process_file_frame [where c = ?c and fs = fs and prefix = prefix, OF path(1) _ _ e(1)] path(2,3) by simp_all
  have d: "d = e\<lparr>h_parser := (fst (h_parser c), Some (Fd (Some rest)))\<rparr>"
    using c e(1) by (simp add: d_def http_process_def http_app_process_connection_def app_process_def fresh_def)
  show "serving d" "\<not> h_everything_end d" "to_send d = file_head (mime_of (prefix @ url_decode (h_url c))) @ bs"
    "h_start_use d = h_used_len d"
    using c e frame by (auto simp: d serving_def to_send_def same_frame_def sendable_def fresh_def http_buffer_size_def)
qed

text \<open>A question to the file system that throws is caught by the task: the connection ends without a response.\<close>

lemma process_fs_throws:
  fixes c :: "'p served"
  assumes "\<not> h_everything_end c" "recv_end c" "\<not> process_end c"
    and "\<not> has_dotdot (url_decode (h_url c))" "fs (prefix @ url_decode (h_url c)) = Some (Fs_throws e)"
    and "d = http_process http_app_process_connection (app_process heap news fs prefix) c"
  shows "h_everything_end d" "h_send_buffer d = h_send_buffer c" "http_write heap cb s as d = Some (Inr (), d, [])"
  using assms
  by (simp_all add: http_process_def http_app_process_connection_def app_process_def http_process_callback_def http_write_def)

subsection \<open>The tasks that answer\<close>

lemma http_runs_step:
  assumes "http_runs heap s (as # ass) c = Some (e, out, all)"
  obtains d trace out' all' where "http_write heap (app_write_end heap) s as c = Some (Inr (), d, trace)" "h_start_use d \<le> h_used_len d"
    "http_runs heap s ass d = Some (e, out', all')" "out = concat trace @ out'"
    "all \<longleftrightarrow> (h_everything_end c \<or> (\<exists>d t. http_send_loop s as c = Some (d, t) \<and> h_start_use d = h_used_len d)) \<and> all'"
proof -
  obtain w where "http_write heap (app_write_end heap) s as c = Some w"
    using assms by (cases "http_write heap (app_write_end heap) s as c") simp_all
  moreover obtain r d trace where "w = (r, d, trace)" by (rule prod_cases3)
  ultimately have r: "http_write heap (app_write_end heap) s as c = Some (r, d, trace)" by simp
  then have "r = Inr ()" using assms by (cases r) simp_all
  with r have w: "http_write heap (app_write_end heap) s as c = Some (Inr (), d, trace)" "\<not> h_used_len d < h_start_use d"
    using assms by (simp_all split: if_splits)
  define full where "full \<longleftrightarrow> h_everything_end c \<or> (case http_send_loop s as c of Some (e, _) \<Rightarrow> h_start_use e = h_used_len e | None \<Rightarrow> False)"
  have "map_option (\<lambda>(e, out, all'). (e, concat trace @ out, full \<and> all')) (http_runs heap s ass d) = Some (e, out, all)"
    using assms w by (simp add: full_def Let_def)
  then obtain out' all' where "http_runs heap s ass d = Some (e, out', all')" "out = concat trace @ out'" "all = (full \<and> all')"
    by auto
  moreover have "full \<longleftrightarrow> h_everything_end c \<or> (\<exists>d t. http_send_loop s as c = Some (d, t) \<and> h_start_use d = h_used_len d)"
    unfolding full_def by (cases "http_send_loop s as c") auto
  ultimately show ?thesis using w by (intro that [of d trace out' all']) (simp_all add: not_less)
qed

lemma http_runs_ended:
  "h_everything_end c \<Longrightarrow> http_runs heap s ass c = Some (d, out, all) \<Longrightarrow> d = c \<and> out = []"
proof (induction ass arbitrary: out all)
  case (Cons as ass)
  from Cons.prems(2) show ?case
  proof (rule http_runs_step)
    fix d' trace out' all'
    assume a: "http_write heap (app_write_end heap) s as c = Some (Inr (), d', trace)" "http_runs heap s ass d' = Some (d, out', all')" "out = concat trace @ out'"
    then have "d' = c" "trace = []" using Cons.prems(1) by (simp_all add: http_write_def)
    with a Cons.IH [OF Cons.prems(1), of out' all'] show ?thesis by simp
  qed
qed simp

lemma http_runs_serve:
  assumes "heap_total heap" "serving c" "\<not> h_everything_end c" "http_runs heap s ass c = Some (e, out, all)"
  shows "out @ to_send e = to_send c" "h_everything_end e \<Longrightarrow> to_send e = [] \<or> (\<exists>as \<in> set ass. \<exists>a \<in> set as. fatal s a)"
    "all \<Longrightarrow> length (to_send c) + (if h_start_use c < h_used_len c then 1 else 2) \<le> length ass \<Longrightarrow> h_everything_end e \<and> to_send e = []"
proof -
  have "out @ to_send e = to_send c \<and> (h_everything_end e \<longrightarrow> to_send e = [] \<or> (\<exists>as \<in> set ass. \<exists>a \<in> set as. fatal s a)) \<and>
    (all \<and> length (to_send c) + (if h_start_use c < h_used_len c then 1 else 2) \<le> length ass \<longrightarrow> h_everything_end e \<and> to_send e = [])"
    using assms(2-4)
  proof (induction ass arbitrary: c out all)
    case (Cons as ass)
    obtain d trace out' all' where w: "http_write heap (app_write_end heap) s as c = Some (Inr (), d, trace)" "h_start_use d \<le> h_used_len d"
      and r: "http_runs heap s ass d = Some (e, out', all')" "out = concat trace @ out'"
      and all: "all \<longleftrightarrow> (h_everything_end c \<or> (\<exists>d t. http_send_loop s as c = Some (d, t) \<and> h_start_use d = h_used_len d)) \<and> all'"
      by (rule http_runs_step [OF Cons.prems(3)])
    obtain c1 where c1: "http_send_loop s as c = Some (c1, trace)" "h_start_use c1 \<le> h_used_len c1"
      by (rule http_write_loop [OF Cons.prems(1,2) w])
    have step: "serving d" "concat trace @ to_send d = to_send c" "h_everything_end d \<longrightarrow> to_send d = [] \<or> (\<exists>a \<in> set as. fatal s a)"
      "h_start_use c1 = h_used_len c1 \<longrightarrow> (if h_everything_end d then to_send d = [] else h_start_use d < h_used_len d) \<and>
        (h_start_use c < h_used_len c \<longrightarrow> length (to_send d) < length (to_send c))"
      using serving_write [OF assms(1) Cons.prems(1,2) c1] w(1) by simp_all
    have full: "(if h_everything_end d then to_send d = [] else h_start_use d < h_used_len d) \<and>
        (h_start_use c < h_used_len c \<longrightarrow> length (to_send d) < length (to_send c))" if all
      using all that step(4) c1(1) Cons.prems(2) by simp
    have shrink: "length (to_send d) \<le> length (to_send c)" using step(2) by (metis length_append le_add2)
    show ?case
    proof (cases "h_everything_end d")
      case True
      with http_runs_ended [OF True r(1)] step(2,3) full r(2) show ?thesis by auto
    next
      case False
      have "h_everything_end e \<and> to_send e = []"
        if "all" "length (to_send c) + (if h_start_use c < h_used_len c then 1 else 2) \<le> Suc (length ass)"
      proof -
        have "length (to_send d) + 1 \<le> length ass" "h_start_use d < h_used_len d" "all'"
          using full [OF that(1)] that False shrink all by (auto split: if_splits)
        then show ?thesis using Cons.IH [OF step(1) False r(1)] by simp
      qed
      then show ?thesis using Cons.IH [OF step(1) False r(1)] step(2) r(2) by auto
    qed
  qed simp
  then show "out @ to_send e = to_send c" "h_everything_end e \<Longrightarrow> to_send e = [] \<or> (\<exists>as \<in> set ass. \<exists>a \<in> set as. fatal s a)"
    "all \<Longrightarrow> length (to_send c) + (if h_start_use c < h_used_len c then 1 else 2) \<le> length ass \<Longrightarrow> h_everything_end e \<and> to_send e = []"
    by simp_all
qed

text \<open>The tasks after the one that read the end of the request only write: such a task registers the socket for
  writing, or asks for the removal of the connection when the response is over.\<close>

lemma http_task_after_request:
  assumes "recv_end c" "process_end c" "http_write heap cb s sends c = Some (Inr (), d, trace)" "recv_end d"
  shows "http_task_io heap parser on_body app process_cb cb recvs sends s effs c =
    (if h_everything_end d then (case mark_close http_on_mark_close (d\<lparr>h_everything_end := True\<rparr>) of
       (rs, d) \<Rightarrow> Some (Inr (), effs @ map Request rs, Some d))
     else Some (Inr (), effs @ [Attach True], Some d))"
  using assms by (simp add: http_task_io_def http_process_def)

subsection \<open>Properties\<close>

text \<open>C3: a file through the HTTP server, from the request to the last byte. When the task has read a request that names a regular
  file, it processes it and writes; over this and any number of later tasks, however much of each block the socket takes, the
  bytes that leave are a beginning of the response, head and file. If the connection ends without a failure of the
  socket the whole response has left. And it ends: when each task gets rid of what is in the array, two tasks more than the response has
  bytes are enough.\<close>

theorem http_file_end_to_end:
  fixes c :: "'p served"
  assumes "heap_total heap" "fresh c" "http_read_loop parser http_app_on_body s recvs c = Some d" "recv_end d" "\<not> h_everything_end d"
    and "\<forall>data. Received data \<in> set recvs \<longrightarrow> length data \<le> http_buffer_size"
    and "fst news" "\<not> has_dotdot (url_decode (h_url d))" "fs (prefix @ url_decode (h_url d)) = Some (Regular (Some bs))"
    and "http_runs heap s ass (http_process http_app_process_connection (app_process heap news fs prefix) d) = Some (e, out, all_taken)"
  defines "response_bytes \<equiv> file_head (mime_of (prefix @ url_decode (h_url d))) @ bs"
  shows "(\<exists>rest. out @ rest = response_bytes) \<and>
    (h_everything_end e \<and> (\<forall>as \<in> set ass. \<forall>a \<in> set as. \<not> fatal s a) \<longrightarrow> out = response_bytes) \<and>
    (all_taken \<and> length response_bytes + 2 \<le> length ass \<longrightarrow> h_everything_end e \<and> out = response_bytes)"
proof -
  have d: "fresh d" "h_used_len d = 0" using fresh_read_loop [OF assms(3,2,6)] assms(5) by simp_all
  let ?d = "http_process http_app_process_connection (app_process heap news fs prefix) d"
  have p: "serving ?d" "\<not> h_everything_end ?d" "to_send ?d = response_bytes"
    unfolding response_bytes_def by (rule process_serves [where fs = fs and prefix = prefix and news = news, OF assms(1) d assms(4,5,7-9)])+
  note runs = http_runs_serve [OF assms(1) p(1,2) assms(10), unfolded p(3)]
  show ?thesis
  proof (intro conjI impI; (elim conjE)?)
    show "\<exists>rest. out @ rest = response_bytes" using runs(1) by blast
    show "out = response_bytes" if "h_everything_end e" "\<forall>as \<in> set ass. \<forall>a \<in> set as. \<not> fatal s a"
      using runs(1,2) that by auto
    assume "all_taken" "length response_bytes + 2 \<le> length ass"
    with runs(3) have "h_everything_end e \<and> to_send e = []" by (simp split: if_splits)
    with runs(1) show "h_everything_end e" "out = response_bytes" by simp_all
  qed
qed

definition demo_client :: "unit served" where
  "demo_client = http_reuse ((), None) (http_connection_new ((), None) None)"

text \<open>A parser that finds the request \<open>GET /a.txt\<close> in whatever it is given.\<close>

definition demo_parser :: "(unit \<times> response option) parser" where
  "demo_parser p bs = ([On_message_begin ''GET'', On_url ''/a.txt'', On_message_complete], \<lambda>k. (int (length bs), False, p))"

lemma demo_client_fresh: "fresh demo_client"
  by (simp add: demo_client_def fresh_def http_reuse_def http_connection_new_def connection_reuse_def sendable_def set_limit_max_def
      buffer_clear_def buffer_inv_def mem_def content_def)

lemma demo_client_reads:
  "\<exists>d. http_read_loop demo_parser http_app_on_body (socket_new [] 0) [Received [71, 69, 84], Recv_failed EAGAIN] demo_client = Some d \<and>
     recv_end d \<and> \<not> h_everything_end d \<and> h_url d = ''/a.txt''"
proof -
  have "take 3 (store_at 0 [71, 69, 84] xs) = [71, 69, 84 :: byte]" for xs
    using take_store_at_front [of "[71, 69, 84]" xs] by (simp add: numeral_3_eq_3)
  moreover have "min (length (store_at 0 [71, 69, 84] xs)) 3 = 3" for xs :: bytes by (simp add: store_at_def)
  ultimately show ?thesis
    by (simp add: socket_recv_def socket_new_def http_parser_execute_def demo_parser_def Let_def)
       (simp add: demo_client_def http_reuse_def)
qed

lemma http_runs_first_byte:
  assumes "heap_total heap" "serving c" "\<not> h_everything_end c" "h_start_use c = h_used_len c" "to_send c \<noteq> []"
  shows "\<exists>e out all. http_runs heap (socket_new [] 0) [[], [Sent 1, Send_failed EAGAIN]] c = Some (e, out, all) \<and> length out = 1"
proof -
  let ?s = "socket_new [] 0"
  have "http_send_loop ?s [] c = Some (c, [])" using assms(4) by (simp add: http_send_loop_unfold)
  from serving_write [OF assms(1-3) this] assms(4,5) obtain d where
    d: "http_write heap (app_write_end heap) ?s [] c = Some (Inr (), d, [])" "serving d" "\<not> h_everything_end d" "h_start_use d < h_used_len d"
    by (auto split: if_splits)
  let ?d1 = "d\<lparr>h_start_use := h_start_use d + 1\<rparr>" and ?t = "take 1 (seg (nat (h_start_use d)) (nat (h_used_len d)) (h_array d))"
  have "http_send_loop ?s [Sent 1, Send_failed EAGAIN] d = Some (?d1, [?t])"
    using d(4) by (simp add: http_send_loop_unfold socket_send_def socket_new_def)
  from serving_write [OF assms(1) d(2,3) this] d(4) obtain e where
    e: "http_write heap (app_write_end heap) ?s [Sent 1, Send_failed EAGAIN] d = Some (Inr (), e, [?t])" "serving e" by auto
  have "length ?t = 1" using d(2,4) by (auto simp: serving_def seg_def nat_less_iff)
  then show ?thesis using d e by (simp add: serving_def Let_def)
qed

theorem http_file_end_to_end_witness:
  "\<exists>d e out all. http_read_loop demo_parser http_app_on_body (socket_new [] 0) [Received [71, 69, 84], Recv_failed EAGAIN] demo_client = Some d \<and>
     http_runs zero_heap (socket_new [] 0) [[], [Sent 1, Send_failed EAGAIN]] (http_process http_app_process_connection
       (app_process zero_heap (True, True) (\<lambda>_. Some (Regular (Some [1, 2, 3]))) ''/srv'') d) = Some (e, out, all) \<and>
     out = [72]"
proof -
  let ?fs = "\<lambda>_ :: string. Some (Regular (Some [1, 2, 3 :: byte]))" and ?recvs = "[Received [71, 69, 84], Recv_failed EAGAIN]"
  let ?head = "file_head (mime_of (''/srv'' @ url_decode ''/a.txt''))"
  obtain d where d: "http_read_loop demo_parser http_app_on_body (socket_new [] 0) ?recvs demo_client = Some d" "recv_end d"
    "\<not> h_everything_end d" "h_url d = ''/a.txt''" using demo_client_reads by blast
  have fits: "\<forall>data. Received data \<in> set ?recvs \<longrightarrow> length data \<le> http_buffer_size" by (simp add: http_buffer_size_def)
  have path: "\<not> has_dotdot (url_decode (h_url d))" unfolding d(4) by code_simp
  have fresh: "fresh d" "h_used_len d = 0" using fresh_read_loop [OF d(1) demo_client_fresh fits] d(3) by simp_all
  let ?d = "http_process http_app_process_connection (app_process zero_heap (True, True) ?fs ''/srv'') d"
  have s: "serving ?d" "\<not> h_everything_end ?d" "to_send ?d = ?head @ [1, 2, 3]" "h_start_use ?d = h_used_len ?d"
    using process_serves [where fs = ?fs and prefix = "''/srv''" and news = "(True, True)" and bs = "[1, 2, 3]",
        OF heap_total_zero_heap fresh d(2,3) _ path] d(4) by simp_all
  from http_runs_first_byte [OF heap_total_zero_heap s(1,2,4)] s(3) obtain e out all where
    r: "http_runs zero_heap (socket_new [] 0) [[], [Sent 1, Send_failed EAGAIN]] ?d = Some (e, out, all)" "length out = 1" by auto
  from http_file_end_to_end [where fs = ?fs and prefix = "''/srv''" and news = "(True, True)" and bs = "[1, 2, 3]",
      OF heap_total_zero_heap demo_client_fresh d(1-3) fits _ path _ r(1)] d(4)
  obtain rest where "out @ rest = ?head @ [1, 2, 3]" by auto
  then have "take 1 (out @ rest) = [72]" by (simp add: file_head_def string_bytes_def)
  then have "out = [72]" using r(2) by simp
  with d(1) r(1) show ?thesis by blast
qed

end
