(* ===== verification/Tk_Stream_App.thy ===== *)
theory Tk_Stream_App
  imports Tk_Connection Tk_Conn_Mgr
begin

section \<open>The stream application (src/app/stream_app.cpp)\<close>

text \<open>
  The receive buffer is cut into \<open>ProtoPackage\<close> messages, and every request is answered on the
  same connection. Protocol Buffers is a library: its functions on the messages of the application are
  the fields of \<open>protobuf\<close>. The connection objects are a store, so that \<open>send_packet\<close> can
  also reach a connection by its id through the connection manager; the requests to the server are results.
  The loop of \<open>process_connection\<close> has no bound of its own and takes fuel.

  The theory shows that a single request is answered and taken off the buffer, and two consequences of
  a format without lengths: a request that is encoded with an explicit command 0 keeps the worker in the
  loop for ever, and of two requests that arrive together only the second one is answered, twice when
  they have the same length.
\<close>

record package =
  cmd :: int
  pkg_body :: bytes

record protobuf =
  parse_package :: "bytes \<Rightarrow> package option"
  package_bytes :: "package \<Rightarrow> bytes"
  package_size :: "package \<Rightarrow> nat"
  parse_request :: "bytes \<Rightarrow> bytes option"
  response_bytes :: "bytes \<Rightarrow> bytes"

definition CS_REQ_EXAMPLE :: int where
  "CS_REQ_EXAMPLE = 0"

definition CS_RES_EXAMPLE :: int where
  "CS_RES_EXAMPLE = 1"

type_synonym store = "nat \<Rightarrow> stream_connection"

definition stream_on_close_connection :: "nat \<Rightarrow> nat set \<Rightarrow> nat set" where
  "stream_on_close_connection gid global_player = global_player - {gid}"

definition stream_on_new_connection :: "nat \<Rightarrow> nat set \<Rightarrow> nat set" where
  "stream_on_new_connection gid global_player = insert gid global_player"

subsection \<open>Sending\<close>

definition send_at :: "heap \<Rightarrow> bytes \<Rightarrow> nat \<Rightarrow> store \<Rightarrow> bool \<times> request list \<times> store" where
  "send_at heap data p conns =
     (case buffered_send heap (Some data) (conns p) of (res, reqs, c) \<Rightarrow> (res, reqs, conns(p := c)))"

definition stream_send_packet :: "heap \<Rightarrow> nat option \<Rightarrow> bytes option \<Rightarrow> nat \<Rightarrow> (nat \<times> nat) connection_mgr \<Rightarrow> store \<Rightarrow>
    (bool \<times> request list \<times> store) option" where
  "stream_send_packet heap p_conn data gid mgr conns =
     (case data of
        None \<Rightarrow> Some (False, [], conns)
      | Some bs \<Rightarrow>
          if length bs = 0 then Some (False, [], conns)
          else (case p_conn of
                  Some p \<Rightarrow>
                    if gid = 0 then Some (send_at heap bs p conns)
                    else mgr_if_exist gid (Some (\<lambda>key (_, q) (_, _, conns). send_at heap bs q conns)) None mgr (False, [], conns)
                | None \<Rightarrow>
                    mgr_if_exist gid (Some (\<lambda>key (_, q) (_, _, conns). send_at heap bs q conns)) None mgr (False, [], conns)))"

definition send_protocol :: "heap \<Rightarrow> protobuf \<Rightarrow> (nat \<times> nat) connection_mgr \<Rightarrow> nat option \<Rightarrow> int \<Rightarrow> bytes \<Rightarrow> nat \<Rightarrow> store \<Rightarrow>
    (bool \<times> request list \<times> store) option" where
  "send_protocol heap pb mgr p_conn c pack gid conns =
     stream_send_packet heap p_conn (Some (package_bytes pb \<lparr>cmd = c, pkg_body = pack\<rparr>)) gid mgr conns"

definition process_protocol :: "heap \<Rightarrow> protobuf \<Rightarrow> (nat \<times> nat) connection_mgr \<Rightarrow> nat \<Rightarrow> package \<Rightarrow> store \<Rightarrow>
    (int \<times> request list \<times> store) option" where
  "process_protocol heap pb mgr p package conns =
     (if cmd package = CS_REQ_EXAMPLE
      then (case parse_request pb (pkg_body package) of
              Some testcontext \<Rightarrow>
                (case send_protocol heap pb mgr (Some p) CS_RES_EXAMPLE (response_bytes pb testcontext) 0 conns of
                   None \<Rightarrow> None
                 | Some (send_res, reqs, conns) \<Rightarrow> Some (0, reqs, conns))
            | None \<Rightarrow> Some (-1, [], conns))
      else Some (-1, [], conns))"

subsection \<open>Receiving\<close>

text \<open>
  \<open>data\<close> is the block from the read pointer on, as it was when the loop was entered: the loop keeps that pointer.
\<close>

fun stream_loop :: "heap \<Rightarrow> protobuf \<Rightarrow> (nat \<times> nat) connection_mgr \<Rightarrow> nat \<Rightarrow> bytes \<Rightarrow> nat \<Rightarrow> nat \<Rightarrow> nat \<Rightarrow> store \<Rightarrow>
    (nat \<times> request list \<times> store) option" where
  "stream_loop heap pb mgr p data all_data_len 0 offset conns = None"
| "stream_loop heap pb mgr p data all_data_len (Suc n) offset conns =
     (let data_len = usub64 all_data_len offset in
      if data_len = 0 then Some (offset, [], conns)
      else (case parse_package pb (take data_len (drop offset data)) of
              None \<Rightarrow> Some (offset, [], conns)
            | Some package \<Rightarrow>
                (case process_protocol heap pb mgr p package conns of
                   None \<Rightarrow> None
                 | Some (ret, reqs, conns) \<Rightarrow>
                     if ret \<noteq> 0
                     then (case mark_close buffered_on_mark_close (conns p) of
                             (reqs', c) \<Rightarrow> Some (offset, reqs @ reqs', conns(p := c\<lparr>m_recv_buffer := buffer_clear (m_recv_buffer c)\<rparr>)))
                     else (case stream_loop heap pb mgr p data all_data_len n (uadd64 offset (package_size pb package)) conns of
                             None \<Rightarrow> None
                           | Some (offset, reqs', conns) \<Rightarrow> Some (offset, reqs @ reqs', conns)))))"

definition stream_process_connection :: "heap \<Rightarrow> protobuf \<Rightarrow> (nat \<times> nat) connection_mgr \<Rightarrow> nat \<Rightarrow> nat \<Rightarrow> store \<Rightarrow>
    (unit res \<times> request list \<times> store) option" where
  "stream_process_connection heap pb mgr n p conns =
     (case can_readable_size heap (m_recv_buffer (conns p)) of
        (Inl e, b) \<Rightarrow> Some (Inl e, [], conns(p := (conns p)\<lparr>m_recv_buffer := b\<rparr>))
      | (Inr all_data_len, b) \<Rightarrow>
          if all_data_len = 0 then Some (Inr (), [], conns(p := (conns p)\<lparr>m_recv_buffer := b\<rparr>))
          else (case force_get_read_ptr heap b of
                  (Inl e, b) \<Rightarrow> Some (Inl e, [], conns(p := (conns p)\<lparr>m_recv_buffer := b\<rparr>))
                | (Inr data, b) \<Rightarrow>
                    (case stream_loop heap pb mgr p data all_data_len n 0 (conns(p := (conns p)\<lparr>m_recv_buffer := b\<rparr>)) of
                       None \<Rightarrow> None
                     | Some (offset, reqs, conns) \<Rightarrow>
                         (case read_ptr_move_n heap offset (m_recv_buffer (conns p)) of
                            (Inl e, b) \<Rightarrow> Some (Inl e, reqs, conns(p := (conns p)\<lparr>m_recv_buffer := b\<rparr>))
                          | (Inr ok, b) \<Rightarrow>
                              let conns = conns(p := (conns p)\<lparr>m_recv_buffer := b\<rparr>) in
                              if ok then Some (Inr (), reqs, conns)
                              else (case mark_close buffered_on_mark_close (conns p) of
                                      (reqs', c) \<Rightarrow> Some (Inr (), reqs @ reqs', conns(p := c)))))))"

subsection \<open>What the loop reads\<close>

text \<open>
  \<open>reads pb bs ms\<close>: from the bytes \<open>bs\<close> the loop reads the requests \<open>ms\<close>, each given by the
  message and its context, and nothing remains. \<open>answer\<close> is the encoded response to a context.
\<close>

fun reads :: "protobuf \<Rightarrow> bytes \<Rightarrow> (package \<times> bytes) list \<Rightarrow> bool" where
  "reads pb bs [] \<longleftrightarrow> bs = []"
| "reads pb bs ((package, ctx) # ms) \<longleftrightarrow>
     bs \<noteq> [] \<and> parse_package pb bs = Some package \<and> cmd package = CS_REQ_EXAMPLE \<and>
     parse_request pb (pkg_body package) = Some ctx \<and> package_size pb package \<le> length bs \<and>
     reads pb (drop (package_size pb package) bs) ms"

definition answer :: "protobuf \<Rightarrow> bytes \<Rightarrow> bytes" where
  "answer pb ctx = package_bytes pb \<lparr>cmd = CS_RES_EXAMPLE, pkg_body = response_bytes pb ctx\<rparr>"

lemma process_request:
  assumes "heap_total heap" "buffer_inv (m_wating_send_pack (conns p))" "0 < c_gid (conns p)" "answer pb ctx \<noteq> []"
    and "cmd package = CS_REQ_EXAMPLE" "parse_request pb (pkg_body package) = Some ctx"
    and "length (content (m_wating_send_pack (conns p))) + length (answer pb ctx) \<le> m_limit_max (m_wating_send_pack (conns p))"
  obtains w where "process_protocol heap pb mgr p package conns =
      Some (0, [Do_task (c_gid (conns p)) False True], conns(p := (conns p)\<lparr>m_wating_send_pack := w\<rparr>))"
    "buffer_inv w" "content w = content (m_wating_send_pack (conns p)) @ answer pb ctx"
    "m_limit_max w = m_limit_max (m_wating_send_pack (conns p))"
proof -
  obtain w where w: "buffer_write heap (Some (answer pb ctx)) (m_wating_send_pack (conns p)) = (Inr (length (answer pb ctx)), w)"
    "buffer_inv w" "content w = content (m_wating_send_pack (conns p)) @ answer pb ctx"
    "m_limit_max w = m_limit_max (m_wating_send_pack (conns p))"
    by (rule buffer_write_ok [OF assms(1,2,4,7)])
  show ?thesis
    by (rule that [OF _ w(2-4)])
      (use w(1) assms(3-6) in \<open>simp add: process_protocol_def send_protocol_def stream_send_packet_def send_at_def
         buffered_send_def answer_def\<close>)
qed

lemma stream_loop_reads:
  assumes "heap_total heap" "0 < c_gid (conns p)" "\<forall>(package, ctx) \<in> set ms. answer pb ctx \<noteq> []"
    and "reads pb bs ms" "take (length bs) (drop offset data) = bs" "offset + length bs = all_data_len" "all_data_len < object_limit"
    and "length ms < n" "buffer_inv (m_wating_send_pack (conns p))"
    and "length (content (m_wating_send_pack (conns p))) + length (concat (map (answer pb \<circ> snd) ms)) \<le>
      m_limit_max (m_wating_send_pack (conns p))"
  shows "\<exists>w. stream_loop heap pb mgr p data all_data_len n offset conns =
      Some (all_data_len, replicate (length ms) (Do_task (c_gid (conns p)) False True),
        conns(p := (conns p)\<lparr>m_wating_send_pack := w\<rparr>)) \<and>
    content w = content (m_wating_send_pack (conns p)) @ concat (map (answer pb \<circ> snd) ms) \<and>
    buffer_inv w \<and> m_limit_max w = m_limit_max (m_wating_send_pack (conns p))"
  using assms(2-)
proof (induction ms arbitrary: bs offset n conns)
  case Nil
  then obtain m where "n = Suc m" by (cases n) simp_all
  then show ?case using Nil by (intro exI [of _ "m_wating_send_pack (conns p)"]) (simp add: Let_def fun_upd_idem)
next
  case (Cons x ms)
  obtain package ctx where x: "x = (package, ctx)" by (cases x)
  obtain m where n: "n = Suc m" "length ms < m" using Cons.prems(7) by (cases n) simp_all
  let ?k = "package_size pb package"
  have r: "bs \<noteq> []" "parse_package pb bs = Some package" "cmd package = CS_REQ_EXAMPLE"
    "parse_request pb (pkg_body package) = Some ctx" "?k \<le> length bs" "reads pb (drop ?k bs) ms"
    using Cons.prems(3) by (simp_all add: x)
  obtain w where w: "process_protocol heap pb mgr p package conns =
      Some (0, [Do_task (c_gid (conns p)) False True], conns(p := (conns p)\<lparr>m_wating_send_pack := w\<rparr>))"
    "buffer_inv w" "content w = content (m_wating_send_pack (conns p)) @ answer pb ctx"
    "m_limit_max w = m_limit_max (m_wating_send_pack (conns p))"
    by (rule process_request [where ctx = ctx and package = package and pb = pb and p = p and conns = conns,
          OF assms(1) Cons.prems(8) Cons.prems(1) _ r(3,4)])
      (use Cons.prems(2,9) in \<open>auto simp: x\<close>)
  let ?conns = "conns(p := (conns p)\<lparr>m_wating_send_pack := w\<rparr>)"
  have "take (length (drop ?k bs)) (drop (offset + ?k) data) = drop ?k bs"
    using Cons.prems(4) by (metis add.commute drop_drop drop_take length_drop)
  then have "\<exists>w'. stream_loop heap pb mgr p data all_data_len m (offset + ?k) ?conns =
      Some (all_data_len, replicate (length ms) (Do_task (c_gid (?conns p)) False True), ?conns(p := (?conns p)\<lparr>m_wating_send_pack := w'\<rparr>)) \<and>
    content w' = content (m_wating_send_pack (?conns p)) @ concat (map (answer pb \<circ> snd) ms) \<and>
    buffer_inv w' \<and> m_limit_max w' = m_limit_max (m_wating_send_pack (?conns p))"
    by (intro Cons.IH [where bs = "drop ?k bs"]) (use Cons.prems r w n in \<open>simp_all add: x\<close>)
  then obtain w' where w': "stream_loop heap pb mgr p data all_data_len m (offset + ?k) ?conns =
      Some (all_data_len, replicate (length ms) (Do_task (c_gid (conns p)) False True), conns(p := (conns p)\<lparr>m_wating_send_pack := w'\<rparr>))"
    "content w' = content w @ concat (map (answer pb \<circ> snd) ms)" "buffer_inv w'" "m_limit_max w' = m_limit_max w" by auto
  have "all_data_len - offset = length bs" "0 < length bs" "offset < all_data_len" "uadd64 offset ?k = offset + ?k"
    using Cons.prems(5,6) r(1,5) by auto
  then show ?case using w(1,3,4) w' r(2) Cons.prems(4)
    by (intro exI [of _ w']) (simp add: n(1) x Let_def, simp add: fun_upd_def comp_def)
qed

lemma process_connection_reads:
  assumes heap: "heap_total heap" and c: "conn_ok (conns p)" "0 < c_gid (conns p)"
    and ms: "reads pb (content (m_recv_buffer (conns p))) ms" "ms \<noteq> []" "length ms < n"
    and space: "\<forall>(package, ctx) \<in> set ms. answer pb ctx \<noteq> []"
      "length (content (m_wating_send_pack (conns p))) + length (concat (map (answer pb \<circ> snd) ms)) \<le> mem_buffer_size_max"
  shows "\<exists>b w. stream_process_connection heap pb mgr n p conns =
      Some (Inr (), replicate (length ms) (Do_task (c_gid (conns p)) False True),
        conns(p := (conns p)\<lparr>m_wating_send_pack := w, m_recv_buffer := b\<rparr>)) \<and>
    content b = [] \<and> content w = content (m_wating_send_pack (conns p)) @ concat (map (answer pb \<circ> snd) ms) \<and>
    conn_ok ((conns p)\<lparr>m_wating_send_pack := w, m_recv_buffer := b\<rparr>)"
proof -
  let ?bs = "content (m_recv_buffer (conns p))"
  have inv: "buffer_inv (m_recv_buffer (conns p))" and winv: "buffer_inv (m_wating_send_pack (conns p))"
    and limit: "m_limit_max (m_wating_send_pack (conns p)) = mem_buffer_size_max"
    using c(1) by (simp_all add: conn_ok_def)
  have ne: "?bs \<noteq> []" using ms(1,2) by (cases ms) auto
  have small: "length ?bs < object_limit" using inv by (auto simp: content_def buffer_inv_def)
  obtain b1 where b1: "can_readable_size heap (m_recv_buffer (conns p)) = (Inr (length ?bs), b1)" "buffer_inv b1" "content b1 = ?bs"
    "m_limit_max b1 = m_limit_max (m_recv_buffer (conns p))"
    by (rule can_readable_size_ok [OF heap inv])
  obtain data b2 where b2: "force_get_read_ptr heap b1 = (Inr data, b2)" "buffer_inv b2" "content b2 = ?bs" "take (length ?bs) data = ?bs"
    "m_limit_max b2 = m_limit_max b1"
    using b1(3) by (metis force_get_read_ptr_ok [OF heap b1(2)])
  let ?conns = "conns(p := (conns p)\<lparr>m_recv_buffer := b2\<rparr>)"
  have "\<exists>w. stream_loop heap pb mgr p data (length ?bs) n 0 ?conns =
      Some (length ?bs, replicate (length ms) (Do_task (c_gid (?conns p)) False True), ?conns(p := (?conns p)\<lparr>m_wating_send_pack := w\<rparr>)) \<and>
    content w = content (m_wating_send_pack (?conns p)) @ concat (map (answer pb \<circ> snd) ms) \<and>
    buffer_inv w \<and> m_limit_max w = m_limit_max (m_wating_send_pack (?conns p))"
    by (rule stream_loop_reads [OF heap, where bs = ?bs]) (use c ms space b2(4) small winv limit in simp_all)
  then obtain w where w: "stream_loop heap pb mgr p data (length ?bs) n 0 ?conns =
      Some (length ?bs, replicate (length ms) (Do_task (c_gid (conns p)) False True), conns(p := (conns p)\<lparr>m_recv_buffer := b2, m_wating_send_pack := w\<rparr>))"
    "content w = content (m_wating_send_pack (conns p)) @ concat (map (answer pb \<circ> snd) ms)"
    "buffer_inv w" "m_limit_max w = m_limit_max (m_wating_send_pack (conns p))" by auto
  obtain b3 where b3: "read_ptr_move_n heap (length ?bs) b2 = (Inr True, b3)" "content b3 = drop (length ?bs) (content b2)"
    "buffer_inv b3" "m_limit_max b3 = m_limit_max b2"
    using read_ptr_move_n_ok [OF heap b2(2), of "length ?bs"] b2(3) by auto
  have "conn_ok ((conns p)\<lparr>m_wating_send_pack := w, m_recv_buffer := b3\<rparr>)"
    using c(1) w(3,4) b1(4) b2(5) b3(3,4) by (simp add: conn_ok_def)
  then show ?thesis using b1(1) b2(1,3) b3(1,2) w ne
    by - (rule exI [of _ b3], rule exI [of _ w], simp add: stream_process_connection_def)
qed

lemma stream_loop_stuck:
  assumes "parse_package pb bs = Some package" "cmd package = CS_REQ_EXAMPLE" "parse_request pb (pkg_body package) = Some ctx"
    and "package_size pb package = 0" "bs \<noteq> []" "take (length bs) data = bs" "length bs < object_limit"
  shows "stream_loop heap pb mgr p data (length bs) n 0 conns = None"
proof (induction n arbitrary: conns)
  case (Suc n)
  then show ?case using assms
    by (simp add: Let_def process_protocol_def send_protocol_def split: option.split)
qed simp

subsection \<open>Properties\<close>

text \<open>
  An instance of the library for short messages, in the wire format of Protocol Buffers: a field is a tag
  byte and a varint or a length and bytes; a later field replaces an earlier one; a field with the
  default value is not written.
\<close>

fun wire_package :: "bytes \<Rightarrow> package \<Rightarrow> package option" where
  "wire_package (t # v # r) m =
     (if t = 8 \<and> v < 128 then wire_package r (m\<lparr>cmd := uint v\<rparr>)
      else if t = 18 \<and> v < 128 \<and> unat v \<le> length r then wire_package (drop (unat v) r) (m\<lparr>pkg_body := take (unat v) r\<rparr>)
      else None)"
| "wire_package [] m = Some m"
| "wire_package _ m = None"

definition wire_package_bytes :: "package \<Rightarrow> bytes" where
  "wire_package_bytes m =
     (if cmd m = 0 then [] else [8, of_int (cmd m)]) @
     (if pkg_body m = [] then [] else [18, of_nat (length (pkg_body m))] @ pkg_body m)"

fun wire_context :: "bytes \<Rightarrow> bytes \<Rightarrow> bytes option" where
  "wire_context (t # v # r) m =
     (if t = 10 \<and> v < 128 \<and> unat v \<le> length r then wire_context (drop (unat v) r) (take (unat v) r) else None)"
| "wire_context [] m = Some m"
| "wire_context _ m = None"

definition wire_format :: protobuf where
  "wire_format = \<lparr>parse_package = (\<lambda>bs. wire_package bs \<lparr>cmd = 0, pkg_body = []\<rparr>), package_bytes = wire_package_bytes,
     package_size = (\<lambda>m. length (wire_package_bytes m)), parse_request = (\<lambda>bs. wire_context bs []),
     response_bytes = (\<lambda>ctx. if ctx = [] then [] else [10, of_nat (length ctx)] @ ctx)\<rparr>"

lemmas wire_simps = wire_format_def wire_package_bytes_def CS_REQ_EXAMPLE_def CS_RES_EXAMPLE_def answer_def mem_buffer_size_max_def
  inner_buffer_size_def

definition demo_conns :: "bytes \<Rightarrow> store" where
  "demo_conns bs = (\<lambda>_. demo_connection\<lparr>c_gid := 7, m_recv_buffer := snd (buffer_write zero_heap (Some bs) (m_recv_buffer demo_connection))\<rparr>)"

lemma demo_conns_ok:
  assumes "bs \<noteq> []" "length bs \<le> 1024"
  shows "conn_ok (demo_conns bs p)" "content (m_recv_buffer (demo_conns bs p)) = bs" "c_gid (demo_conns bs p) = 7"
    "content (m_wating_send_pack (demo_conns bs p)) = []"
proof -
  have ok: "buffer_inv (m_recv_buffer demo_connection)" "m_limit_max (m_recv_buffer demo_connection) = mem_buffer_size_max"
    "content (m_recv_buffer demo_connection) = []" "content (m_wating_send_pack demo_connection) = []"
    using demo_connection_ok(1,4,5) by (simp_all add: conn_ok_def incoming_def outgoing_def)
  have "length (content (m_recv_buffer demo_connection)) + length bs \<le> m_limit_max (m_recv_buffer demo_connection)"
    using ok(2,3) assms(2) by (simp add: mem_buffer_size_max_def inner_buffer_size_def)
  then obtain b where b: "buffer_write zero_heap (Some bs) (m_recv_buffer demo_connection) = (Inr (length bs), b)" "buffer_inv b"
    "content b = bs" "m_limit_max b = mem_buffer_size_max"
    using buffer_write_ok [OF heap_total_zero_heap ok(1) assms(1)] ok by (metis append_Nil)
  show "conn_ok (demo_conns bs p)" using demo_connection_ok(1) b by (simp add: demo_conns_def conn_ok_def)
  show "content (m_recv_buffer (demo_conns bs p)) = bs" "c_gid (demo_conns bs p) = 7"
    "content (m_wating_send_pack (demo_conns bs p)) = []"
    using b ok by (simp_all add: demo_conns_def)
qed

text \<open>A request that arrives alone is answered: its response is queued behind what already waits, a task to
  send it is requested, and the request is taken off the receive buffer. Of the library the encoding and
  decoding of messages are used: decoding inverts encoding, and the size of a message is the length of its encoding.\<close>

lemma stream_request_answered:
  assumes "heap_total heap" "conn_ok (conns p)" "0 < c_gid (conns p)"
    and "parse_package pb (package_bytes pb request) = Some request" "package_size pb request = length (package_bytes pb request)"
    and "content (m_recv_buffer (conns p)) = package_bytes pb request" "package_bytes pb request \<noteq> []"
    and "cmd request = CS_REQ_EXAMPLE" "parse_request pb (pkg_body request) = Some ctx"
    and "answer pb ctx \<noteq> []" "length (content (m_wating_send_pack (conns p))) + length (answer pb ctx) \<le> mem_buffer_size_max" "2 \<le> n"
  shows "\<exists>b w. stream_process_connection heap pb mgr n p conns =
      Some (Inr (), [Do_task (c_gid (conns p)) False True],
        conns(p := (conns p)\<lparr>m_wating_send_pack := w, m_recv_buffer := b\<rparr>)) \<and>
    content b = [] \<and> content w = content (m_wating_send_pack (conns p)) @ answer pb ctx"
  using process_connection_reads [where conns = conns and p = p, OF assms(1-3), of pb "[(request, ctx)]" n mgr] assms(4-) by auto

text \<open>C38: two requests of the same length that arrive together are not both answered. The library reads the two
  encodings as one message in which the fields of the second replace those of the first, so the second
  request is answered twice and the first one never.\<close>

theorem stream_pipelined_requests_lost:
  assumes "heap_total heap" "conn_ok (conns p)" "0 < c_gid (conns p)"
    and "parse_package pb (package_bytes pb second) = Some second" "package_size pb second = length (package_bytes pb second)"
    and "parse_package pb (package_bytes pb first @ package_bytes pb second) = Some second"
    and "content (m_recv_buffer (conns p)) = package_bytes pb first @ package_bytes pb second"
    and "package_bytes pb second \<noteq> []" "length (package_bytes pb first) = length (package_bytes pb second)"
    and "cmd second = CS_REQ_EXAMPLE" "parse_request pb (pkg_body second) = Some ctx"
    and "answer pb ctx \<noteq> []" "length (content (m_wating_send_pack (conns p))) + 2 * length (answer pb ctx) \<le> mem_buffer_size_max" "3 \<le> n"
  shows "\<exists>b w. stream_process_connection heap pb mgr n p conns =
      Some (Inr (), [Do_task (c_gid (conns p)) False True, Do_task (c_gid (conns p)) False True],
        conns(p := (conns p)\<lparr>m_wating_send_pack := w, m_recv_buffer := b\<rparr>)) \<and>
    content b = [] \<and> content w = content (m_wating_send_pack (conns p)) @ answer pb ctx @ answer pb ctx"
  using process_connection_reads [where conns = conns and p = p, OF assms(1-3), of pb "[(second, ctx), (second, ctx)]" n mgr] assms(4-)
  by (auto simp: numeral_2_eq_2)

theorem stream_pipelined_requests_lost_witness:
  "\<exists>b w. stream_process_connection zero_heap wire_format connection_mgr_new 3 0 (demo_conns [18, 3, 10, 1, 65, 18, 3, 10, 1, 66]) =
      Some (Inr (), [Do_task 7 False True, Do_task 7 False True],
        (demo_conns [18, 3, 10, 1, 65, 18, 3, 10, 1, 66])
          (0 := (demo_conns [18, 3, 10, 1, 65, 18, 3, 10, 1, 66] 0)\<lparr>m_wating_send_pack := w, m_recv_buffer := b\<rparr>)) \<and>
    content b = [] \<and> content w = [8, 1, 18, 3, 10, 1, 66, 8, 1, 18, 3, 10, 1, 66]"
proof -
  note c = demo_conns_ok [of "[18, 3, 10, 1, 65, 18, 3, 10, 1, 66]" 0, simplified]
  from stream_pipelined_requests_lost [where heap = zero_heap and conns = "demo_conns [18, 3, 10, 1, 65, 18, 3, 10, 1, 66]" and p = 0
      and pb = wire_format and first = "\<lparr>cmd = 0, pkg_body = [10, 1, 65]\<rparr>" and second = "\<lparr>cmd = 0, pkg_body = [10, 1, 66]\<rparr>"
      and ctx = "[66]" and n = 3 and mgr = connection_mgr_new] c
  show ?thesis by (simp add: wire_simps)
qed

text \<open>C39: a request that the library reads as a message of size 0 keeps the worker in the loop: whatever the fuel,
  \<open>process_connection\<close> does not return. The command of a request is 0, the default value, which is
  not written when the size is computed; the two bytes \<open>08 00\<close> are such a request.\<close>

theorem stream_zero_size_request_hangs:
  assumes "heap_total heap" "conn_ok (conns p)"
    and "content (m_recv_buffer (conns p)) = bs" "bs \<noteq> []" "parse_package pb bs = Some request"
    and "cmd request = CS_REQ_EXAMPLE" "parse_request pb (pkg_body request) = Some ctx" "package_size pb request = 0"
  shows "stream_process_connection heap pb mgr n p conns = None"
proof -
  have inv: "buffer_inv (m_recv_buffer (conns p))" using assms(2) by (simp add: conn_ok_def)
  then have small: "length bs < object_limit" using assms(3) by (auto simp: content_def buffer_inv_def)
  obtain b1 where b1: "can_readable_size heap (m_recv_buffer (conns p)) = (Inr (length bs), b1)" "buffer_inv b1" "content b1 = bs"
    using can_readable_size_ok [OF assms(1) inv] assms(3) by metis
  obtain data b2 where b2: "force_get_read_ptr heap b1 = (Inr data, b2)" "take (length bs) data = bs"
    using b1(3) by (metis force_get_read_ptr_ok [OF assms(1) b1(2)])
  from stream_loop_stuck [OF assms(5-8,4) b2(2) small] b1(1) b2(1) assms(4) show ?thesis
    by (simp add: stream_process_connection_def)
qed

theorem stream_zero_size_request_hangs_witness:
  "\<forall>n. stream_process_connection zero_heap wire_format connection_mgr_new n 0 (demo_conns [8, 0]) = None"
proof
  fix n
  have c: "conn_ok (demo_conns [8, 0] 0)" "content (m_recv_buffer (demo_conns [8, 0] 0)) = [8, 0]" by (rule demo_conns_ok; simp)+
  show "stream_process_connection zero_heap wire_format connection_mgr_new n 0 (demo_conns [8, 0]) = None"
    by (rule stream_zero_size_request_hangs [where p = 0 and conns = "demo_conns [8, 0]", OF heap_total_zero_heap c, where request = "\<lparr>cmd = 0, pkg_body = []\<rparr>" and ctx = "[]"])
      (simp_all add: wire_simps)
qed

end
