(* ===== verification/Tk_Lock.thy ===== *)
theory Tk_Lock
  imports Tk_Prelude
begin

section \<open>Mutexes, conditions, scoped locks (src/thread/mutex.cpp, condition.cpp, auto_lock.cpp)\<close>

text \<open>
  The classes only forward to the POSIX thread library, which is a parameter here: \<open>pthread\<close> has the functions they call, on
  an unknown type of mutexes and of conditions. The calling thread is an argument, and \<open>None\<close> is a call that does not return yet.
  \<open>auto_lock\<close> locks in its constructor and unlocks in its destructor and looks at neither result.

  Mutual exclusion is a promise of the library, not of this code. \<open>posix_mutex\<close> states what the standard documents of a mutex of the
  error-checking kind; under it the theory shows what the scopes of \<open>auto_lock\<close> make of the promise: threads that do not nest a scope in
  itself exclude each other (this is what the other theories rely on when they take a method under a mutex as one step), and a
  scope inside a scope of the same thread and mutex unlocks it, so that the rest of the outer scope is unprotected.
\<close>

definition EPERM :: int where "EPERM = 1"

definition EBUSY :: int where "EBUSY = 16"

definition EDEADLK :: int where "EDEADLK = 35"

subsection \<open>The classes\<close>

datatype mutex_kind = PTHREAD_MUTEX_NORMAL | PTHREAD_MUTEX_RECURSIVE | PTHREAD_MUTEX_ERRORCHECK

record ('m, 'c) pthread =
  pthread_mutex_init :: "mutex_kind \<Rightarrow> 'm"
  pthread_mutex_lock :: "nat \<Rightarrow> 'm \<Rightarrow> (int \<times> 'm) option"
  pthread_mutex_trylock :: "nat \<Rightarrow> 'm \<Rightarrow> int \<times> 'm"
  pthread_mutex_unlock :: "nat \<Rightarrow> 'm \<Rightarrow> int \<times> 'm"
  pthread_cond_init :: 'c
  pthread_cond_wait :: "nat \<Rightarrow> 'c \<Rightarrow> 'm \<Rightarrow> (int \<times> 'c \<times> 'm) option"
  pthread_cond_signal :: "'c \<Rightarrow> int \<times> 'c"
  pthread_cond_broadcast :: "'c \<Rightarrow> int \<times> 'c"

record 'm mutex =
  m_mutex :: 'm

definition mutex_new :: "('m, 'c) pthread \<Rightarrow> 'm mutex" where
  "mutex_new P = \<lparr>m_mutex = pthread_mutex_init P PTHREAD_MUTEX_ERRORCHECK\<rparr>"

definition mutex_lock :: "('m, 'c) pthread \<Rightarrow> nat \<Rightarrow> 'm mutex \<Rightarrow> (int \<times> 'm mutex) option" where
  "mutex_lock P t x = map_option (\<lambda>(r, m). (r, x\<lparr>m_mutex := m\<rparr>)) (pthread_mutex_lock P t (m_mutex x))"

definition mutex_try_lock :: "('m, 'c) pthread \<Rightarrow> nat \<Rightarrow> 'm mutex \<Rightarrow> int \<times> 'm mutex" where
  "mutex_try_lock P t x = (case pthread_mutex_trylock P t (m_mutex x) of (r, m) \<Rightarrow> (r, x\<lparr>m_mutex := m\<rparr>))"

definition mutex_unlock :: "('m, 'c) pthread \<Rightarrow> nat \<Rightarrow> 'm mutex \<Rightarrow> int \<times> 'm mutex" where
  "mutex_unlock P t x = (case pthread_mutex_unlock P t (m_mutex x) of (r, m) \<Rightarrow> (r, x\<lparr>m_mutex := m\<rparr>))"

record 'c cond =
  m_cond :: 'c

definition cond_new :: "('m, 'c) pthread \<Rightarrow> 'c cond" where
  "cond_new P = \<lparr>m_cond = pthread_cond_init P\<rparr>"

definition cond_wait :: "('m, 'c) pthread \<Rightarrow> nat \<Rightarrow> 'm mutex \<Rightarrow> 'c cond \<Rightarrow> (int \<times> 'm mutex \<times> 'c cond) option" where
  "cond_wait P t x c =
     map_option (\<lambda>(r, d, m). (r, x\<lparr>m_mutex := m\<rparr>, c\<lparr>m_cond := d\<rparr>)) (pthread_cond_wait P t (m_cond c) (m_mutex x))"

definition cond_signal :: "('m, 'c) pthread \<Rightarrow> 'c cond \<Rightarrow> int \<times> 'c cond" where
  "cond_signal P c = (case pthread_cond_signal P (m_cond c) of (r, d) \<Rightarrow> (r, c\<lparr>m_cond := d\<rparr>))"

definition cond_broadcast :: "('m, 'c) pthread \<Rightarrow> 'c cond \<Rightarrow> int \<times> 'c cond" where
  "cond_broadcast P c = (case pthread_cond_broadcast P (m_cond c) of (r, d) \<Rightarrow> (r, c\<lparr>m_cond := d\<rparr>))"

definition auto_lock_new :: "('m, 'c) pthread \<Rightarrow> nat \<Rightarrow> 'm mutex \<Rightarrow> 'm mutex option" where
  "auto_lock_new P t x = map_option snd (mutex_lock P t x)"

definition auto_lock_destroy :: "('m, 'c) pthread \<Rightarrow> nat \<Rightarrow> 'm mutex \<Rightarrow> 'm mutex" where
  "auto_lock_destroy P t x = snd (mutex_unlock P t x)"

subsection \<open>What the standard documents\<close>

text \<open>
  \<open>owner\<close> reads off a mutex who holds it. A new mutex is free; a lock takes a free mutex, fails with \<open>EDEADLK\<close> for its owner and does
  not return while another thread has it; an unlock frees the mutex for its owner and fails with \<open>EPERM\<close> for everyone else.
\<close>

definition posix_mutex :: "('m, 'c) pthread \<Rightarrow> ('m \<Rightarrow> nat option) \<Rightarrow> bool" where
  "posix_mutex P owner \<longleftrightarrow> owner (pthread_mutex_init P PTHREAD_MUTEX_ERRORCHECK) = None \<and>
     (\<forall>t m. case owner m of
        None \<Rightarrow> (\<exists>m'. pthread_mutex_lock P t m = Some (0, m') \<and> owner m' = Some t)
      | Some u \<Rightarrow> if u = t then (\<exists>m'. pthread_mutex_lock P t m = Some (EDEADLK, m') \<and> owner m' = Some t)
                  else pthread_mutex_lock P t m = None) \<and>
     (\<forall>t m. if owner m = Some t then (\<exists>m'. pthread_mutex_unlock P t m = (0, m') \<and> owner m' = None)
            else (\<exists>m'. pthread_mutex_unlock P t m = (EPERM, m') \<and> owner m' = owner m))"

lemma posix_lock_cases:
  assumes "posix_mutex P owner"
  shows "owner m = None \<Longrightarrow> \<exists>m'. pthread_mutex_lock P t m = Some (0, m') \<and> owner m' = Some t"
    "owner m = Some t \<Longrightarrow> \<exists>m'. pthread_mutex_lock P t m = Some (EDEADLK, m') \<and> owner m' = Some t"
    "owner m = Some u \<Longrightarrow> u \<noteq> t \<Longrightarrow> pthread_mutex_lock P t m = None"
proof -
  have "case owner m of
      None \<Rightarrow> (\<exists>m'. pthread_mutex_lock P t m = Some (0, m') \<and> owner m' = Some t)
    | Some u \<Rightarrow> if u = t then (\<exists>m'. pthread_mutex_lock P t m = Some (EDEADLK, m') \<and> owner m' = Some t)
                else pthread_mutex_lock P t m = None"
    using assms unfolding posix_mutex_def by blast
  then show "owner m = None \<Longrightarrow> \<exists>m'. pthread_mutex_lock P t m = Some (0, m') \<and> owner m' = Some t"
    "owner m = Some t \<Longrightarrow> \<exists>m'. pthread_mutex_lock P t m = Some (EDEADLK, m') \<and> owner m' = Some t"
    "owner m = Some u \<Longrightarrow> u \<noteq> t \<Longrightarrow> pthread_mutex_lock P t m = None"
    by simp_all
qed

lemma posix_lock:
  assumes "posix_mutex P owner" "pthread_mutex_lock P t m = Some (r, m')"
  shows "owner m' = Some t" "owner m = None \<or> owner m = Some t"
proof -
  have "owner m' = Some t \<and> (owner m = None \<or> owner m = Some t)"
  proof (cases "owner m")
    case None
    with posix_lock_cases(1) [OF assms(1) None, of t] assms(2) show ?thesis by auto
  next
    case (Some u)
    show ?thesis
    proof (cases "u = t")
      case True
      with posix_lock_cases(2) [OF assms(1), of m t] Some assms(2) show ?thesis by auto
    next
      case False
      with posix_lock_cases(3) [OF assms(1) Some] assms(2) show ?thesis by simp
    qed
  qed
  then show "owner m' = Some t" "owner m = None \<or> owner m = Some t" by simp_all
qed

lemma posix_unlock:
  assumes "posix_mutex P owner"
  shows "owner (snd (pthread_mutex_unlock P t m)) = (if owner m = Some t then None else owner m)"
  using assms by (auto simp: posix_mutex_def) (metis snd_conv)+

subsection \<open>Threads that use one mutex\<close>

record 'm lock_world =
  th_mutex :: "'m mutex"
  th_inside :: "nat \<Rightarrow> bool"

definition lock_start :: "('m, 'c) pthread \<Rightarrow> 'm lock_world" where
  "lock_start P = \<lparr>th_mutex = mutex_new P, th_inside = (\<lambda>_. False)\<rparr>"

inductive lock_step :: "('m, 'c) pthread \<Rightarrow> 'm lock_world \<Rightarrow> 'm lock_world \<Rightarrow> bool" for P where
  enter: "\<not> th_inside s t \<Longrightarrow> auto_lock_new P t (th_mutex s) = Some m \<Longrightarrow>
    lock_step P s (s\<lparr>th_mutex := m, th_inside := (th_inside s)(t := True)\<rparr>)"
| leave: "th_inside s t \<Longrightarrow>
    lock_step P s (s\<lparr>th_mutex := auto_lock_destroy P t (th_mutex s), th_inside := (th_inside s)(t := False)\<rparr>)"

lemma lock_step_owner:
  assumes "posix_mutex P owner" "lock_step P s s'" "\<forall>t. th_inside s t \<longleftrightarrow> owner (m_mutex (th_mutex s)) = Some t"
  shows "\<forall>t. th_inside s' t \<longleftrightarrow> owner (m_mutex (th_mutex s')) = Some t"
  using assms(2,3)
proof (induction rule: lock_step.induct)
  case (enter s t m)
  then obtain r m' where "pthread_mutex_lock P t (m_mutex (th_mutex s)) = Some (r, m')" "m_mutex m = m'"
    by (auto simp: auto_lock_new_def mutex_lock_def)
  with posix_lock [OF assms(1) this(1)] enter show ?case by auto
next
  case (leave s t)
  then show ?case
    using posix_unlock [OF assms(1), of t "m_mutex (th_mutex s)"]
    by (auto simp: auto_lock_destroy_def mutex_unlock_def split: prod.splits)
qed

text \<open>Two threads are never inside at the same time.\<close>

lemma auto_lock_excludes:
  assumes "posix_mutex P owner" "(lock_step P)\<^sup>*\<^sup>* (lock_start P) s" "th_inside s t" "th_inside s u"
  shows "t = u"
proof -
  from assms(2) have "\<forall>t. th_inside s t \<longleftrightarrow> owner (m_mutex (th_mutex s)) = Some t"
  proof (induction rule: rtranclp_induct)
    case base
    then show ?case using assms(1) by (simp add: lock_start_def mutex_new_def posix_mutex_def)
  next
    case (step y z)
    then show ?case using lock_step_owner [OF assms(1)] by blast
  qed
  with assms(3,4) show ?thesis by simp
qed

text \<open>A scope that a thread opens inside its own scope on the same mutex takes the protection away: the inner
  constructor fails silently, the inner destructor unlocks, and while the outer scope goes on any other
  thread can lock the mutex.\<close>

lemma nested_auto_lock_unprotects:
  assumes "posix_mutex P owner" "owner (m_mutex x) = None"
  shows "\<exists>x1 x2. auto_lock_new P t x = Some x1 \<and> auto_lock_new P t x1 = Some x2 \<and>
    owner (m_mutex (auto_lock_destroy P t x2)) = None \<and> auto_lock_new P u (auto_lock_destroy P t x2) \<noteq> None"
proof -
  note free = posix_lock_cases(1) [OF assms(1)] and again = posix_lock_cases(2) [OF assms(1)]
  obtain m1 where m1: "pthread_mutex_lock P t (m_mutex x) = Some (0, m1)" "owner m1 = Some t" using free [OF assms(2)] by blast
  obtain m2 where m2: "pthread_mutex_lock P t m1 = Some (EDEADLK, m2)" "owner m2 = Some t" using again [OF m1(2)] by blast
  obtain r m3 where m3: "pthread_mutex_unlock P t m2 = (r, m3)" by fastforce
  then have "owner m3 = None" using posix_unlock [OF assms(1), of t m2] m2(2) by simp
  with free [OF this, of u] m1 m2 m3 show ?thesis
    by (auto simp: auto_lock_new_def mutex_lock_def auto_lock_destroy_def mutex_unlock_def)
qed

text \<open>A library that keeps the owner, and the list of the waiting threads of a condition, has the documented behaviour.\<close>

definition owner_pthread :: "(nat option, nat list) pthread" where
  "owner_pthread =
     \<lparr>pthread_mutex_init = (\<lambda>_. None),
      pthread_mutex_lock = (\<lambda>t m. case m of None \<Rightarrow> Some (0, Some t) | Some u \<Rightarrow> if u = t then Some (EDEADLK, m) else None),
      pthread_mutex_trylock = (\<lambda>t m. if m = None then (0, Some t) else (EBUSY, m)),
      pthread_mutex_unlock = (\<lambda>t m. if m = Some t then (0, None) else (EPERM, m)),
      pthread_cond_init = [], pthread_cond_wait = (\<lambda>t c m. if t \<in> set c then None else Some (0, c, m)),
      pthread_cond_signal = (\<lambda>c. (0, drop 1 c)), pthread_cond_broadcast = (\<lambda>c. (0, []))\<rparr>"

lemma posix_mutex_owner_pthread: "posix_mutex owner_pthread id"
  by (auto simp: posix_mutex_def owner_pthread_def split: option.split)

end
