(* ===== verification/Tk_Lua.thy ===== *)
theory Tk_Lua
  imports Tk_Prelude
begin

section \<open>The Lua plugin (src/app/lua_plugin.cpp)\<close>

text \<open>
  The applications forward their hooks to a Lua script. Of the Lua machine the model keeps what the plugin is responsible for: whether
  the state exists, and the height of the stack that the plugin and the machine share. A call follows the manual of Lua:
  \<open>lua_getglobal\<close> pushes one value, \<open>lua_pcall\<close> without arguments and results pops the function and pushes an
  error message when it fails, \<open>luaL_dofile\<close> pushes a message when it fails. What the script does is a parameter. A call on a state
  that does not exist has no result.

  The theory shows that a script without errors keeps the stack at its height, that every failed hook leaves its message on
  the stack, so that a server whose script has no working \<open>OnTick\<close> fills it one slot per tick, and that hooks before
  the start or after the end use a state that does not exist.
\<close>

datatype lua_state = Lua_null | Lua_open nat | Lua_closed

record lua_plugin =
  lua_vm :: lua_state
  mounted :: bool

definition lua_plugin_new :: lua_plugin where
  "lua_plugin_new = \<lparr>lua_vm = Lua_null, mounted = False\<rparr>"

text \<open>\<open>lua_getglobal\<close> and \<open>lua_pcall\<close> of one of the three hooks; the message of a failed call is read but not popped.\<close>

definition exe_hook :: "bool \<Rightarrow> lua_plugin \<Rightarrow> lua_plugin option" where
  "exe_hook isok p =
     (case lua_vm p of
        Lua_open h \<Rightarrow> (let h = h + 1; h = h - 1 in Some (p\<lparr>lua_vm := Lua_open (if isok then h else h + 1)\<rparr>))
      | _ \<Rightarrow> None)"

definition exe_OnInit :: "bool \<Rightarrow> lua_plugin \<Rightarrow> lua_plugin option" where
  "exe_OnInit isok p = exe_hook isok p"

definition exe_OnExit :: "bool \<Rightarrow> lua_plugin \<Rightarrow> lua_plugin option" where
  "exe_OnExit isok p = exe_hook isok p"

definition exe_OnTick :: "bool \<Rightarrow> lua_plugin \<Rightarrow> lua_plugin option" where
  "exe_OnTick isok p = exe_hook isok p"

text \<open>\<open>mount\<close> pushes the table of functions and pops it into the global \<open>tubekit\<close>.\<close>

definition lua_mount :: "lua_plugin \<Rightarrow> lua_plugin option" where
  "lua_mount p =
     (case lua_vm p of
        Lua_open h \<Rightarrow> (let h = h + 1; h = h - 1 in Some (p\<lparr>lua_vm := Lua_open h, mounted := True\<rparr>))
      | _ \<Rightarrow> None)"

definition lua_on_init :: "bool \<Rightarrow> bool \<Rightarrow> lua_plugin \<Rightarrow> lua_plugin option" where
  "lua_on_init dofile_ok init_ok p =
     (let p = p\<lparr>lua_vm := Lua_open 0\<rparr> in
      if dofile_ok then (case lua_mount p of None \<Rightarrow> None | Some p \<Rightarrow> exe_OnInit init_ok p)
      else Some (p\<lparr>lua_vm := Lua_open 1\<rparr>))"

definition lua_on_tick :: "bool \<Rightarrow> lua_plugin \<Rightarrow> lua_plugin option" where
  "lua_on_tick isok p = exe_OnTick isok p"

definition lua_on_exit :: "bool \<Rightarrow> lua_plugin \<Rightarrow> lua_plugin option" where
  "lua_on_exit isok p =
     (if lua_vm p \<noteq> Lua_null
      then map_option (\<lambda>p. p\<lparr>lua_vm := Lua_closed\<rparr>) (exe_OnExit isok p)
      else Some p)"

text \<open>
  \<open>Logger\<close>, which a script calls: what it returns as the number of results, what it pushes, and the text it logs.
\<close>

datatype lua_value = Lua_string string | Lua_other

definition lua_Logger :: "lua_value list \<Rightarrow> int \<times> int \<times> string option" where
  "lua_Logger args =
     (case args of
        [Lua_string s] \<Rightarrow> (0, 0, Some s)
      | _ \<Rightarrow> (-1, -1, None))"

subsection \<open>Facts\<close>

fun lua_ticks :: "bool list \<Rightarrow> lua_plugin \<Rightarrow> lua_plugin option" where
  "lua_ticks [] p = Some p"
| "lua_ticks (ok # oks) p = (case lua_on_tick ok p of None \<Rightarrow> None | Some p \<Rightarrow> lua_ticks oks p)"

lemma lua_ticks_height:
  "lua_vm p = Lua_open h \<Longrightarrow>
     lua_ticks oks p = Some (p\<lparr>lua_vm := Lua_open (h + length (filter Not oks))\<rparr>)"
proof (induction oks arbitrary: p h)
  case (Cons ok oks)
  have "lua_on_tick ok p = Some (p\<lparr>lua_vm := Lua_open (if ok then h else h + 1)\<rparr>)"
    using Cons.prems by (simp add: lua_on_tick_def exe_OnTick_def exe_hook_def)
  then show ?case using Cons.IH [of "p\<lparr>lua_vm := Lua_open (if ok then h else h + 1)\<rparr>"] by simp
qed simp

lemma lua_on_init_height:
  "lua_on_init dofile_ok init_ok p = Some p' \<Longrightarrow> lua_vm p' = Lua_open (if dofile_ok \<and> init_ok then 0 else 1)"
  by (auto simp: lua_on_init_def lua_mount_def exe_OnInit_def exe_hook_def Let_def split: if_splits)

lemma lua_on_init_total: "\<exists>p'. lua_on_init dofile_ok init_ok p = Some p'"
  by (simp add: lua_on_init_def lua_mount_def exe_OnInit_def exe_hook_def Let_def)

text \<open>Before the start there is no state for a tick; after the end there is none for a second \<open>on_exit\<close>, which only looks for null.\<close>

lemma lua_outside_lifetime:
  "lua_on_tick ok lua_plugin_new = None"
  "lua_on_exit ok p = Some p' \<Longrightarrow> lua_vm p \<noteq> Lua_null \<Longrightarrow> lua_on_exit ok' p' = None \<and> lua_on_tick ok' p' = None"
  by (auto simp: lua_on_tick_def exe_OnTick_def exe_hook_def lua_plugin_new_def lua_on_exit_def exe_OnExit_def)

subsection \<open>Properties\<close>

text \<open>The plugin leaks a slot of the Lua stack with every hook that fails. After the start and any ticks the stack is as high as the
  number of failures: it stays empty when none fails, and a script whose \<open>OnTick\<close> is missing or fails exceeds the
  20 slots that Lua guarantees at the latest with the 21st tick.\<close>

lemma lua_failed_ticks_fill_the_stack:
  assumes "lua_on_init dofile_ok init_ok p = Some p1"
  shows "\<exists>p2. lua_ticks oks p1 = Some p2 \<and>
    lua_vm p2 = Lua_open ((if dofile_ok \<and> init_ok then 0 else 1) + length (filter Not oks)) \<and>
    (20 < length oks \<and> True \<notin> set oks \<longrightarrow> (\<exists>h > 20. lua_vm p2 = Lua_open h))"
proof -
  let ?h = "(if dofile_ok \<and> init_ok then 0 else 1) + length (filter Not oks)"
  have "lua_ticks oks p1 = Some (p1\<lparr>lua_vm := Lua_open ?h\<rparr>)"
    by (rule lua_ticks_height) (rule lua_on_init_height [OF assms])
  moreover have "length (filter Not oks) = length oks" if "True \<notin> set oks"
    using that by (metis (full_types) filter_True)
  ultimately show ?thesis by auto
qed

end
