(* ===== verification/Tk_Shm.thy ===== *)
theory Tk_Shm
  imports Tk_Prelude
begin

section \<open>The pool in shared memory (external/tubekit-ipc/shm.h)\<close>

text \<open>
  A segment of shared memory holds one byte per object, which says whether the object is used, and behind them the
  objects. The object \<open>shm_pool\<close> is a view of the segment: it keeps the descriptor and whether the segment is
  mapped, the segment itself is passed along, since other processes use it too. Pointers are offsets in the segment, \<open>tsize\<close>
  is \<open>sizeof(T)\<close>, the system calls are parameters.

  The theory shows that the pool implements a set of used slots and never touches an object, except that \<open>back\<close>
  also accepts the address behind the last object and then overwrites the first one, and that a pool that
  was closed closes its descriptor again when it is destroyed.
\<close>

record shm_pool =
  shm_count :: nat
  mem_size :: nat
  shm_name :: string
  mem_fd :: int
  mem_mapped :: bool

record shm_os =
  os_shm_open :: "string \<Rightarrow> int"
  os_shm_create :: "string \<Rightarrow> int"
  os_ftruncate :: "int \<Rightarrow> nat \<Rightarrow> bool"
  os_mmap :: "int \<Rightarrow> nat \<Rightarrow> bytes option"
  os_close :: "int \<Rightarrow> bool"
  os_shm_unlink :: "string \<Rightarrow> bool"

definition shm_pool_new :: "nat \<Rightarrow> string \<Rightarrow> nat \<Rightarrow> shm_pool" where
  "shm_pool_new tsize name count =
     \<lparr>shm_count = count, mem_size = count + tsize * count, shm_name = name, mem_fd = -1, mem_mapped = False\<rparr>"

text \<open>\<open>init\<close>: the result, the pool and the mapped segment. The marks are cleared only in a new segment.\<close>

definition shm_map :: "shm_os \<Rightarrow> bool \<Rightarrow> shm_pool \<Rightarrow> bool \<times> shm_pool \<times> bytes option" where
  "shm_map os recreate p =
     (case os_mmap os (mem_fd p) (mem_size p) of
        None \<Rightarrow> (False, p, None)
      | Some mem \<Rightarrow>
          (True, p\<lparr>mem_mapped := True\<rparr>,
           Some (if recreate then replicate (shm_count p) 0 @ drop (shm_count p) mem else mem)))"

definition shm_init :: "shm_os \<Rightarrow> shm_pool \<Rightarrow> bool \<times> shm_pool \<times> bytes option" where
  "shm_init os p =
     (let shm_fd = os_shm_open os (shm_name p) in
      if shm_fd = -1
      then (let p = p\<lparr>mem_fd := os_shm_create os (shm_name p)\<rparr> in
            if mem_fd p = -1 then (False, p, None)
            else if \<not> os_ftruncate os (mem_fd p) (mem_size p) then (False, p, None)
            else shm_map os True p)
      else shm_map os False (p\<lparr>mem_fd := shm_fd\<rparr>))"

text \<open>The result of \<open>close\<close> comes with the descriptors it closes.\<close>

definition shm_close :: "shm_os \<Rightarrow> shm_pool \<Rightarrow> bool \<times> int list \<times> shm_pool" where
  "shm_close os p =
     (let p = p\<lparr>mem_mapped := False\<rparr> in
      if mem_fd p \<noteq> -1 then (os_close os (mem_fd p), [mem_fd p], p) else (False, [], p))"

definition shm_unlink :: "shm_os \<Rightarrow> shm_pool \<Rightarrow> bool \<times> int list \<times> shm_pool" where
  "shm_unlink os p = (case shm_close os p of (_, closed, p) \<Rightarrow> (os_shm_unlink os (shm_name p), closed, p\<lparr>mem_mapped := False\<rparr>))"

definition shm_pool_destroy :: "shm_os \<Rightarrow> shm_pool \<Rightarrow> int list" where
  "shm_pool_destroy os p = (if mem_fd p \<noteq> -1 then fst (snd (shm_close os p)) else [])"

fun alloc_loop :: "nat \<Rightarrow> nat \<Rightarrow> bytes \<Rightarrow> nat option \<times> bytes" where
  "alloc_loop i 0 use_list = (None, use_list)"
| "alloc_loop i (Suc k) use_list =
     (if use_list ! i = 0 then (Some i, use_list[i := 1]) else alloc_loop (Suc i) k use_list)"

definition shm_alloc :: "nat \<Rightarrow> shm_pool \<Rightarrow> bytes \<Rightarrow> nat option \<times> bytes" where
  "shm_alloc tsize p mem =
     (case alloc_loop 0 (shm_count p) mem of
        (None, mem) \<Rightarrow> (None, mem) | (Some i, mem) \<Rightarrow> (Some (shm_count p + tsize * i), mem))"

definition shm_back :: "nat \<Rightarrow> shm_pool \<Rightarrow> int \<Rightarrow> bytes \<Rightarrow> bool \<times> bytes" where
  "shm_back tsize p t mem =
     (let start_addr = int (shm_count p); end_addr = start_addr + int (tsize * shm_count p) in
      if \<not> (t \<le> end_addr \<and> start_addr \<le> t) then (False, mem)
      else (let gap = nat (t - start_addr) in
            if gap mod tsize \<noteq> 0 then (False, mem)
            else (let index = gap div tsize in
                  if mem ! index \<noteq> 1 then (False, mem) else (True, mem[index := 0]))))"

definition get_by_index :: "nat \<Rightarrow> shm_pool \<Rightarrow> nat \<Rightarrow> nat option" where
  "get_by_index tsize p index = (if shm_count p < index then None else Some (shm_count p + tsize * index))"

fun foreach_loop :: "nat \<Rightarrow> shm_pool \<Rightarrow> (nat option \<Rightarrow> bool \<Rightarrow> 's \<Rightarrow> bool \<times> 's) \<Rightarrow> bool \<Rightarrow> bytes \<Rightarrow> nat \<Rightarrow> nat \<Rightarrow> 's \<Rightarrow> 's" where
  "foreach_loop tsize p callback used use_list i 0 s = s"
| "foreach_loop tsize p callback used use_list i (Suc k) s =
     (if used \<and> use_list ! i = 0 then foreach_loop tsize p callback used use_list (Suc i) k s
      else (case callback (get_by_index tsize p i) (use_list ! i \<noteq> 0) s of
              (continue_able, s) \<Rightarrow>
                if continue_able then foreach_loop tsize p callback used use_list (Suc i) k s else s))"

definition shm_foreach :: "nat \<Rightarrow> shm_pool \<Rightarrow> (nat option \<Rightarrow> bool \<Rightarrow> 's \<Rightarrow> bool \<times> 's) \<Rightarrow> bool \<Rightarrow> bytes \<Rightarrow> 's \<Rightarrow> 's" where
  "shm_foreach tsize p callback used mem s = foreach_loop tsize p callback used mem 0 (shm_count p) s"

subsection \<open>The set of used slots\<close>

definition shm_ok :: "nat \<Rightarrow> shm_pool \<Rightarrow> bytes \<Rightarrow> bool" where
  "shm_ok tsize p mem \<longleftrightarrow> 0 < tsize \<and> length mem = shm_count p + tsize * shm_count p \<and>
     (\<forall>i < shm_count p. mem ! i = 0 \<or> mem ! i = 1)"

definition used_slots :: "shm_pool \<Rightarrow> bytes \<Rightarrow> nat set" where
  "used_slots p mem = {i. i < shm_count p \<and> mem ! i = 1}"

definition objects :: "shm_pool \<Rightarrow> bytes \<Rightarrow> bytes" where
  "objects p mem = drop (shm_count p) mem"

definition slot_addr :: "nat \<Rightarrow> shm_pool \<Rightarrow> nat \<Rightarrow> nat" where
  "slot_addr tsize p i = shm_count p + tsize * i"

lemma alloc_loop_spec:
  "alloc_loop i k mem =
     (case find (\<lambda>j. mem ! j = 0) [i..<i + k] of None \<Rightarrow> (None, mem) | Some j \<Rightarrow> (Some j, mem[j := 1]))"
proof (induction i k mem rule: alloc_loop.induct)
  case (2 i k mem)
  have "[i..<i + Suc k] = i # [Suc i..<Suc i + k]" by (simp add: upt_rec)
  then show ?case using 2 by simp
qed simp

lemma shm_alloc_free:
  assumes "shm_ok tsize p mem" "shm_alloc tsize p mem = (Some t, mem')"
  shows "\<exists>i < shm_count p. t = slot_addr tsize p i \<and> i \<notin> used_slots p mem \<and> used_slots p mem' = insert i (used_slots p mem) \<and>
    objects p mem' = objects p mem \<and> shm_ok tsize p mem'"
proof -
  from assms(2) obtain i where "find (\<lambda>j. mem ! j = 0) [0..<shm_count p] = Some i" and i: "mem' = mem[i := 1]" "t = slot_addr tsize p i"
    by (auto simp: shm_alloc_def alloc_loop_spec slot_addr_def split: option.splits)
  then have "i < shm_count p" "mem ! i = 0" by (auto simp: find_Some_iff)
  with assms(1) i show ?thesis
    by (intro exI [of _ i]) (auto simp: used_slots_def objects_def shm_ok_def nth_list_update)
qed

lemma shm_alloc_full:
  assumes "shm_ok tsize p mem" "shm_alloc tsize p mem = (None, mem')"
  shows "mem' = mem" "used_slots p mem = {0..<shm_count p}"
proof -
  have "find (\<lambda>j. mem ! j = 0) [0..<shm_count p] = None" and s: "mem' = mem"
    using assms(2) by (auto simp: shm_alloc_def alloc_loop_spec split: option.splits)
  then show "mem' = mem" "used_slots p mem = {0..<shm_count p}"
    using assms(1) by (auto simp: find_None_iff used_slots_def shm_ok_def)
qed

lemma shm_back_slot:
  assumes "shm_ok tsize p mem" "i < shm_count p"
  shows "shm_back tsize p (int (slot_addr tsize p i)) mem = (i \<in> used_slots p mem, if i \<in> used_slots p mem then mem[i := 0] else mem)"
proof -
  have "nat (int (slot_addr tsize p i) - int (shm_count p)) = tsize * i"
    by (simp add: slot_addr_def flip: of_nat_mult)
  moreover have "tsize * i \<le> tsize * shm_count p" using assms(2) by simp
  moreover have "0 < tsize" using assms(1) by (simp add: shm_ok_def)
  ultimately show ?thesis using assms(2) by (simp add: shm_back_def Let_def used_slots_def slot_addr_def)
qed

text \<open>The address behind the last object; \<open>back\<close> lets it pass the test of the range.\<close>

definition past_end :: "nat \<Rightarrow> shm_pool \<Rightarrow> int" where
  "past_end tsize p = int (slot_addr tsize p (shm_count p))"

lemma shm_back_no_slot:
  assumes "0 < tsize" "\<forall>i < shm_count p. t \<noteq> int (slot_addr tsize p i)" "t \<noteq> past_end tsize p"
  shows "shm_back tsize p t mem = (False, mem)"
proof (rule ccontr)
  assume "\<not> ?thesis"
  then have t: "int (shm_count p) \<le> t" "t \<le> int (shm_count p) + int (tsize * shm_count p)" "nat (t - int (shm_count p)) mod tsize = 0"
    by (auto simp: shm_back_def Let_def split: if_splits)
  define i where "i = nat (t - int (shm_count p)) div tsize"
  have "nat (t - int (shm_count p)) = tsize * i" using t(3) by (metis i_def mult_div_mod_eq add_0_right)
  then have i: "t = int (slot_addr tsize p i)" using t(1) by (simp add: slot_addr_def nat_eq_iff)
  then have "tsize * i \<le> tsize * shm_count p" using t(2) by (simp add: slot_addr_def flip: of_nat_mult)
  then have "i < shm_count p \<or> i = shm_count p" using assms(1) by auto
  with i assms(2,3) show False by (auto simp: past_end_def)
qed

subsection \<open>The contract of the pool\<close>

text \<open>
  \<open>slot_set\<close> is what the clients of the pool rely on: \<open>n\<close> slots at the addresses \<open>addr\<close>, an allocation that finds
  an unused one, a return of any address but one (\<open>past\<close>) that answers whether it is that of a used slot, and objects (\<open>frame\<close>) that neither touches.
\<close>

datatype shm_event = Shm_alloc | Shm_back int

text \<open>A run of the clients: what each call returns, as the address or the success.\<close>

fun shm_run :: "('m \<Rightarrow> nat option \<times> 'm) \<Rightarrow> (int \<Rightarrow> 'm \<Rightarrow> bool \<times> 'm) \<Rightarrow> shm_event list \<Rightarrow> 'm \<Rightarrow> (nat option + bool) list \<times> 'm" where
  "shm_run alloc giveback [] mem = ([], mem)"
| "shm_run alloc giveback (Shm_alloc # es) mem =
     (case alloc mem of (r, mem) \<Rightarrow> (case shm_run alloc giveback es mem of (rs, mem) \<Rightarrow> (Inl r # rs, mem)))"
| "shm_run alloc giveback (Shm_back t # es) mem =
     (case giveback t mem of (r, mem) \<Rightarrow> (case shm_run alloc giveback es mem of (rs, mem) \<Rightarrow> (Inr r # rs, mem)))"

text \<open>The same run on the set of used slots.\<close>

fun set_run :: "nat \<Rightarrow> (nat \<Rightarrow> nat) \<Rightarrow> shm_event list \<Rightarrow> nat set \<Rightarrow> (nat option + bool) list \<Rightarrow> nat set \<Rightarrow> bool" where
  "set_run n addr [] U rs U' \<longleftrightarrow> rs = [] \<and> U' = U"
| "set_run n addr (Shm_alloc # es) U rs U' \<longleftrightarrow>
     (\<exists>r rs'. rs = Inl r # rs' \<and>
        (case r of None \<Rightarrow> U = {0..<n} \<and> set_run n addr es U rs' U'
         | Some t \<Rightarrow> \<exists>i < n. t = addr i \<and> i \<notin> U \<and> set_run n addr es (insert i U) rs' U'))"
| "set_run n addr (Shm_back t # es) U rs U' \<longleftrightarrow>
     (\<exists>rs'. rs = Inr (\<exists>i \<in> U. t = int (addr i)) # rs' \<and> set_run n addr es (U - {i. t = int (addr i)}) rs' U')"

locale slot_set =
  fixes n :: nat and addr :: "nat \<Rightarrow> nat" and ok :: "'m \<Rightarrow> bool" and used :: "'m \<Rightarrow> nat set" and frame :: "'m \<Rightarrow> 'f"
    and alloc :: "'m \<Rightarrow> nat option \<times> 'm" and giveback :: "int \<Rightarrow> 'm \<Rightarrow> bool \<times> 'm"
    and past :: int
  assumes alloc_some: "ok m \<Longrightarrow> alloc m = (Some t, m') \<Longrightarrow>
      \<exists>i < n. t = addr i \<and> i \<notin> used m \<and> used m' = insert i (used m) \<and> frame m' = frame m \<and> ok m'"
    and alloc_none: "ok m \<Longrightarrow> alloc m = (None, m') \<Longrightarrow> m' = m \<and> used m = {0..<n}"
    and back_slot: "ok m \<Longrightarrow> a \<noteq> past \<Longrightarrow> giveback a m = (r, m') \<Longrightarrow>
      r = (\<exists>i \<in> used m. a = int (addr i)) \<and> used m' = used m - {i. a = int (addr i)} \<and> frame m' = frame m \<and> ok m'"
begin

lemma run_is_set_run:
  assumes "ok m" "Shm_back past \<notin> set es" "shm_run alloc giveback es m = (rs, m')"
  shows "set_run n addr es (used m) rs (used m') \<and> frame m' = frame m \<and> ok m'"
  using assms
proof (induction es arbitrary: m rs)
  case (Cons e es)
  show ?case
  proof (cases e)
    case Shm_alloc
    obtain r m1 where r: "alloc m = (r, m1)" by fastforce
    obtain rs1 where rs1: "shm_run alloc giveback es m1 = (rs1, m')" "rs = Inl r # rs1"
      using Cons.prems(3) Shm_alloc r by (auto split: prod.splits)
    show ?thesis
    proof (cases r)
      case None
      with alloc_none [OF Cons.prems(1)] r Cons.IH [OF _ _ rs1(1)] Cons.prems rs1 Shm_alloc show ?thesis by auto
    next
      case (Some t)
      from alloc_some [OF Cons.prems(1), of t m1] r Some obtain i where
        i: "i < n" "t = addr i" "i \<notin> used m" "used m1 = insert i (used m)" "frame m1 = frame m" "ok m1" by auto
      from Cons.IH [OF i(6) _ rs1(1)] Cons.prems(2) i rs1(2) Shm_alloc Some show ?thesis by auto
    qed
  next
    case (Shm_back t)
    obtain r m1 where r: "giveback t m = (r, m1)" by fastforce
    have i: "t \<noteq> past" using Cons.prems(2) Shm_back by auto
    obtain rs1 where rs1: "shm_run alloc giveback es m1 = (rs1, m')" "rs = Inr r # rs1"
      using Cons.prems(3) Shm_back r by (auto split: prod.splits)
    from back_slot [OF Cons.prems(1) i r] Cons.IH [OF _ _ rs1(1)] Cons.prems(2) rs1(2) Shm_back show ?thesis by simp
  qed
qed simp

end

interpretation shm: slot_set "shm_count p" "slot_addr tsize p" "shm_ok tsize p" "used_slots p" "objects p"
  "shm_alloc tsize p" "shm_back tsize p" "past_end tsize p" for tsize p
proof
  fix m t m'
  assume "shm_ok tsize p m" "shm_alloc tsize p m = (Some t, m')"
  then show "\<exists>i < shm_count p. t = slot_addr tsize p i \<and> i \<notin> used_slots p m \<and> used_slots p m' = insert i (used_slots p m) \<and>
      objects p m' = objects p m \<and> shm_ok tsize p m'"
    by (rule shm_alloc_free)
next
  fix m m'
  assume "shm_ok tsize p m" "shm_alloc tsize p m = (None, m')"
  then show "m' = m \<and> used_slots p m = {0..<shm_count p}" using shm_alloc_full by blast
next
  fix m t r m'
  assume m: "shm_ok tsize p m" "t \<noteq> past_end tsize p" and run: "shm_back tsize p t m = (r, m')"
  then have t: "0 < tsize" by (simp add: shm_ok_def)
  have same: "(int (slot_addr tsize p i) = int (slot_addr tsize p j)) = (i = j)" for i j using t by (simp add: slot_addr_def)
  have less: "i < shm_count p" if "i \<in> used_slots p m" for i using that by (simp add: used_slots_def)
  show "r = (\<exists>i \<in> used_slots p m. t = int (slot_addr tsize p i)) \<and>
      used_slots p m' = used_slots p m - {i. t = int (slot_addr tsize p i)} \<and> objects p m' = objects p m \<and> shm_ok tsize p m'"
  proof (cases "\<exists>i < shm_count p. t = int (slot_addr tsize p i)")
    case True
    then obtain i where i: "i < shm_count p" "t = int (slot_addr tsize p i)" by blast
    have "r = (i \<in> used_slots p m)" "m' = (if i \<in> used_slots p m then m[i := 0] else m)"
      using run shm_back_slot [OF m(1) i(1)] i(2) by auto
    with m i same show ?thesis by (auto simp: used_slots_def objects_def shm_ok_def nth_list_update)
  next
    case False
    then have "r = False" "m' = m" using run shm_back_no_slot [OF t _ m(2), of m] by auto
    with m False less show ?thesis by blast
  qed
qed

subsection \<open>Properties\<close>

text \<open>C24: the pool in shared memory implements a set of used slots. Over any sequence of allocations and returns an
  allocation hands out an unused slot, fails only when all are used, a return succeeds exactly for the address of a used
  slot and makes it unused, and the objects are never touched. The returns may be of any addresses, in the pool or not, at
  a slot or between two, except the one address behind the last object, which \<open>back\<close> wrongly takes.\<close>

theorem shm_pool_is_a_set:
  assumes "shm_ok tsize p mem" "Shm_back (past_end tsize p) \<notin> set es"
    and "shm_run (shm_alloc tsize p) (shm_back tsize p) es mem = (rs, mem')"
  shows "set_run (shm_count p) (slot_addr tsize p) es (used_slots p mem) rs (used_slots p mem') \<and>
    objects p mem' = objects p mem \<and> shm_ok tsize p mem'"
  by (rule shm.run_is_set_run [OF assms])

definition demo_pool :: shm_pool where
  "demo_pool = shm_pool_new 4 ''/m_pool'' 2"

definition demo_segment :: bytes where
  "demo_segment = [1, 0] @ [1, 0, 0, 0] @ [0, 0, 0, 0]"

lemma demo_segment_ok: "shm_ok 4 demo_pool demo_segment" "used_slots demo_pool demo_segment = {0}"
  by (auto simp: shm_ok_def demo_pool_def shm_pool_new_def demo_segment_def used_slots_def less_Suc_eq numeral_2_eq_2)

theorem shm_pool_is_a_set_witness:
  "\<exists>rs m. shm_run (shm_alloc 4 demo_pool) (shm_back 4 demo_pool) [Shm_alloc, Shm_alloc, Shm_back 3, Shm_back 2, Shm_back (-1)]
       demo_segment = (rs, m) \<and>
     set_run 2 (slot_addr 4 demo_pool) [Shm_alloc, Shm_alloc, Shm_back 3, Shm_back 2, Shm_back (-1)] {0} rs (used_slots demo_pool m) \<and>
     objects demo_pool m = [1, 0, 0, 0, 0, 0, 0, 0]"
proof -
  let ?es = "[Shm_alloc, Shm_alloc, Shm_back 3, Shm_back 2, Shm_back (-1)]"
  obtain rs m where r: "shm_run (shm_alloc 4 demo_pool) (shm_back 4 demo_pool) ?es demo_segment = (rs, m)" by fastforce
  have "Shm_back (past_end 4 demo_pool) \<notin> set ?es"
    by (simp add: demo_pool_def shm_pool_new_def past_end_def slot_addr_def)
  note f = shm_pool_is_a_set [OF demo_segment_ok(1) this r]
  have "shm_count demo_pool = 2" "objects demo_pool demo_segment = [1, 0, 0, 0, 0, 0, 0, 0]"
    by (simp_all add: objects_def demo_pool_def shm_pool_new_def demo_segment_def)
  with f r show ?thesis unfolding demo_segment_ok(2) by metis
qed

text \<open>\<open>back\<close> also accepts the address behind the last object, which is no object of the pool. It takes the first byte of the
  first object for the mark: when that byte is 1 the call succeeds and overwrites it with 0, so the
  first object is changed and no slot becomes unused.\<close>

lemma shm_back_past_end_overwrites_object:
  assumes "shm_ok tsize p mem" "0 < shm_count p" "objects p mem = 1 # rest"
  shows "shm_back tsize p (int (slot_addr tsize p (shm_count p))) mem = (True, mem[shm_count p := 0]) \<and>
    objects p (mem[shm_count p := 0]) = 0 # rest \<and> used_slots p (mem[shm_count p := 0]) = used_slots p mem"
proof -
  have g: "nat (int (slot_addr tsize p (shm_count p)) - int (shm_count p)) = tsize * shm_count p"
    by (simp add: slot_addr_def flip: of_nat_mult)
  have t: "0 < tsize" using assms(1) by (simp add: shm_ok_def)
  have len: "shm_count p < length mem" using assms(1,2) t by (simp add: shm_ok_def)
  have first: "mem ! shm_count p = 1" using assms(3) len by (metis Cons_nth_drop_Suc list.inject objects_def)
  have "objects p (mem[shm_count p := 0]) = (objects p mem)[0 := 0]" by (simp add: objects_def drop_update_swap)
  then have "objects p (mem[shm_count p := 0]) = 0 # rest" using assms(3) by simp
  moreover have "used_slots p (mem[shm_count p := 0]) = used_slots p mem" by (auto simp: used_slots_def)
  moreover have "shm_back tsize p (int (slot_addr tsize p (shm_count p))) mem = (True, mem[shm_count p := 0])"
    using g t first by (simp add: shm_back_def Let_def slot_addr_def)
  ultimately show ?thesis by blast
qed

text \<open>The descriptor is kept by \<open>close\<close>: a pool that was unlinked closes it a second time when it is destroyed.\<close>

lemma shm_closed_twice:
  assumes "mem_fd p \<noteq> -1" "shm_unlink os p = (r, closed, p')"
  shows "closed @ shm_pool_destroy os p' = [mem_fd p, mem_fd p]"
  using assms by (auto simp: shm_unlink_def shm_close_def shm_pool_destroy_def Let_def)

lemma foreach_visits:
  "foreach_loop tsize p (\<lambda>t u s. (True, s @ [(t, u)])) used m i k s =
     s @ map (\<lambda>j. (get_by_index tsize p j, m ! j \<noteq> 0)) (filter (\<lambda>j. \<not> used \<or> m ! j \<noteq> 0) [i..<i + k])"
proof (induction k arbitrary: i s)
  case (Suc k)
  have "[i..<i + Suc k] = i # [Suc i..<Suc i + k]" by (simp add: upt_rec)
  then show ?case using Suc by (cases "used \<and> m ! i = 0") (auto simp del: upt_Suc)
qed simp

text \<open>A callback that always goes on is called for every slot in order, or for the used ones.\<close>

lemma shm_foreach_all:
  assumes "shm_ok tsize p m"
  shows "shm_foreach tsize p (\<lambda>t u s. (True, s @ [(t, u)])) used m [] =
    map (\<lambda>i. (Some (slot_addr tsize p i), i \<in> used_slots p m)) (filter (\<lambda>i. \<not> used \<or> i \<in> used_slots p m) [0..<shm_count p])"
  unfolding shm_foreach_def foreach_visits
  using assms by (auto simp: get_by_index_def slot_addr_def used_slots_def shm_ok_def intro!: map_cong filter_cong)

text \<open>A new segment has no used slot, and the clearing leaves the objects alone.\<close>

lemma shm_init_new:
  assumes "os_shm_open os (shm_name p) = -1" "shm_init os p = (True, p', Some m)" "os_mmap os (mem_fd p') (mem_size p) = Some m0"
    and "length m0 = mem_size p" "p = shm_pool_new tsize name count" "0 < tsize"
  shows "shm_ok tsize p' m" "used_slots p' m = {}" "objects p' m = objects p' m0"
  using assms
  by (auto simp: shm_init_def shm_map_def Let_def shm_ok_def used_slots_def objects_def shm_pool_new_def nth_append
      split: if_splits option.splits)

end
