(* ===== verification/Tk_Udp.thy ===== *)
theory Tk_Udp
  imports Tk_Prelude
begin

section \<open>Datagrams (external/tubekit-ipc/udp_component.cpp)\<close>

text \<open>
  A component that sends and receives datagrams. The object keeps two descriptors and says which callbacks are
  set; the system calls are parameters, what is done outside the object is a trace of \<open>udp_call\<close>. The event loop has no bound of its
  own: it is given the turns it goes through, and \<open>None\<close> means that it is still running after them.

  The theory shows that the loop delivers the datagrams in order until it is told to stop, and that every way out of the
  loop leaves the descriptors in the object, so that the destructor closes them and calls the callback once more.
\<close>

record udp_component =
  u_socket_fd :: int
  u_epoll_fd :: int
  u_tick_callback :: bool
  u_message_callback :: bool
  u_close_callback :: bool

datatype udp_call = Fd_close int | On_close | On_tick | On_message bytes | Sendto int bytes "string option"

record udp_os =
  uo_socket :: "bool \<Rightarrow> int"
  uo_inet_pton :: "string \<Rightarrow> bool"
  uo_bind :: "int \<Rightarrow> string \<Rightarrow> int \<Rightarrow> bool"
  uo_setsockopt :: "int \<Rightarrow> bool"
  uo_sendto :: "int \<Rightarrow> bytes \<Rightarrow> int"
  uo_nonblocking :: "int \<Rightarrow> bool"
  uo_epoll_create :: int
  uo_epoll_ctl :: "int \<Rightarrow> int \<Rightarrow> bool"

text \<open>A turn of the loop: what \<open>epoll_wait\<close> returns, whether the tick asks to stop, and what \<open>recvfrom\<close> delivers.\<close>

record udp_turn =
  events_num :: int
  tick_stop :: bool
  datagram :: bytes

definition udp_new :: "bool \<Rightarrow> bool \<Rightarrow> bool \<Rightarrow> udp_component" where
  "udp_new tick message close =
     \<lparr>u_socket_fd = 0, u_epoll_fd = 0, u_tick_callback = tick, u_message_callback = message, u_close_callback = close\<rparr>"

definition udp_is_ipv6 :: "string \<Rightarrow> bool" where
  "udp_is_ipv6 ip \<longleftrightarrow> CHR ''.'' \<notin> set ip"

definition to_close :: "udp_component \<Rightarrow> udp_call list" where
  "to_close u =
     (if 0 < u_socket_fd u then [Fd_close (u_socket_fd u)] else []) @
     (if 0 < u_epoll_fd u then [Fd_close (u_epoll_fd u)] else []) @
     (if u_close_callback u then [On_close] else [])"

definition init_sock :: "udp_os \<Rightarrow> string \<Rightarrow> udp_component \<Rightarrow> int \<times> udp_component" where
  "init_sock os ip u =
     (if u_socket_fd u \<le> 0
      then (let u = u\<lparr>u_socket_fd := uo_socket os (udp_is_ipv6 ip)\<rparr> in (if u_socket_fd u = -1 then -1 else 0, u))
      else (0, u))"

fun udp_turns :: "udp_turn list \<Rightarrow> udp_component \<Rightarrow> (int \<times> udp_call list) option" where
  "udp_turns [] u = None"
| "udp_turns (t # ts) u =
     (let tick = (if u_tick_callback u then [On_tick] else []) in
      if u_tick_callback u \<and> tick_stop t then Some (0, tick @ to_close u)
      else if events_num t = 0 then map_option (\<lambda>(r, calls). (r, tick @ calls)) (udp_turns ts u)
      else if events_num t < 0 then Some (-1, tick @ to_close u)
      else map_option (\<lambda>(r, calls). (r, tick @ (if 0 < length (datagram t) \<and> u_message_callback u then [On_message (datagram t)] else []) @ calls))
             (udp_turns ts u))"

definition udp_event_loop :: "udp_os \<Rightarrow> udp_turn list \<Rightarrow> udp_component \<Rightarrow> (int \<times> udp_call list \<times> udp_component) option" where
  "udp_event_loop os ts u =
     (if u_socket_fd u \<le> 0 then Some (-1, [], u)
      else if \<not> uo_nonblocking os (u_socket_fd u) then Some (-1, to_close u, u)
      else (let u = u\<lparr>u_epoll_fd := uo_epoll_create os\<rparr> in
            if u_epoll_fd u = -1 then Some (-1, to_close u, u)
            else if \<not> uo_epoll_ctl os (u_epoll_fd u) (u_socket_fd u) then Some (-1, to_close u, u)
            else map_option (\<lambda>(r, calls). (r, calls, u)) (udp_turns ts u)))"

definition udp_component_server :: "udp_os \<Rightarrow> udp_turn list \<Rightarrow> string \<Rightarrow> int \<Rightarrow> udp_component \<Rightarrow>
    (int \<times> udp_call list \<times> udp_component) option" where
  "udp_component_server os ts ip port u =
     (case (if u_socket_fd u \<le> 0 then init_sock os ip u else (0, u)) of
        (r, u) \<Rightarrow>
          if r \<noteq> 0 then Some (-1, [], u)
          else if udp_is_ipv6 ip \<and> \<not> uo_inet_pton os ip then Some (-1, to_close u, u)
          else if \<not> uo_bind os (u_socket_fd u) ip port then Some (-1, to_close u, u)
          else if \<not> uo_setsockopt os (u_socket_fd u) then Some (-1, to_close u, u)
          else udp_event_loop os ts u)"

text \<open>\<open>addr\<close> is the address to answer to, if one is given.\<close>

definition udp_component_client :: "udp_os \<Rightarrow> udp_turn list \<Rightarrow> string \<Rightarrow> int \<Rightarrow> bytes \<Rightarrow> string option \<Rightarrow> udp_component \<Rightarrow>
    (int \<times> udp_call list \<times> udp_component) option" where
  "udp_component_client os ts ip port buffer addr u =
     (case (if u_socket_fd u \<le> 0 then init_sock os ip u else (0, u)) of
        (r, u) \<Rightarrow>
          if r \<noteq> 0 then Some (-1, [], u)
          else if ip \<noteq> [] \<and> port \<noteq> 0 \<and> udp_is_ipv6 ip \<and> \<not> uo_inet_pton os ip then Some (-1, to_close u, u)
          else if \<not> (ip \<noteq> [] \<and> port \<noteq> 0) \<and> addr = None then Some (-1, [], u)
          else (let sent = [Sendto (u_socket_fd u) buffer addr] in
                if uo_sendto os (u_socket_fd u) buffer \<noteq> int (length buffer) then Some (-1, sent @ to_close u, u)
                else if addr = None
                then map_option (\<lambda>(r, calls, u). (r, sent @ calls, u)) (udp_event_loop os ts u)
                else Some (0, sent, u)))"

definition udp_destroy :: "udp_component \<Rightarrow> udp_call list" where
  "udp_destroy u = to_close u"

subsection \<open>Facts\<close>

definition messages :: "udp_call list \<Rightarrow> bytes list" where
  "messages calls = List.map_filter (\<lambda>c. case c of On_message d \<Rightarrow> Some d | _ \<Rightarrow> None) calls"

lemma messages_simps [simp]:
  "messages [] = []" "messages (xs @ ys) = messages xs @ messages ys" "messages (On_tick # xs) = messages xs"
  "messages (On_message d # xs) = d # messages xs" "messages (to_close u) = []"
  by (simp_all add: messages_def map_filter_def to_close_def)

definition arrives :: "udp_turn \<Rightarrow> bool" where
  "arrives t \<longleftrightarrow> 0 < events_num t \<and> datagram t \<noteq> []"

text \<open>
  The loop delivers the datagrams of the turns before the one that ends it, each once and in order.
\<close>

lemma udp_turns_deliver:
  assumes "u_message_callback u" "udp_turns ts u = Some (r, calls)"
  shows "\<exists>before t after. ts = before @ t # after \<and> messages calls = map datagram (filter arrives before) \<and>
    (if r = 0 then u_tick_callback u \<and> tick_stop t else r = -1 \<and> events_num t < 0)"
  using assms(2)
proof (induction ts arbitrary: calls)
  case (Cons t ts)
  show ?case
  proof (cases "u_tick_callback u \<and> tick_stop t \<or> events_num t < 0")
    case True
    then show ?thesis using Cons.prems
      by (intro exI [of _ "[]"] exI [of _ t] exI [of _ ts]) (auto simp: Let_def split: if_splits)
  next
    case False
    then obtain rest where rest: "udp_turns ts u = Some (r, rest)"
      "messages calls = (if arrives t then [datagram t] else []) @ messages rest"
      using Cons.prems assms(1) by (auto simp: Let_def arrives_def split: if_splits)
    from Cons.IH [OF rest(1)] obtain before t' after where
      "ts = before @ t' # after" "messages rest = map datagram (filter arrives before)"
      "if r = 0 then u_tick_callback u \<and> tick_stop t' else r = -1 \<and> events_num t' < 0" by blast
    then show ?thesis using rest(2)
      by (intro exI [of _ "t # before"] exI [of _ t'] exI [of _ after]) simp
  qed
qed simp

text \<open>
  However the loop ends once the socket is open, the object has been closed and still names the
  descriptors: the destructor closes each of them again.
\<close>

lemma udp_turns_close: "udp_turns ts u = Some (r, calls) \<Longrightarrow> \<exists>pre. calls = pre @ to_close u"
proof (induction ts arbitrary: calls)
  case (Cons t ts)
  then show ?case by (fastforce simp: Let_def split: if_splits)
qed simp

lemma udp_closed_twice:
  assumes "udp_event_loop os ts u = Some (r, calls, u')" "0 < u_socket_fd u"
  shows "\<exists>pre. calls @ udp_destroy u' = pre @ to_close u' @ to_close u'" "u_socket_fd u' = u_socket_fd u"
  using assms
  by (auto simp: udp_event_loop_def Let_def udp_destroy_def split: if_splits dest!: udp_turns_close)

lemma udp_closed_twice_fd:
  assumes "udp_event_loop os ts u = Some (r, calls, u')" "0 < u_socket_fd u"
  shows "2 \<le> count_list (calls @ udp_destroy u') (Fd_close (u_socket_fd u))"
proof -
  from udp_closed_twice [OF assms] obtain pre where p: "calls @ udp_destroy u' = pre @ to_close u' @ to_close u'" by blast
  have "1 \<le> count_list (to_close u') (Fd_close (u_socket_fd u))"
    using udp_closed_twice(2) [OF assms] assms(2) by (simp add: to_close_def)
  then show ?thesis unfolding p by simp
qed

end
