(* ===== verification/Tk_Actor.thy ===== *)
theory Tk_Actor
  imports Tk_Prelude Tk_Text "HOL-Library.Word"
begin

section \<open>Identifiers, strings and times of the actor library (external/tubekit-ecsactor)\<close>

text \<open>
  \<open>global\<close> numbers objects: an identifier has 38 bits of time, 10 bits for the application and 16 bits of
  a counter. The string functions trim, replace and split; times are milliseconds in 64 bits. The clock and
  \<open>localtime\<close> are parameters.

  The theory shows that an identifier gives back the application it was made by, that the identifiers
  of one time step are different up to 65536 and then repeat, what \<open>replace\<close> does with a pattern that is not
  empty and that it does not return for an empty one, and that \<open>split\<close> keeps everything but the separators.
\<close>

unbundle bit_operations_syntax

subsection \<open>Identifiers (global.cpp)\<close>

record global =
  g_time_tick :: u64
  m_sn_ticket :: "16 word"
  m_app_type :: u32
  m_app_id :: u32

definition global_new :: "u64 \<Rightarrow> u32 \<Rightarrow> u32 \<Rightarrow> global" where
  "global_new now app_type app_id = \<lparr>g_time_tick = now, m_sn_ticket = 1, m_app_type = app_type, m_app_id = app_id\<rparr>"

definition global_update_time :: "u64 \<Rightarrow> global \<Rightarrow> global" where
  "global_update_time now g = g\<lparr>g_time_tick := now\<rparr>"

definition get_app_id_from_sn :: "u64 \<Rightarrow> u32" where
  "get_app_id_from_sn sn =
     (let sn = push_bit 38 sn; sn = drop_bit 38 sn; sn = drop_bit 16 sn in ucast sn)"

text \<open>\<open>m_app_id << 16\<close> is computed in 32 bits, the sum in 64.\<close>

definition generate_sn :: "global \<Rightarrow> u64 \<times> global" where
  "generate_sn g =
     (push_bit 26 (drop_bit 10 (g_time_tick g)) + ucast (push_bit 16 (m_app_id g)) + ucast (m_sn_ticket g),
      g\<lparr>m_sn_ticket := m_sn_ticket g + 1\<rparr>)"

fun generate_sns :: "nat \<Rightarrow> global \<Rightarrow> u64 list" where
  "generate_sns 0 g = []"
| "generate_sns (Suc n) g = (case generate_sn g of (sn, g) \<Rightarrow> sn # generate_sns n g)"

subsection \<open>Strings (util_string.cpp, util_string.h)\<close>

definition strutil_trim :: "string \<Rightarrow> string" where
  "strutil_trim s = (let s = dropWhile char_isspace s in rev (dropWhile char_isspace (rev s)))"

text \<open>
  The loop of \<open>replace\<close> from a position on: what is before it stays as it is, the search goes on behind the
  inserted text. An empty pattern is found everywhere, so the number of turns is fuel.
\<close>

fun replace_loop :: "nat \<Rightarrow> string \<Rightarrow> string \<Rightarrow> string \<Rightarrow> (nat \<times> string) option" where
  "replace_loop 0 pat newpat s = None"
| "replace_loop (Suc n) pat newpat s =
     (case find_sub pat s of
        None \<Rightarrow> Some (0, s)
      | Some pos \<Rightarrow>
          (case replace_loop n pat newpat (drop (pos + length pat) s) of
             None \<Rightarrow> None
           | Some (count, r) \<Rightarrow> Some (Suc count, take pos s @ newpat @ r)))"

text \<open>\<open>split\<close>: the pieces between the separators, without the empty ones.\<close>

fun split_loop :: "'c \<Rightarrow> 'c list \<Rightarrow> 'c list \<Rightarrow> 'c list list" where
  "split_loop c buf [] = (if 0 < length buf then [buf] else [])"
| "split_loop c buf (x # s) =
     (if x = c then (if 0 < length buf then [buf] else []) @ split_loop c [] s else split_loop c (buf @ [x]) s)"

definition strutil_split :: "'c list \<Rightarrow> 'c \<Rightarrow> 'c list list \<Rightarrow> 'c list list" where
  "strutil_split s c v = (if length s = 0 then v else v @ split_loop c [] s)"

subsection \<open>Times (util_time.h, util_time.cpp)\<close>

definition add_seconds :: "u64 \<Rightarrow> int \<Rightarrow> u64" where
  "add_seconds time_value second = time_value + of_int second * 1000"

definition add_milliseconds :: "u64 \<Rightarrow> int \<Rightarrow> u64" where
  "add_milliseconds time_value milliseconds = time_value + of_int milliseconds"

definition time_to_string :: "(nat \<Rightarrow> tm) \<Rightarrow> nat \<Rightarrow> string" where
  "time_to_string localtime time_tick =
     (let milli = time_tick mod 1000; t = localtime (time_tick div 1000) in
      to_string (tm_year t + 1900) @ ''-'' @ two_digits (tm_mon t + 1) @ ''-'' @
      two_digits (tm_mday t) @ '' '' @ two_digits (tm_hour t) @ '':'' @
      two_digits (tm_min t) @ '':'' @ two_digits (tm_sec t) @ ''.'' @
      setw (CHR ''0'') 3 (to_string (int milli)))"

subsection \<open>Facts on identifiers\<close>

lemma unat_push_bit64: "n \<le> 64 \<Longrightarrow> unat (push_bit n (w :: u64)) = 2 ^ n * (unat w mod 2 ^ (64 - n))"
  unfolding unsigned_push_bit_eq take_bit_push_bit by (simp add: push_bit_eq_mult take_bit_eq_mod mult.commute)

lemma unat_generate_sn:
  assumes "m_app_id g < 1024"
  shows "unat (fst (generate_sn g)) =
    2 ^ 26 * (unat (drop_bit 10 (g_time_tick g)) mod 2 ^ 38) + 2 ^ 16 * unat (m_app_id g) + unat (m_sn_ticket g)"
proof -
  let ?a = "m_app_id g" and ?t = "m_sn_ticket g" and ?w = "drop_bit 10 (g_time_tick g)"
  have a: "unat ?a < 1024" using assms by (simp add: word_less_nat_alt)
  have t: "unat ?t < 65536" using unsigned_less [of ?t, where ?'a = nat] by simp
  have T: "unat (push_bit 26 ?w :: u64) = 2 ^ 26 * (unat ?w mod 2 ^ 38)"
    using unat_push_bit64 [of 26 ?w] by simp
  have P: "unat (push_bit 16 ?a) = 2 ^ 16 * unat ?a"
    using a unfolding unsigned_push_bit_eq by (simp add: take_bit_eq_mod push_bit_eq_mult)
  have A: "unat (ucast (push_bit 16 ?a) :: u64) = 2 ^ 16 * unat ?a"
    using a unfolding unsigned_ucast_eq P by (simp add: take_bit_eq_mod)
  have B: "unat (ucast ?t :: u64) = unat ?t"
    using t by (simp add: unsigned_ucast_eq take_bit_eq_mod)
  have m: "unat ?w mod 2 ^ 38 < 2 ^ 38" by simp
  have S: "unat (push_bit 26 ?w + ucast (push_bit 16 ?a) :: u64) = 2 ^ 26 * (unat ?w mod 2 ^ 38) + 2 ^ 16 * unat ?a"
    using a m T A by (simp add: unat_word_ariths)
  then show ?thesis using a t m B by (simp add: generate_sn_def unat_word_ariths)
qed

lemma unat_get_app_id:
  "unat (get_app_id_from_sn sn) = unat sn mod 2 ^ 26 div 2 ^ 16"
proof -
  have "unat (push_bit 38 sn) = 2 ^ 38 * (unat sn mod 2 ^ 26)"
    using unat_push_bit64 [of 38 sn] by simp
  then have "unat (drop_bit 38 (push_bit 38 sn)) = unat sn mod 2 ^ 26"
    unfolding unat_drop_bit_eq by (simp add: drop_bit_eq_div)
  moreover have "unat sn mod 2 ^ 26 div 2 ^ 16 < 2 ^ 32"
    by (rule le_less_trans [OF div_le_dividend]) (rule less_trans [OF mod_less_divisor]; simp)
  ultimately show ?thesis
    unfolding get_app_id_from_sn_def Let_def unsigned_ucast_eq unat_drop_bit_eq [of 16]
    by (simp add: drop_bit_eq_div take_bit_eq_mod)
qed

lemma generate_sns_nth:
  "i < n \<Longrightarrow> generate_sns n g ! i = fst (generate_sn (g\<lparr>m_sn_ticket := m_sn_ticket g + of_nat i\<rparr>))"
proof (induction n arbitrary: g i)
  case (Suc n)
  then show ?case by (cases i) (simp_all add: generate_sn_def algebra_simps)
qed simp

lemma length_generate_sns [simp]: "length (generate_sns n g) = n"
  by (induction n arbitrary: g) (simp_all add: case_prod_beta)

lemma sn_ticket_distinct:
  assumes "m_app_id g < 1024" "i < 65536" "j < 65536" "i \<noteq> j"
  shows "fst (generate_sn (g\<lparr>m_sn_ticket := m_sn_ticket g + of_nat i\<rparr>)) \<noteq> fst (generate_sn (g\<lparr>m_sn_ticket := m_sn_ticket g + of_nat j\<rparr>))"
proof
  assume e: "fst (generate_sn (g\<lparr>m_sn_ticket := m_sn_ticket g + of_nat i\<rparr>)) = fst (generate_sn (g\<lparr>m_sn_ticket := m_sn_ticket g + of_nat j\<rparr>))"
  have "unat (m_sn_ticket g + of_nat i) = unat (m_sn_ticket g + of_nat j)"
    using arg_cong [OF e, of unat] assms(1) unat_generate_sn [of "g\<lparr>m_sn_ticket := m_sn_ticket g + of_nat i\<rparr>"]
      unat_generate_sn [of "g\<lparr>m_sn_ticket := m_sn_ticket g + of_nat j\<rparr>"] by simp
  then have "m_sn_ticket g + of_nat i = m_sn_ticket g + of_nat j" by (rule unsigned_word_eqI)
  then have "(of_nat i :: 16 word) = of_nat j" by simp
  then have "unat (of_nat i :: 16 word) = unat (of_nat j :: 16 word)" by simp
  then show False using assms(2-4) by (simp add: unat_of_nat take_bit_eq_mod)
qed

subsection \<open>Facts on strings\<close>

text \<open>The pieces \<open>us\<close> with \<open>sep\<close> between them.\<close>

fun join :: "'c list \<Rightarrow> 'c list list \<Rightarrow> 'c list" where
  "join sep [] = []"
| "join sep [u] = u"
| "join sep (u # us) = u @ sep @ join sep us"

lemma join_Cons: "us \<noteq> [] \<Longrightarrow> join sep (u # us) = u @ sep @ join sep us"
  by (cases us) simp_all

lemma replace_loop_pieces:
  assumes "pat \<noteq> []" "length s < n"
  shows "\<exists>us. us \<noteq> [] \<and> s = join pat us \<and> replace_loop n pat newpat s = Some (length us - 1, join newpat us) \<and>
    find_sub pat (last us) = None \<and> (\<forall>u \<in> set (butlast us). find_sub pat (u @ pat) = Some (length u))"
  using assms(2)
proof (induction n arbitrary: s)
  case (Suc n)
  show ?case
  proof (cases "find_sub pat s")
    case None
    then show ?thesis by (intro exI [of _ "[s]"]) simp
  next
    case (Some pos)
    note found = find_sub_found [OF Some]
    let ?r = "drop (pos + length pat) s"
    have "length ?r < n" using Suc.prems found(2) assms(1) by (cases pat) auto
    from Suc.IH [OF this] obtain us where us: "us \<noteq> []" "?r = join pat us"
      "replace_loop n pat newpat ?r = Some (length us - 1, join newpat us)" "find_sub pat (last us) = None"
      "\<forall>u \<in> set (butlast us). find_sub pat (u @ pat) = Some (length u)" by blast
    have first: "find_sub pat (take pos s @ pat) = Some (length (take pos s))"
      using find_sub_first [OF Some] found(2) by simp
    have "s = join pat (take pos s # us)" using found(1) us(1,2) by (simp add: join_Cons)
    then show ?thesis using us first Some
      by (intro exI [of _ "take pos s # us"]) (auto simp: join_Cons Suc_pred)
  qed
qed simp

lemma replace_empty_pattern: "replace_loop n [] newpat s = None"
proof (induction n arbitrary: s)
  case (Suc n)
  have "find_sub [] s = Some 0" by (cases s) simp_all
  then show ?case using Suc.IH by simp
qed simp

lemma split_loop_pieces:
  assumes "c \<notin> set buf"
  shows "concat (split_loop c buf s) = buf @ filter (\<lambda>x. x \<noteq> c) s"
    "\<forall>u \<in> set (split_loop c buf s). u \<noteq> [] \<and> c \<notin> set u"
  using assms by (induction c buf s rule: split_loop.induct) auto

text \<open>\<open>split\<close> appends pieces that are not empty and have no separator, in order and with nothing but the separators missing.\<close>

lemma strutil_split_pieces:
  "\<exists>us. strutil_split s c v = v @ us \<and> concat us = filter (\<lambda>x. x \<noteq> c) s \<and> (\<forall>u \<in> set us. u \<noteq> [] \<and> c \<notin> set u)"
  using split_loop_pieces [of c "[]" s] by (auto simp: strutil_split_def intro!: exI [of _ "if s = [] then [] else split_loop c [] s"])

lemma strutil_trim_spec:
  obtains l r where "s = l @ strutil_trim s @ r" "list_all char_isspace l" "list_all char_isspace r"
    "strutil_trim s = [] \<or> \<not> char_isspace (hd (strutil_trim s)) \<and> \<not> char_isspace (last (strutil_trim s))"
proof -
  let ?m = "dropWhile char_isspace s" and ?t = "strutil_trim s"
  have t: "?t = rev (dropWhile char_isspace (rev ?m))" by (simp add: strutil_trim_def Let_def)
  let ?r = "rev (takeWhile char_isspace (rev ?m))"
  have m: "?m = ?t @ ?r" unfolding t by (metis rev_append rev_rev_ident takeWhile_dropWhile_id)
  have "s = takeWhile char_isspace s @ ?t @ ?r" unfolding m [symmetric] by simp
  moreover have "list_all char_isspace (takeWhile char_isspace s)" "list_all char_isspace ?r"
    by (auto simp: list_all_iff dest: set_takeWhileD)
  moreover have "?t = [] \<or> \<not> char_isspace (hd ?t) \<and> \<not> char_isspace (last ?t)"
  proof (cases "?t = []")
    case False
    have "hd ?m = hd ?t" using m False by (metis hd_append2)
    moreover have "?m \<noteq> []" using m False by (metis append_is_Nil_conv)
    ultimately have "\<not> char_isspace (hd ?t)" using hd_dropWhile [of char_isspace s] by metis
    moreover have "\<not> char_isspace (last ?t)"
      using False hd_dropWhile [of char_isspace "rev ?m"] unfolding t by (simp add: last_rev)
    ultimately show ?thesis by simp
  qed simp
  ultimately show ?thesis by (rule that)
qed

text \<open>Adding a negative number of seconds goes back: the wrap-around of the conversion is undone by that of the sum.\<close>

lemma add_seconds_back: "add_seconds (add_seconds t n) (- n) = t"
  by (simp add: add_seconds_def)

subsection \<open>Properties\<close>

text \<open>C29: the identifiers of an application, for an application id below 1024. The \<open>i\<close>-th identifier has the time (in units of
  1024 ms, 38 bits) on top, then the application id in 10 bits, then the counter in 16 bits, wrapping around; every
  identifier gives back the id of the application, so applications never share one; the 65536 identifiers made
  between two updates of the time are all different, and the next ones repeat them: they are not unique.\<close>

theorem sn_layout:
  assumes "m_app_id g < 1024"
  shows "(\<forall>k < n. unat (generate_sns n g ! k) = 2 ^ 26 * (unat (g_time_tick g) div 2 ^ 10 mod 2 ^ 38) +
      2 ^ 16 * unat (m_app_id g) + (unat (m_sn_ticket g) + k) mod 2 ^ 16) \<and>
    (\<forall>sn \<in> set (generate_sns n g). get_app_id_from_sn sn = m_app_id g) \<and> distinct (generate_sns 65536 g) \<and>
    (i + 65536 < n \<longrightarrow> generate_sns n g ! (i + 65536) = generate_sns n g ! i)"
proof (intro conjI ballI impI allI)
  fix k
  assume "k < n"
  moreover have "unat (m_sn_ticket g + of_nat k) = (unat (m_sn_ticket g) + k) mod 2 ^ 16"
    by (simp add: unat_word_ariths unat_of_nat mod_simps)
  ultimately show "unat (generate_sns n g ! k) = 2 ^ 26 * (unat (g_time_tick g) div 2 ^ 10 mod 2 ^ 38) +
      2 ^ 16 * unat (m_app_id g) + (unat (m_sn_ticket g) + k) mod 2 ^ 16"
    using unat_generate_sn [of "g\<lparr>m_sn_ticket := m_sn_ticket g + of_nat k\<rparr>"] assms
    by (simp add: generate_sns_nth drop_bit_eq_div unat_div)
next
  fix sn
  assume "sn \<in> set (generate_sns n g)"
  then obtain k where k: "k < n" "sn = fst (generate_sn (g\<lparr>m_sn_ticket := m_sn_ticket g + of_nat k\<rparr>))"
    by (auto simp: in_set_conv_nth generate_sns_nth)
  have a: "unat (m_app_id g) < 1024" using assms by (simp add: word_less_nat_alt)
  have t: "unat x < 65536" for x :: "16 word" using unsigned_less [of x, where ?'a = nat] by simp
  have "unat sn mod 2 ^ 26 = 2 ^ 16 * unat (m_app_id g) + unat (m_sn_ticket g + of_nat k)"
    using k(2) unat_generate_sn [of "g\<lparr>m_sn_ticket := m_sn_ticket g + of_nat k\<rparr>"] assms a t [of "m_sn_ticket g + of_nat k"]
    by (simp add: mod_mult_self4 add.assoc)
  then have "unat (get_app_id_from_sn sn) = unat (m_app_id g)"
    using t [of "m_sn_ticket g + of_nat k"] by (simp add: unat_get_app_id)
  then show "get_app_id_from_sn sn = m_app_id g" by (rule unsigned_word_eqI)
next
  show "distinct (generate_sns 65536 g)"
    by (simp add: distinct_conv_nth generate_sns_nth sn_ticket_distinct [OF assms] del: generate_sns.simps)
next
  assume i: "i + 65536 < n"
  have t: "m_sn_ticket g + of_nat (i + 65536) = m_sn_ticket g + of_nat i" by simp
  have "i < n" using i by simp
  then show "generate_sns n g ! (i + 65536) = generate_sns n g ! i"
    unfolding generate_sns_nth [OF i] t by (simp only: generate_sns_nth)
qed

text \<open>C30: \<open>replace\<close> with a pattern that is not empty returns: it cuts the text at the occurrences of the pattern, found
  from left to right without overlap, joins the pieces with the new text instead, and returns the number of
  occurrences. With an empty pattern it never returns.\<close>

theorem replace_cuts_and_joins:
  assumes "pat \<noteq> []" "length s < n"
  shows "(\<exists>us. us \<noteq> [] \<and> s = join pat us \<and> replace_loop n pat newpat s = Some (length us - 1, join newpat us) \<and>
      find_sub pat (last us) = None \<and> (\<forall>u \<in> set (butlast us). find_sub pat (u @ pat) = Some (length u))) \<and>
    replace_loop n [] newpat s = None"
  by (rule conjI [OF replace_loop_pieces [OF assms] replace_empty_pattern])

theorem replace_cuts_and_joins_witness:
  "\<exists>us. ''abcab'' = join ''b'' us \<and> replace_loop 6 ''b'' ''xy'' ''abcab'' = Some (length us - 1, join ''xy'' us)"
  using replace_cuts_and_joins [of "''b''" "''abcab''" 6 "''xy''"] by (auto simp del: replace_loop.simps)

theorem sn_layout_witness:
  "get_app_id_from_sn (generate_sns 3 (global_new 5 1 7) ! 2) = 7 \<and> distinct (generate_sns 65536 (global_new 5 1 7))"
proof -
  have id: "m_app_id (global_new 5 1 7) = 7" by (simp add: global_new_def)
  then have "m_app_id (global_new 5 1 7) < 1024" by simp
  note f = sn_layout [OF this, where n = 3 and i = 0]
  have "generate_sns 3 (global_new 5 1 7) ! 2 \<in> set (generate_sns 3 (global_new 5 1 7))"
    by (simp add: numeral_3_eq_3 numeral_2_eq_2 split: prod.splits)
  then have "get_app_id_from_sn (generate_sns 3 (global_new 5 1 7) ! 2) = m_app_id (global_new 5 1 7)" using f by blast
  with f id show ?thesis by simp
qed

end
