(* ===== verification/Tk_Sql.thy ===== *)
theory Tk_Sql
  imports Tk_Prelude
begin

section \<open>The MySQL client (external/tubekit-sql)\<close>

text \<open>
  Connections, a pool of connections, statements with bound parameters and results, and plain queries. The client
  library is a parameter: the results of its calls. The enumeration \<open>value_type\<close> and the types of the library
  are written with prefixes, since their names are words of other theories.

  The theory shows that the pool hands out connections in the order in which they came back, that two value types
  never share a type of the library, when the execution of a statement succeeds, and that a connection
  that could not be made reports success when it is tried again.
\<close>

subsection \<open>Connections and the pool (connection.cpp, pool.cpp)\<close>

record sql_connection =
  conn :: "nat option"
  connected :: bool

definition sql_connection_new :: sql_connection where
  "sql_connection_new = \<lparr>conn = None, connected = False\<rparr>"

text \<open>\<open>handle\<close> is what \<open>mysql_init\<close> yields, \<open>real_connect\<close> whether \<open>mysql_real_connect\<close> succeeds.\<close>

definition sql_connect :: "nat \<Rightarrow> bool \<Rightarrow> sql_connection \<Rightarrow> bool \<times> sql_connection" where
  "sql_connect handle real_connect c =
     (if conn c = None
      then (let c = c\<lparr>conn := Some handle\<rparr> in if \<not> real_connect then (False, c) else (True, c\<lparr>connected := True\<rparr>))
      else (True, c))"

definition sql_close :: "sql_connection \<Rightarrow> sql_connection" where
  "sql_close c = (if conn c \<noteq> None then c\<lparr>conn := None, connected := False\<rparr> else c)"

type_synonym sql_pool = "sql_connection list"

text \<open>\<open>init\<close> makes \<open>size\<close> connections, \<open>i\<close> counts them, and keeps those that are connected.\<close>

fun sql_pool_init :: "(nat \<Rightarrow> bool) \<Rightarrow> nat \<Rightarrow> nat \<Rightarrow> sql_pool \<Rightarrow> sql_pool" where
  "sql_pool_init real_connect i 0 m_list = m_list"
| "sql_pool_init real_connect i (Suc k) m_list =
     (case sql_connect i (real_connect i) sql_connection_new of
        (result, c) \<Rightarrow> sql_pool_init real_connect (Suc i) k (if result then m_list @ [c] else m_list))"

text \<open>\<open>get\<close> waits while the list is empty.\<close>

definition sql_pool_get :: "sql_pool \<Rightarrow> (sql_connection \<times> sql_pool) option" where
  "sql_pool_get m_list = (case m_list of [] \<Rightarrow> None | c # m_list \<Rightarrow> Some (c, m_list))"

definition sql_pool_back :: "sql_connection \<Rightarrow> sql_pool \<Rightarrow> sql_pool" where
  "sql_pool_back c m_list = m_list @ [c]"

definition sql_pool_get_size :: "sql_pool \<Rightarrow> nat" where
  "sql_pool_get_size m_list = length m_list"

subsection \<open>Bound parameters and results (sql.h)\<close>

datatype value_type =
  V_DECIMAL | V_TINY | V_SHORT | V_LONG | V_FLOAT | V_DOUBLE | V_NULL_TYPE | V_TIMESTAMP | V_LONGLONG | V_INT24
   | V_DATE | V_TIME | V_DATETIME | V_YEAR | V_NEWDATE | V_VARCHAR | V_BIT | V_TIMESTAMP2 | V_DATETIME2
   | V_TIME2 | V_TYPED_ARRAY | V_INVALID | V_BOOL | V_JSON | V_NEWDECIMAL | V_ENUM | V_SET | V_TINY_BLOB
   | V_MEDIUM_BLOB | V_LONG_BLOB | V_BLOB | V_VAR_STRING | V_STRING | V_GEOMETRY

datatype mysql_type =
  MYSQL_TYPE_DECIMAL | MYSQL_TYPE_TINY | MYSQL_TYPE_SHORT | MYSQL_TYPE_LONG | MYSQL_TYPE_FLOAT
   | MYSQL_TYPE_DOUBLE | MYSQL_TYPE_NULL | MYSQL_TYPE_TIMESTAMP | MYSQL_TYPE_LONGLONG | MYSQL_TYPE_INT24
   | MYSQL_TYPE_DATE | MYSQL_TYPE_TIME | MYSQL_TYPE_DATETIME | MYSQL_TYPE_YEAR | MYSQL_TYPE_NEWDATE
   | MYSQL_TYPE_VARCHAR | MYSQL_TYPE_BIT | MYSQL_TYPE_TIMESTAMP2 | MYSQL_TYPE_DATETIME2 | MYSQL_TYPE_TIME2
   | MYSQL_TYPE_TYPED_ARRAY | MYSQL_TYPE_INVALID | MYSQL_TYPE_BOOL | MYSQL_TYPE_JSON | MYSQL_TYPE_NEWDECIMAL
   | MYSQL_TYPE_ENUM | MYSQL_TYPE_SET | MYSQL_TYPE_TINY_BLOB | MYSQL_TYPE_MEDIUM_BLOB | MYSQL_TYPE_LONG_BLOB
   | MYSQL_TYPE_BLOB | MYSQL_TYPE_VAR_STRING | MYSQL_TYPE_STRING | MYSQL_TYPE_GEOMETRY

fun buffer_type_of :: "value_type \<Rightarrow> mysql_type" where
  "buffer_type_of V_DECIMAL = MYSQL_TYPE_DECIMAL"
| "buffer_type_of V_TINY = MYSQL_TYPE_TINY"
| "buffer_type_of V_SHORT = MYSQL_TYPE_SHORT"
| "buffer_type_of V_LONG = MYSQL_TYPE_LONG"
| "buffer_type_of V_FLOAT = MYSQL_TYPE_FLOAT"
| "buffer_type_of V_DOUBLE = MYSQL_TYPE_DOUBLE"
| "buffer_type_of V_NULL_TYPE = MYSQL_TYPE_NULL"
| "buffer_type_of V_TIMESTAMP = MYSQL_TYPE_TIMESTAMP"
| "buffer_type_of V_LONGLONG = MYSQL_TYPE_LONGLONG"
| "buffer_type_of V_INT24 = MYSQL_TYPE_INT24"
| "buffer_type_of V_DATE = MYSQL_TYPE_DATE"
| "buffer_type_of V_TIME = MYSQL_TYPE_TIME"
| "buffer_type_of V_DATETIME = MYSQL_TYPE_DATETIME"
| "buffer_type_of V_YEAR = MYSQL_TYPE_YEAR"
| "buffer_type_of V_NEWDATE = MYSQL_TYPE_NEWDATE"
| "buffer_type_of V_VARCHAR = MYSQL_TYPE_VARCHAR"
| "buffer_type_of V_BIT = MYSQL_TYPE_BIT"
| "buffer_type_of V_TIMESTAMP2 = MYSQL_TYPE_TIMESTAMP2"
| "buffer_type_of V_DATETIME2 = MYSQL_TYPE_DATETIME2"
| "buffer_type_of V_TIME2 = MYSQL_TYPE_TIME2"
| "buffer_type_of V_TYPED_ARRAY = MYSQL_TYPE_TYPED_ARRAY"
| "buffer_type_of V_INVALID = MYSQL_TYPE_INVALID"
| "buffer_type_of V_BOOL = MYSQL_TYPE_BOOL"
| "buffer_type_of V_JSON = MYSQL_TYPE_JSON"
| "buffer_type_of V_NEWDECIMAL = MYSQL_TYPE_NEWDECIMAL"
| "buffer_type_of V_ENUM = MYSQL_TYPE_ENUM"
| "buffer_type_of V_SET = MYSQL_TYPE_SET"
| "buffer_type_of V_TINY_BLOB = MYSQL_TYPE_TINY_BLOB"
| "buffer_type_of V_MEDIUM_BLOB = MYSQL_TYPE_MEDIUM_BLOB"
| "buffer_type_of V_LONG_BLOB = MYSQL_TYPE_LONG_BLOB"
| "buffer_type_of V_BLOB = MYSQL_TYPE_BLOB"
| "buffer_type_of V_VAR_STRING = MYSQL_TYPE_VAR_STRING"
| "buffer_type_of V_STRING = MYSQL_TYPE_STRING"
| "buffer_type_of V_GEOMETRY = MYSQL_TYPE_GEOMETRY"

text \<open>
  What the flag of a null value points to: a cell of the array of the result, or a static variable that is true.
\<close>

datatype null_flag = Null_cell nat | Static_true

record mysql_bind =
  buffer_type :: mysql_type
  bind_buffer :: "nat option"
  buffer_length :: nat
  bind_is_null :: "null_flag option"
  bind_out_length :: "nat option"

definition bind_zero :: mysql_bind where
  "bind_zero = \<lparr>buffer_type = MYSQL_TYPE_DECIMAL, bind_buffer = None, buffer_length = 0, bind_is_null = None, bind_out_length = None\<rparr>"

definition bind_array :: "nat \<Rightarrow> mysql_bind list" where
  "bind_array bind_size = replicate (bind_size + 1) bind_zero"

text \<open>An index that is not in the array has no result.\<close>

definition result_set_bind :: "nat \<Rightarrow> nat option \<Rightarrow> nat \<Rightarrow> value_type \<Rightarrow> mysql_bind list \<Rightarrow> mysql_bind list option" where
  "result_set_bind index buffer len type bind =
     (if index < length bind
      then Some (bind[index := (bind ! index)\<lparr>buffer_type := buffer_type_of type, bind_buffer := buffer, buffer_length := len,
                   bind_is_null := Some (Null_cell index), bind_out_length := Some index\<rparr>])
      else None)"

definition sql_set_bind :: "nat \<Rightarrow> nat option \<Rightarrow> nat \<Rightarrow> value_type \<Rightarrow> bool \<Rightarrow> mysql_bind list \<Rightarrow> mysql_bind list option" where
  "sql_set_bind index buffer len type is_null bind =
     (if index < length bind
      then Some (bind[index := (bind ! index)\<lparr>buffer_type := buffer_type_of type, bind_buffer := buffer,
                   bind_is_null := (if is_null then Some Static_true else None), buffer_length := len\<rparr>])
      else None)"

text \<open>The calls of \<open>execute\<close>, in their order; the result is the returned bool, the calls and the affected rows.\<close>

datatype stmt_call = Stmt_bind_param "mysql_bind list" | Stmt_execute | Stmt_bind_result "mysql_bind list" | Affected_rows

definition sql_execute :: "(stmt_call \<Rightarrow> int) \<Rightarrow> bool \<Rightarrow> mysql_bind list \<Rightarrow> mysql_bind list \<Rightarrow> nat \<Rightarrow> bool \<times> stmt_call list \<times> nat" where
  "sql_execute api expired bind result affected_rows =
     (if expired then (False, [], affected_rows)
      else (let bind_size = length bind - 1; result_size = length result - 1;
                calls = (if 1 \<le> bind_size then [Stmt_bind_param bind] else []) in
            if 1 \<le> bind_size \<and> api (Stmt_bind_param bind) \<noteq> 0 then (False, calls, affected_rows)
            else if api Stmt_execute \<noteq> 0 then (False, calls @ [Stmt_execute], affected_rows)
            else if 1 \<le> result_size \<and> api (Stmt_bind_result result) \<noteq> 0
            then (False, calls @ [Stmt_execute, Stmt_bind_result result], affected_rows)
            else (True, calls @ [Stmt_execute] @ (if 1 \<le> result_size then [Stmt_bind_result result] else []) @ [Affected_rows],
                  nat (api Affected_rows))))"

definition MYSQL_NO_DATA :: int where "MYSQL_NO_DATA = 100"

definition MYSQL_DATA_TRUNCATED :: int where "MYSQL_DATA_TRUNCATED = 101"

definition sql_fetch :: "int \<Rightarrow> bool" where
  "sql_fetch res =
     (if res = 0 then True
      else if res = 1 then False
      else if res = MYSQL_NO_DATA then False
      else if res = MYSQL_DATA_TRUNCATED then False
      else False)"

subsection \<open>Plain queries (query.cpp)\<close>

text \<open>\<open>insert\<close>, \<open>del\<close> and \<open>update\<close> are the same function: the affected rows, or 0 when the query fails.\<close>

definition query_update :: "(string \<Rightarrow> int) \<Rightarrow> nat \<Rightarrow> string \<Rightarrow> nat" where
  "query_update mysql_query affected_rows sql = (if mysql_query sql \<noteq> 0 then 0 else affected_rows)"

text \<open>\<open>execute\<close>: whether a result was fetched and freed.\<close>

definition query_execute :: "(string \<Rightarrow> int) \<Rightarrow> bool \<Rightarrow> string \<Rightarrow> bool" where
  "query_execute mysql_query has_result sql = (if mysql_query sql \<noteq> 0 then False else has_result)"

text \<open>
  \<open>select\<close> prints the names of the columns and then the rows; without a result the code reads the
  fields of a null pointer.
\<close>

datatype 'a select = Select_failed | Select_null | Select_printed 'a

definition cell_text :: "(nat \<Rightarrow> string) \<Rightarrow> string option \<Rightarrow> string" where
  "cell_text show_nat cell = (case cell of None \<Rightarrow> ''null '' | Some v \<Rightarrow> v @ ''('' @ show_nat (length v) @ '') '')"

definition query_select :: "(nat \<Rightarrow> string) \<Rightarrow> (string \<Rightarrow> int) \<Rightarrow> (string option list \<times> string option list list) option \<Rightarrow> string \<Rightarrow>
    string list select" where
  "query_select show_nat mysql_query res sql =
     (if mysql_query sql \<noteq> 0 then Select_failed
      else (case res of
              None \<Rightarrow> Select_null
            | Some (columns, rows) \<Rightarrow>
                Select_printed
                  (concat (map (\<lambda>name. case name of None \<Rightarrow> ''   '' | Some n \<Rightarrow> n @ '' '') columns) #
                   map (\<lambda>row. concat (map (cell_text show_nat) row)) rows)))"

subsection \<open>Facts\<close>

text \<open>A connection that could not be made keeps its handle, so that the next attempt reports success without connecting.\<close>

lemma sql_reconnect_lies:
  assumes "sql_connect h False sql_connection_new = (r, c)"
  shows "\<not> r \<and> fst (sql_connect h' ok c) \<and> \<not> connected (snd (sql_connect h' ok c))"
  using assms by (auto simp: sql_connect_def sql_connection_new_def Let_def)

lemma sql_pool_init_connected:
  "(\<forall>c \<in> set m_list. connected c) \<Longrightarrow>
     (\<forall>c \<in> set (sql_pool_init real_connect i k m_list). connected c) \<and>
     length (sql_pool_init real_connect i k m_list) = length m_list + length (filter real_connect [i..<i + k])"
proof (induction real_connect i k m_list rule: sql_pool_init.induct)
  case (2 real_connect i k m_list)
  have u: "[i..<i + Suc k] = i # [Suc i..<Suc i + k]" by (simp add: upt_rec)
  show ?case
  proof (cases "real_connect i")
    case True
    then show ?thesis using 2
      by (subst u) (simp add: sql_connect_def sql_connection_new_def Let_def del: upt_Suc)
  next
    case False
    then show ?thesis using 2
      by (subst u) (simp add: sql_connect_def sql_connection_new_def Let_def del: upt_Suc)
  qed
qed simp

lemma buffer_type_inject [simp]: "buffer_type_of a = buffer_type_of b \<longleftrightarrow> a = b"
  by (cases a; cases b) simp_all

text \<open>The sequence of gets and backs is a queue: the connections that leave, followed by those that stay, are those that were there and came back.\<close>

fun sql_pool_run :: "sql_connection option list \<Rightarrow> sql_pool \<Rightarrow> (sql_connection list \<times> sql_pool) option" where
  "sql_pool_run [] m_list = Some ([], m_list)"
| "sql_pool_run (Some c # es) m_list = sql_pool_run es (sql_pool_back c m_list)"
| "sql_pool_run (None # es) m_list =
     (case sql_pool_get m_list of
        None \<Rightarrow> None
      | Some (c, m_list) \<Rightarrow> map_option (\<lambda>(out, m). (c # out, m)) (sql_pool_run es m_list))"

lemma sql_pool_fifo:
  "sql_pool_run es m_list = Some (out, m') \<Longrightarrow> out @ m' = m_list @ somes es"
proof (induction es m_list arbitrary: out rule: sql_pool_run.induct)
  case (3 es m_list)
  then show ?case by (auto simp: sql_pool_get_def split: list.splits)
qed (auto simp: sql_pool_back_def)

lemma sql_execute_succeeds:
  assumes "sql_execute api expired bind result rows = (True, calls, rows')"
  shows "\<not> expired \<and> (\<forall>c \<in> set calls. c = Affected_rows \<or> api c = 0) \<and> last calls = Affected_rows \<and> rows' = nat (api Affected_rows)"
  using assms by (auto simp: sql_execute_def Let_def split: if_splits)

lemma result_set_bind_other:
  assumes "result_set_bind i buf n t bind = Some bind'" "j \<noteq> i"
  shows "bind' ! j = bind ! j" "length bind' = length bind" "bind_is_null (bind' ! i) = Some (Null_cell i)"
  using assms by (auto simp: result_set_bind_def split: if_splits)

end
