(* ===== verification/Spec2Isabelle.thy ===== *)
theory Spec2Isabelle
  imports Tk_Buffer Tk_Pool Tk_Thread Tk_Base64 Tk_Sha1 Tk_Url Tk_Handler Tk_Task Tk_Process Tk_Json Tk_Timer Tk_Xml
    Tk_Http_Run Tk_Stream_App Tk_Lock Tk_Log Tk_Lua Tk_Shm Tk_Udp Tk_Actor Tk_Sql
begin

text \<open>
  \<^bold>\<open>TubeKit, a C++ server framework: a model of its server and its libraries.\<close>

  TubeKit accepts TCP connections (plain or TLS), speaks one of three protocols chosen in a configuration
  file (HTTP, WebSocket, a stream of Protocol Buffers messages), and runs the work of a connection on one of
  several worker threads. The main thread waits for events; an event becomes a task, the task runs on the
  worker that belongs to the id of the connection, reads what the socket has, calls the application, sends what
  is queued and registers the socket again. Objects (sockets, connections, tasks) come from fixed pools.

  \<^bold>\<open>The theories, from the bottom up\<close>

  \<^item> \<open>Tk_Prelude\<close>: types, C++ exceptions as values, unsigned 64-bit arithmetic with its wrap-around, slices of memory.
  \<^item> \<open>Tk_Text\<close>: characters, hexadecimal and decimal conversions of the standard library, scanning, substring search, dates.
  \<^item> \<open>Tk_Omap\<close>: \<open>std::map\<close>, with its contract as locale \<open>ordered_map\<close>.
  \<^item> \<open>Tk_Buffer\<close> (external/tubekit-buffer): the growing byte buffer. The locale \<open>byte_fifo\<close> is the contract
    its clients use, \<open>total_heap\<close> the case in which allocation succeeds. Shown: it is a FIFO, a write is accepted exactly
    when it fits, every method keeps the offsets inside the block, also when allocation fails.
  \<^item> \<open>Tk_Pool\<close> (utility/object_pool.h): the object pool, locale \<open>slot_pool\<close>. Shown: a slot has one owner at a time.
  \<^item> \<open>Tk_Thread\<close> (src/thread): tasks, queues, workers and the worker pool, with a step relation for the
    interleavings of the threads. Shown: one connection is never served by two workers at once, a stopped worker ends.
  \<^item> \<open>Tk_Lock\<close> (src/thread): mutex, condition and scoped lock, which forward to the POSIX thread library, a parameter. Under what the
    standard documents of an error-checking mutex, scopes that are not nested in themselves exclude each other, which is the
    grain of the steps of the other theories; a scope nested in itself does not protect.
  \<^item> \<open>Tk_Base64\<close>, \<open>Tk_Url\<close>, \<open>Tk_Sha1\<close>, \<open>Tk_Mime\<close> (src/utility): codecs, the hash, media types. Shown: decoding
    inverts encoding; base64 is that of RFC 4648; the unrolled in-place SHA-1 is that of FIPS 180-4.
  \<^item> \<open>Tk_Socket\<close>, \<open>Tk_Poller\<close> (src/socket): socket objects over an environment of system calls and OpenSSL, the epoll layer.
  \<^item> \<open>Tk_Connection\<close> (src/connection): the three connection classes, \<open>sock2buf\<close> and \<open>buf2sock\<close>. Shown: receiving
    loses nothing, sending keeps the order as long as every write is complete, and returns; a partial send repeats bytes and loses others, which is a defect.
  \<^item> \<open>Tk_Conn_Mgr\<close> (connection_mgr.cpp): the sharded table, locale \<open>conn_table\<close>. Shown: it is one map, a connection is closed once.
  \<^item> \<open>Tk_Server\<close> (task_mgr.cpp, the settings of server.cpp): the way from an event to a worker. Shown: no task object is lost.
  \<^item> \<open>Tk_Handler\<close> (socket_handler.cpp): the event loop with its world of pools, tables and lists, as operations and as
    a relation of the reachable worlds. Shown: no socket is lost or shared, ids do not repeat as long as the clock does not step back.
  \<^item> \<open>Tk_Task\<close> (src/task): the run methods of the three tasks. Shown: a run forgets no connection.
  \<^item> \<open>Tk_Websocket\<close>, \<open>Tk_Http_App\<close>, \<open>Tk_Stream_App\<close> (src/app): the applications. Shown: text and binary frames with a
    payload are parsed and broadcast, the handshake is that of RFC 6455, files are delivered completely; and where the code fails: empty frames
    block, control and continuation frames close the connection, directory listings longer than a block, stream requests that arrive together or have size 0.
  \<^item> \<open>Tk_Http_Run\<close>: the HTTP task and the file server together. Shown: from the request to the last byte, over any
    number of tasks, the response leaves in order, completely, and the connection then ends.
  \<^item> \<open>Tk_Inifile\<close> (external/tubekit-inifile), \<open>Tk_System\<close> (server.cpp, system.cpp, hooks): configuration files, the
    start of the server, the main loop. Shown: which failures keep the server from the loop (those of \<open>bind\<close>, \<open>listen\<close> and epoll do not), and that in it the
    components are ready and agree; a registered connection has the class the tasks cast it to; a stop request ends the loop; two settings are exchanged.
  \<^item> \<open>Tk_Process\<close> (system.cpp): limits, signals and log file of the process. Shown: \<open>SIGTERM\<close> ends the server in order, at the first turn of a new second.
  \<^item> \<open>Tk_Json\<close>, \<open>Tk_Xml\<close>, \<open>Tk_Timer\<close> (external/tubekit-json, -xml, -timer): the libraries for the application. Shown:
    parsing inverts printing, for the texts the printers get right; the JSON parser always returns, the XML parser does not; timers fire once per check and as often as asked.
  \<^item> \<open>Tk_Log\<close>, \<open>Tk_Lua\<close> (external/tubekit-log, src/app/lua_plugin.cpp): the logger and the Lua plugin, over the height of the Lua stack. Shown:
    a log only grows; every failing hook leaves a slot of the stack behind.
  \<^item> \<open>Tk_Shm\<close>, \<open>Tk_Udp\<close> (external/tubekit-ipc): the pool in shared memory, with its contract as locale \<open>slot_set\<close>, and the
    datagram component. Shown: the pool is a set of used slots, whatever addresses but one are returned to it; datagrams are delivered in order; descriptors are closed twice.
  \<^item> \<open>Tk_Actor\<close>, \<open>Tk_Sql\<close> (external/tubekit-ecsactor, -sql): identifiers, string and time functions; the wrappers of MySQL.
    Shown: the layout of an identifier, which gives its application back and repeats after 65536; \<open>replace\<close> returns and is a cut and a join.
  \<^item> This theory: a request through the stream server, from the pieces on the socket to the response on the socket.

  \<^bold>\<open>How the code appears\<close>

  A class is a record of its members, a method a function from the object to its result and the changed object, an
  exception the left part of a sum. A mutex makes the method that holds it one step; the threads are
  interleaved at that grain. Pointers into a pool are slot numbers; a connection pointer carries the class of the object.
  Requests of a component to another one (queue a task, register a socket) are results of the
  method, which the calling component executes. \<open>int\<close> and \<open>size_t\<close> are unbounded numbers where the code
  stays inside their range and are wrapped where it may leave it.

  Code outside the repository is a parameter: the kernel and OpenSSL (the answers to \<open>recv\<close>, \<open>send\<close>, \<open>accept\<close>,
  \<open>epoll_ctl\<close> and \<open>epoll_wait\<close> are lists or functions), the thread library, the memory allocator, the HTTP parser, Protocol Buffers, the file
  system, the clock, the iteration order of hash sets, floating point. What a theorem needs of it is a hypothesis, and the witness
  next to the theorem instantiates it.

  \<^bold>\<open>Bounds\<close>

  A loop over socket calls consumes one answer per call, so it ends with the list of answers; \<open>None\<close> is a list that is
  too short, and the theorems on termination say which lists are long enough. The JSON parser has fuel \<open>2 * length + 1\<close>, shown to be enough for
  every input, the XML parser the same for the texts of the printer. The loop of the stream application has fuel because it
  need not end; one more than the number of requests is enough when it does. A response of the HTTP application has as many rounds as the file
  has blocks of 102400 bytes, and two more; it takes at most two tasks more than it has bytes when each task empties its array.
  \<open>replace\<close> has fuel: one more than the length of the text is enough for a pattern that is not empty, none is for the empty one.
  The loop of the datagram component runs over a list of turns.

  \<^bold>\<open>Not modelled\<close>

  Vendored libraries (http-parser, lua, zlib, hiredis), which the server only calls; the Redis client, a test program for hiredis;
  the address conversions of the datagram component and the TCP component, which is a stub; the formatting, uuid and clock functions of
  the actor prototype, which forward to the C library; the plugin engine, which is commented out; destructors that have no state
  after them; example clients and tests.
\<close>

section \<open>A request through the stream server\<close>

text \<open>What receiving leaves alone, and that nothing is left in the array when it returns true.\<close>

definition same_output :: "'c buffered_connection_scheme \<Rightarrow> 'c buffered_connection_scheme \<Rightarrow> bool" where
  "same_output c d \<longleftrightarrow> outgoing d = outgoing c \<and> c_gid d = c_gid c \<and> socket_ptr d = socket_ptr c \<and>
     write_end_callback d = write_end_callback c \<and> close_flag d = close_flag c"

lemma sock2buf_loop_frame:
  assumes "sock2buf_loop heap as c = Some (ret, need, d, rest)"
  shows "same_output c d \<and> (ret \<longrightarrow> \<not> need \<and> sock2buf_data_len d = -1)"
  using assms
proof (induction as arbitrary: c)
  case (Cons a as)
  from Cons.prems obtain s where s: "socket_ptr c = Some s" by (cases "socket_ptr c") simp_all
  obtain len data e where r: "socket_recv a 0 s = (len, data, e)" by (metis prod_cases3)
  let ?c = "c\<lparr>sock2buf_inner_buffer := store_at 0 data (sock2buf_inner_buffer c), sock2buf_data_len := len\<rparr>"
  have IH: "same_output c d \<and> (ret \<longrightarrow> \<not> need \<and> sock2buf_data_len d = -1)"
    if "sock2buf_loop heap as c1 = Some (ret, need, d, rest)" "same_output c c1" for c1
    using Cons.IH [OF that(1)] that(2) by (simp add: same_output_def)
  have again: "same_output c d \<and> (ret \<longrightarrow> \<not> need \<and> sock2buf_data_len d = -1)"
    if "sock2buf_loop heap as (?c\<lparr>m_recv_buffer := b, sock2buf_data_len := n\<rparr>) = Some (ret, need, d, rest)" for b n
    by (rule IH [OF that]) (simp add: same_output_def outgoing_def in_transfer_def)
  have retry: "same_output c d \<and> (ret \<longrightarrow> \<not> need \<and> sock2buf_data_len d = -1)"
    if "sock2buf_loop heap as ?c = Some (ret, need, d, rest)"
    by (rule IH [OF that]) (simp add: same_output_def outgoing_def in_transfer_def)
  have stop: "same_output c ?c" "\<And>b. same_output c (?c\<lparr>m_recv_buffer := b\<rparr>)"
    by (simp_all add: same_output_def outgoing_def in_transfer_def)
  show ?case
  proof (cases "len = -1 \<and> e = EAGAIN \<or> len = -1 \<and> e = EINTR \<or> len \<le> 0")
    case True
    then show ?thesis using Cons.prems s r stop retry by (auto simp: Let_def split: if_splits)
  next
    case False
    obtain w b where w: "buffer_write heap (Some (take (nat len) (store_at 0 data (sock2buf_inner_buffer c)))) (m_recv_buffer c) = (w, b)"
      by fastforce
    show ?thesis
    proof (cases w)
      case (Inl x)
      then show ?thesis using Cons.prems s r w stop False by (auto simp: Let_def)
    next
      case (Inr x)
      then show ?thesis by (intro again [of 0 b]) (use Cons.prems s r w False in \<open>simp add: Let_def\<close>)
    qed
  qed
qed simp

lemma sock2buf_frame:
  assumes "sock2buf heap as c = Some (True, need, d, rest)"
  shows "same_output c d" "\<not> need" "sock2buf_data_len d = -1"
proof -
  have keep: "same_output c (c\<lparr>m_recv_buffer := b, sock2buf_data_len := n\<rparr>)" for b n
    by (simp add: same_output_def outgoing_def in_transfer_def)
  obtain c1 where "sock2buf_loop heap as c1 = Some (True, need, d, rest)" "same_output c c1"
    using assms keep by (auto simp: sock2buf_def same_output_def split: if_splits prod.splits sum.splits)
  with sock2buf_loop_frame [OF this(1)] show "same_output c d" "\<not> need" "sock2buf_data_len d = -1"
    by (simp_all add: same_output_def)
qed

text \<open>C2: a request through the stream server, over the parts of a task. The request may come in any pieces:
  what an earlier task left in the receive buffer and what this one receives is together the request. Then after \<open>sock2buf\<close> the
  application finds all of it, takes it off the receive buffer and queues the response; \<open>buf2sock\<close>
  returns when the socket gives enough answers. As long as the socket takes every write completely (after a partial write
  bytes are repeated, as the theory of connections shows), what left followed by what is still queued is the response, and all of it has left when
  \<open>buf2sock\<close> reports that nothing is to be sent. The task ends by registering the socket again.\<close>

theorem stream_request_end_to_end:
  assumes "heap_total heap"
    and c: "conn_ok c" "\<not> write_end_callback c" "socket_ptr c = Some s" "0 < c_gid c" "outgoing c = []"
    and recv: "list_all recv_fits recvs" "sock2buf heap recvs c = Some (True, need, c1, [])"
      "incoming c @ concat (map (received s) recvs) = package_bytes pb request"
    and pb: "parse_package pb (package_bytes pb request) = Some request" "package_size pb request = length (package_bytes pb request)"
      "package_bytes pb request \<noteq> []" "cmd request = CS_REQ_EXAMPLE" "parse_request pb (pkg_body request) = Some ctx"
      "answer pb ctx \<noteq> []" "length (answer pb ctx) \<le> mem_buffer_size_max"
    and app: "\<And>d r reqs st. stream_process_connection heap pb cm 2 p (\<lambda>_. d) = Some (r, reqs, st) \<Longrightarrow> app d = (r, reqs, st p)"
    and sends: "enough_answers s (length (answer pb ctx)) sends"
  shows "\<exists>c2 c3 b_send b_closed trace rest.
    app c1 = (Inr (), [Do_task (c_gid c) False True], c2) \<and> incoming c2 = [] \<and> outgoing c2 = answer pb ctx \<and>
    buf2sock heap callback sends c2 = Some (Inr (b_send, b_closed), c3, trace, rest) \<and>
    (Tk_Connection.complete trace \<longrightarrow> wire trace @ outgoing c3 = answer pb ctx) \<and>
    (\<not> b_send \<and> \<not> b_closed \<longrightarrow> outgoing c3 = []) \<and>
    (\<not> b_closed \<longrightarrow> stream_task_io heap app callback recvs sends gid effs c =
       Some (Inr (), effs @ [Request (Do_task (c_gid c) False True), Attach b_send], Some c3))"
proof -
  note io = total_heap.intro [OF assms(1)]
  have c1: "conn_ok c1" "incoming c1 = package_bytes pb request"
    using total_heap.sock2buf_lossless [OF io c(1) recv(1) c(3) recv(2)] recv(3) by auto
  note frame = sock2buf_frame [OF recv(2), unfolded same_output_def]
  have content1: "content (m_recv_buffer c1) = package_bytes pb request" using c1(2) frame(3) by (simp add: incoming_def)
  have out1: "in_transfer c1 = []" "content (m_send_buffer c1) = []" "content (m_wating_send_pack c1) = []"
    using frame(1) c(5) by (simp_all add: outgoing_def)
  have "\<exists>b w. stream_process_connection heap pb cm 2 p (\<lambda>_. c1) =
      Some (Inr (), replicate (length [(request, ctx)]) (Do_task (c_gid c1) False True),
        (\<lambda>_. c1)(p := c1\<lparr>m_wating_send_pack := w, m_recv_buffer := b\<rparr>)) \<and>
    content b = [] \<and> content w = content (m_wating_send_pack c1) @ concat (map (answer pb \<circ> snd) [(request, ctx)]) \<and>
    conn_ok (c1\<lparr>m_wating_send_pack := w, m_recv_buffer := b\<rparr>)"
    by (rule process_connection_reads [where conns = "\<lambda>_. c1"]) (use assms(1) c c1 frame(1) content1 out1 pb in simp_all)
  then obtain b w where bw: "app c1 = (Inr (), [Do_task (c_gid c) False True], c1\<lparr>m_wating_send_pack := w, m_recv_buffer := b\<rparr>)"
    "content b = []" "content w = answer pb ctx" "conn_ok (c1\<lparr>m_wating_send_pack := w, m_recv_buffer := b\<rparr>)"
    using app frame(1) out1(3) by fastforce
  let ?c2 = "c1\<lparr>m_wating_send_pack := w, m_recv_buffer := b\<rparr>"
  have tr: "in_transfer ?c2 = in_transfer c1" by (simp add: in_transfer_def)
  have out2: "incoming ?c2 = []" "outgoing ?c2 = answer pb ctx" "\<not> write_end_callback ?c2" "socket_ptr ?c2 = Some s"
    using bw(2,3) out1(1,2) tr frame c(2,3) by (simp_all add: incoming_def outgoing_def)
  obtain r c3 trace rest where run: "buf2sock heap callback sends ?c2 = Some (r, c3, trace, rest)"
    using total_heap.buf2sock_returns [OF io bw(4) out2(3,4)] sends out2(2) by (metis prod_cases4)
  note sent = total_heap.buf2sock_run [OF io bw(4) out2(3,4) run]
  then obtain b_send b_closed where r: "r = Inr (b_send, b_closed)" by (auto split: sum.splits)
  have "stream_task_io heap app callback recvs sends gid effs c =
      Some (Inr (), effs @ [Request (Do_task (c_gid c) False True), Attach b_send], Some c3)" if "\<not> b_closed"
    using recv(2) frame(2) bw(1) run r that by (simp add: stream_task_io_def)
  then show ?thesis using bw(1) out2(1,2) run r sent by (auto split: if_splits)
qed

definition demo_player :: stream_connection where
  "demo_player = demo_connection\<lparr>c_gid := 7\<rparr>"

definition demo_app :: "stream_connection \<Rightarrow> unit res \<times> request list \<times> stream_connection" where
  "demo_app d = (case stream_process_connection zero_heap wire_format connection_mgr_new 2 0 (\<lambda>_. d) of
     Some (r, reqs, st) \<Rightarrow> (r, reqs, st 0) | None \<Rightarrow> (Inr (), [], d))"

lemma demo_player_ok:
  "conn_ok demo_player" "\<not> write_end_callback demo_player" "socket_ptr demo_player = Some (socket_new [] 0)" "0 < c_gid demo_player"
  "incoming demo_player = []" "outgoing demo_player = []" "sock2buf_data_len demo_player = 0"
  using demo_connection_ok
  by (simp_all add: demo_player_def conn_ok_def incoming_def outgoing_def in_transfer_def)
     (simp add: demo_connection_def buffered_reuse_def)

lemma demo_player_receives:
  "\<exists>need c1. sock2buf zero_heap [Received [18, 3], Received [10, 1, 65], Recv_failed EAGAIN] demo_player = Some (True, need, c1, [])"
proof -
  let ?b = "m_recv_buffer demo_player"
  have b: "buffer_inv ?b" "m_limit_max ?b = mem_buffer_size_max" "content ?b = []"
    using demo_player_ok(1,5) by (simp_all add: conn_ok_def incoming_def)
  obtain b1 where b1: "buffer_write zero_heap (Some [18, 3]) ?b = (Inr (length [18, 3 :: byte]), b1)" "buffer_inv b1" "content b1 = [18, 3]"
    "m_limit_max b1 = mem_buffer_size_max"
    using buffer_write_ok [OF heap_total_zero_heap b(1), of "[18, 3]"] b(2,3) by (auto simp: mem_buffer_size_max_def inner_buffer_size_def)
  obtain b2 where b2: "buffer_write zero_heap (Some [10, 1, 65]) b1 = (Inr (length [10, 1, 65 :: byte]), b2)"
    using buffer_write_ok [OF heap_total_zero_heap b1(2), of "[10, 1, 65]"] b1(3,4) by (auto simp: mem_buffer_size_max_def inner_buffer_size_def)
  have t: "take 2 (store_at 0 [18, 3] xs) = [18, 3 :: byte]" "take 3 (store_at 0 [10, 1, 65] xs) = [10, 1, 65 :: byte]" for xs
    using take_store_at_front [of "[18, 3]" xs] take_store_at_front [of "[10, 1, 65]" xs] by (simp_all add: numeral_2_eq_2 numeral_3_eq_3)
  show ?thesis using b1(1) b2 t demo_player_ok(3,7) by (simp add: sock2buf_def socket_recv_def socket_new_def) blast
qed

theorem stream_request_end_to_end_witness:
  "\<exists>need c1 c2. sock2buf zero_heap [Received [18, 3], Received [10, 1, 65], Recv_failed EAGAIN] demo_player = Some (True, need, c1, []) \<and>
     demo_app c1 = (Inr (), [Do_task 7 False True], c2) \<and> outgoing c2 = [8, 1, 18, 3, 10, 1, 65]"
proof -
  let ?recvs = "[Received [18, 3], Received [10, 1, 65], Recv_failed EAGAIN]"
  obtain need c1 where r: "sock2buf zero_heap ?recvs demo_player = Some (True, need, c1, [])"
    using demo_player_receives by blast
  have recv: "list_all recv_fits ?recvs" "concat (map (received (socket_new [] 0)) ?recvs) = [18, 3, 10, 1, 65]"
    by (simp_all add: inner_buffer_size_def received_def socket_recv_def socket_new_def)
  have "enough_answers (socket_new [] 0) (length (answer wire_format [65])) [Send_failed EAGAIN]"
    by (simp add: enough_answers_def blocked_def socket_send_def socket_new_def)
  from stream_request_end_to_end [where app = demo_app and pb = wire_format and request = "\<lparr>cmd = 0, pkg_body = [10, 1, 65]\<rparr>"
      and ctx = "[65]" and p = 0 and cm = connection_mgr_new and callback = "\<lambda>c. (None, c)",
      OF heap_total_zero_heap demo_player_ok(1-4,6) recv(1) r _ _ _ _ _ _ _ _ _ this] recv(2) demo_player_ok(5)
  obtain c2 where "demo_app c1 = (Inr (), [Do_task (c_gid demo_player) False True], c2)" "outgoing c2 = answer wire_format [65]"
    by (auto simp: wire_simps demo_app_def)
  then show ?thesis using r by (simp add: wire_simps demo_player_def)
qed

end
